(* ===== verification/Prelude.thy ===== *)
theory Prelude
  imports "HOL-Library.Word" "HOL-Library.RBT" "HOL-Library.AList" "HOL-Library.Monad_Syntax"
begin

text \<open>
  Shared base of the development: the machine types of the node, the byte order conversions of
  the Rust standard library (\<open>to_le_bytes\<close>, \<open>to_be_bytes\<close> and their inverses), byte readers,
  the interface \<open>codec\<close> that every wire and database format of the node satisfies, ordered
  key-value tables with encoded values, and sums over finite maps.
\<close>

named_theorems codec_simps \<open>round trips of encoders and decoders\<close>
named_theorems reader_length \<open>how many bytes a successful read consumes\<close>
named_theorems store_simps \<open>what a table returns after a put or a delete\<close>

unbundle bit_operations_syntax

section \<open>Machine types\<close>

type_synonym u8 = "8 word"
type_synonym u16 = "16 word"
type_synonym u32 = "32 word"
type_synonym u64 = "64 word"
type_synonym u128 = "128 word"
type_synonym u256 = "256 word"
type_synonym bytes = "u8 list"

lemma word_less_succ:
  fixes n :: "'a::len word"
  shows "n < - 1 \<Longrightarrow> i \<le> n \<Longrightarrow> i < n + 1"
  by (auto simp: word_less_nat_alt word_le_nat_alt unat_plus_if' unsigned_minus_1_eq_mask
      mask_eq_exp_minus_1)

section \<open>Byte order\<close>

text \<open>Little-endian bytes of a word, \<open>n\<close> of them, and the word a byte list stands for.\<close>

fun le_bytes :: "nat \<Rightarrow> 'a::len word \<Rightarrow> bytes" where
  "le_bytes 0 x = []"
| "le_bytes (Suc n) x = ucast x # le_bytes n (drop_bit 8 x)"

fun of_le_bytes :: "bytes \<Rightarrow> 'a::len word" where
  "of_le_bytes [] = 0"
| "of_le_bytes (b # bs) = ucast b OR push_bit 8 (of_le_bytes bs)"

definition be_bytes :: "nat \<Rightarrow> 'a::len word \<Rightarrow> bytes" where
  "be_bytes n x = rev (le_bytes n x)"

definition of_be_bytes :: "bytes \<Rightarrow> 'a::len word" where
  "of_be_bytes bs = of_le_bytes (rev bs)"

lemma length_le_bytes [simp]: "length (le_bytes n x) = n"
  by (induction n arbitrary: x) auto

lemma length_be_bytes [simp]: "length (be_bytes n x) = n"
  by (simp add: be_bytes_def)

lemma of_le_bytes_le_bytes:
  fixes x :: "'a::len word"
  shows "of_le_bytes (le_bytes n x) = take_bit (8 * n) x"
proof (induction n arbitrary: x)
  case 0
  then show ?case by simp
next
  case (Suc n)
  have "ucast (ucast x :: u8) OR push_bit 8 (take_bit (8 * n) (drop_bit 8 x)) = take_bit (8 * Suc n) x"
    by (rule bit_word_eqI) (auto simp: bit_simps)
  with Suc.IH show ?case by simp
qed

lemma le_bytes_roundtrip [codec_simps]:
  fixes x :: "'a::len word"
  shows "LENGTH('a) \<le> 8 * n \<Longrightarrow> of_le_bytes (le_bytes n x) = x"
  by (simp add: of_le_bytes_le_bytes take_bit_word_eq_self)

lemma be_bytes_roundtrip [codec_simps]:
  fixes x :: "'a::len word"
  shows "LENGTH('a) \<le> 8 * n \<Longrightarrow> of_be_bytes (be_bytes n x) = x"
  by (simp add: of_be_bytes_def be_bytes_def le_bytes_roundtrip)

lemma le_bytes_of_le_bytes:
  "8 * length bs \<le> LENGTH('a) \<Longrightarrow> le_bytes (length bs) (of_le_bytes bs :: 'a::len word) = bs"
proof (induction bs)
  case Nil
  then show ?case by simp
next
  case (Cons b bs)
  let ?w = "of_le_bytes bs :: 'a word"
  have low: "ucast (ucast b OR push_bit 8 ?w) = b"
    using Cons.prems by (intro bit_word_eqI) (auto simp: bit_simps)
  have high: "drop_bit 8 (ucast b OR push_bit 8 ?w) = take_bit (LENGTH('a) - 8) ?w"
    by (rule bit_word_eqI) (auto simp: bit_simps dest: bit_imp_le_length)
  have bound: "take_bit (8 * length bs) ?w = ?w"
  proof -
    have "take_bit (8 * length cs) (of_le_bytes cs :: 'a word) = of_le_bytes cs" for cs
    proof (induction cs)
      case Nil
      then show ?case by simp
    next
      case (Cons c cs)
      let ?v = "of_le_bytes cs :: 'a word"
      have "take_bit (8 * length (c # cs)) (ucast c OR push_bit 8 ?v)
          = ucast c OR push_bit 8 (take_bit (8 * length cs) ?v)"
        by (rule bit_word_eqI) (auto simp: bit_simps dest: bit_imp_le_length)
      with Cons.IH show ?case by simp
    qed
    then show ?thesis .
  qed
  have "take_bit (LENGTH('a) - 8) ?w = take_bit (LENGTH('a) - 8) (take_bit (8 * length bs) ?w)"
    by (simp only: bound)
  also have "\<dots> = take_bit (8 * length bs) ?w"
    using Cons.prems by (simp add: min_absorb2)
  finally have "take_bit (LENGTH('a) - 8) ?w = ?w"
    by (simp only: bound)
  with low high Cons show ?case by simp
qed

lemma be_bytes_of_be_bytes:
  "8 * length bs \<le> LENGTH('a) \<Longrightarrow> be_bytes (length bs) (of_be_bytes bs :: 'a::len word) = bs"
  using le_bytes_of_le_bytes [of "rev bs", where 'a = 'a] by (simp add: of_be_bytes_def be_bytes_def)

section \<open>Byte readers\<close>

text \<open>
  A reader consumes a prefix of the remaining bytes (\<open>BufferReader\<close> keeps them as a slice and an
  index) and returns the value and what is left, or \<open>None\<close> for an \<open>anyhow\<close> error.
\<close>

type_synonym 'a reader = "bytes \<Rightarrow> ('a \<times> bytes) option"

fun read_u8 :: "u8 reader" where
  "read_u8 [] = None"
| "read_u8 (b # bs) = Some (b, bs)"

definition read_bytes :: "nat \<Rightarrow> bytes reader" where
  "read_bytes n bs = (if n > length bs then None else Some (take n bs, drop n bs))"

definition in_avail :: "bytes \<Rightarrow> nat" where
  "in_avail bs = length bs"

lemma read_bytes_append [codec_simps]:
  "length xs = n \<Longrightarrow> read_bytes n (xs @ rest) = Some (xs, rest)"
  by (simp add: read_bytes_def)

lemma read_bytes_length [reader_length]:
  "read_bytes n bs = Some (xs, rest) \<Longrightarrow> length bs = n + length rest"
  by (auto simp: read_bytes_def split: if_splits)

lemma read_u8_length [reader_length]: "read_u8 bs = Some (x, rest) \<Longrightarrow> length bs = 1 + length rest"
  by (cases bs) auto

lemma read_bytes_None: "length bs < n \<Longrightarrow> read_bytes n bs = None"
  by (simp add: read_bytes_def)

definition read_le :: "nat \<Rightarrow> 'a::len word reader" where
  "read_le n bs = do { (xs, rest) \<leftarrow> read_bytes n bs; Some (of_le_bytes xs, rest) }"

definition read_be :: "nat \<Rightarrow> 'a::len word reader" where
  "read_be n bs = do { (xs, rest) \<leftarrow> read_bytes n bs; Some (of_be_bytes xs, rest) }"

lemma read_le_le_bytes [codec_simps]:
  fixes x :: "'a::len word"
  shows "LENGTH('a) \<le> 8 * n \<Longrightarrow> read_le n (le_bytes n x @ rest) = Some (x, rest)"
  by (simp add: read_le_def read_bytes_append le_bytes_roundtrip)

lemma read_be_be_bytes [codec_simps]:
  fixes x :: "'a::len word"
  shows "LENGTH('a) \<le> 8 * n \<Longrightarrow> read_be n (be_bytes n x @ rest) = Some (x, rest)"
  by (simp add: read_be_def read_bytes_append be_bytes_roundtrip)

lemma read_le_short [codec_simps]: "length bs < n \<Longrightarrow> read_le n bs = None"
  by (simp add: read_le_def read_bytes_None)

lemma read_be_short [codec_simps]: "length bs < n \<Longrightarrow> read_be n bs = None"
  by (simp add: read_be_def read_bytes_None)

lemma read_le_length [reader_length]:
  "read_le n bs = Some (x, rest) \<Longrightarrow> length bs = n + length rest"
  by (auto simp: read_le_def bind_eq_Some_conv dest!: read_bytes_length)

lemma read_be_length [reader_length]:
  "read_be n bs = Some (x, rest) \<Longrightarrow> length bs = n + length rest"
  by (auto simp: read_be_def bind_eq_Some_conv dest!: read_bytes_length)

section \<open>The codec interface\<close>

text \<open>
  Every serialised type of the node promises one law: reading what was written, with anything
  after it, returns the value and leaves exactly the rest. From it follow that encodings are
  prefix-free and injective, and that a table of encoded values is a table of values.
\<close>

locale codec =
  fixes enc :: "'a \<Rightarrow> bytes"
    and dec :: "'a reader"
  assumes dec_enc: "dec (enc x @ rest) = Some (x, rest)"
begin

lemma dec_enc_whole: "dec (enc x) = Some (x, [])"
  using dec_enc [of x "[]"] by simp

lemma enc_prefix_free: "enc x @ r = enc y @ s \<Longrightarrow> x = y \<and> r = s"
  by (metis dec_enc option.inject prod.inject)

lemma enc_inject: "enc x = enc y \<longleftrightarrow> x = y"
  using enc_prefix_free [of x "[]" y "[]"] by auto

end

text \<open>A codec whose encodings all have one length, and which rejects anything shorter.\<close>

locale fixed_codec = codec enc dec for enc :: "'a \<Rightarrow> bytes" and dec :: "'a reader" +
  fixes size_of :: nat
  assumes enc_length: "length (enc x) = size_of"
    and dec_length: "dec bs = Some (x, rest) \<Longrightarrow> length bs = size_of + length rest"
begin

lemma dec_short: "length bs < size_of \<Longrightarrow> dec bs = None"
  using dec_length by (cases "dec bs") fastforce+

lemma dec_truncated: "n < size_of \<Longrightarrow> dec (take n (enc x)) = None"
  using dec_short [of "take n (enc x)"] enc_length [of x] by simp

end

interpretation u256_be: fixed_codec "be_bytes 32 :: u256 \<Rightarrow> bytes" "read_be 32" 32
  by unfold_locales (auto simp: codec_simps dest: reader_length)

interpretation u128_be: fixed_codec "be_bytes 16 :: u128 \<Rightarrow> bytes" "read_be 16" 16
  by unfold_locales (auto simp: codec_simps dest: reader_length)

interpretation u64_be: fixed_codec "be_bytes 8 :: u64 \<Rightarrow> bytes" "read_be 8" 8
  by unfold_locales (auto simp: codec_simps dest: reader_length)

interpretation u64_le: fixed_codec "le_bytes 8 :: u64 \<Rightarrow> bytes" "read_le 8" 8
  by unfold_locales (auto simp: codec_simps dest: reader_length)

section \<open>Ordered tables\<close>

text \<open>
  A database table is an ordered map from keys to encoded values (the nulled LMDB environment of
  the repository is a \<open>BTreeMap\<close>; keys are big-endian arrays, so their byte order is the order
  of the words). A typed store encodes on \<open>put\<close> and decodes on \<open>get\<close>.
\<close>

definition store_get :: "'v reader \<Rightarrow> ('k::linorder, bytes) rbt \<Rightarrow> 'k \<Rightarrow> 'v option" where
  "store_get dec t k = do { bs \<leftarrow> RBT.lookup t k; (v, _) \<leftarrow> dec bs; Some v }"

definition store_put :: "('v \<Rightarrow> bytes) \<Rightarrow> ('k::linorder, bytes) rbt \<Rightarrow> 'k \<Rightarrow> 'v \<Rightarrow> ('k, bytes) rbt" where
  "store_put enc t k v = RBT.insert k (enc v) t"

definition store_del :: "('k::linorder, bytes) rbt \<Rightarrow> 'k \<Rightarrow> ('k, bytes) rbt" where
  "store_del t k = RBT.delete k t"

definition store_exists :: "('k::linorder, bytes) rbt \<Rightarrow> 'k \<Rightarrow> bool" where
  "store_exists t k \<longleftrightarrow> RBT.lookup t k \<noteq> None"

lemma store_get_empty [store_simps]: "store_get dec RBT.empty = Map.empty"
  by (auto simp: store_get_def)

lemma store_get_del [store_simps]:
  "store_get dec (store_del t k) = (store_get dec t)(k := None)"
  by (auto simp: store_get_def store_del_def fun_eq_iff)

lemma finite_dom_store_get [simp, intro]: "finite (dom (store_get dec t))"
proof (rule finite_subset)
  show "dom (store_get dec t) \<subseteq> dom (RBT.lookup t)"
    by (auto simp: store_get_def split: bind_splits)
  show "finite (dom (RBT.lookup t))"
    by (simp add: RBT.lookup_keys)
qed

context codec
begin

lemma store_get_put: "store_get dec (store_put enc t k v) = (store_get dec t)(k \<mapsto> v)"
  by (auto simp: store_get_def store_put_def dec_enc_whole fun_eq_iff)

end

lemma set_entries: "set (RBT.entries t) = {(k, v). RBT.lookup t k = Some v}"
  by (auto simp: RBT.lookup_in_tree)

lemma distinct_rbt_entries: "distinct (RBT.entries t)"
  using RBT.distinct_entries [of t] by (simp add: distinct_map)

lemma entries_singleton [simp]: "RBT.entries (RBT.insert k v RBT.empty) = [(k :: 'k::linorder, v)]"
proof -
  have "set (RBT.entries (RBT.insert k v RBT.empty)) = {(k, v)}"
    by (auto simp: set_entries split: if_splits)
  with distinct_rbt_entries [of "RBT.insert k v RBT.empty"] show ?thesis
    by (metis distinct_card length_0_conv length_Suc_conv card_1_singleton_iff list.set_intros(1)
        One_nat_def singletonD)
qed

lemma rbt_entries_empty [simp]: "RBT.entries (RBT.empty :: ('k::linorder, 'v) rbt) = []"
  using set_entries [of "RBT.empty :: ('k, 'v) rbt"] by simp

section \<open>Sums over finite maps\<close>

definition map_sum :: "('v \<Rightarrow> nat) \<Rightarrow> ('k \<rightharpoonup> 'v) \<Rightarrow> nat" where
  "map_sum f m = (\<Sum>k\<in>dom m. f (the (m k)))"

lemma map_sum_empty [simp]: "map_sum f Map.empty = 0"
  by (simp add: map_sum_def)

lemma map_sum_split:
  assumes "finite (dom m)"
  shows "map_sum f m = (case m k of None \<Rightarrow> 0 | Some v \<Rightarrow> f v) + map_sum f (m(k := None))"
proof (cases "m k")
  case None
  then show ?thesis by (simp add: fun_upd_idem)
next
  case (Some v)
  then have "k \<in> dom m" by auto
  moreover have "map_sum f (m(k := None)) = (\<Sum>x\<in>dom m - {k}. f (the (m x)))"
    unfolding map_sum_def by (rule sum.cong) auto
  ultimately show ?thesis
    using Some assms by (simp add: map_sum_def sum.remove [of "dom m" k])
qed

lemma map_sum_upd:
  assumes "finite (dom m)"
  shows "map_sum f (m(k \<mapsto> v)) = f v + map_sum f (m(k := None))"
  using map_sum_split [of "m(k \<mapsto> v)" f k] assms by simp

lemma map_sum_singleton [simp]: "map_sum f [k \<mapsto> v] = f v"
  using map_sum_upd [of Map.empty f k v] by simp

lemma map_sum_del_eq: "m k = None \<Longrightarrow> map_sum f (m(k := None)) = map_sum f m"
  by (simp add: fun_upd_idem)

lemma map_sum_member: "finite (dom m) \<Longrightarrow> m k = Some v \<Longrightarrow> f v \<le> map_sum f m"
  by (subst map_sum_split [of m f k]) auto

lemma map_sum_two:
  assumes "finite (dom m)" "m a = Some x" "m b = Some y" "a \<noteq> b"
  shows "f x + f y \<le> map_sum f m"
  using assms map_sum_split [of m f a] map_sum_member [of "m(a := None)" b y f] by simp

end
