(* ===== verification/Core_Types.thy ===== *)
theory Core_Types
  imports Prelude
begin

text \<open>
  The basic value types of \<open>core/src\<close>: 256-bit identifiers, amounts, epochs, and the records
  kept in the database tables with their byte formats. \<open>Account\<close>, \<open>BlockHash\<close>, \<open>Link\<close>, \<open>Root\<close> and
  \<open>PublicKey\<close> are 32-byte arrays in the code that convert into each other byte by byte and compare
  lexicographically; a 256-bit word read big-endian has the same conversions and the same order.
  \<open>Amount\<close> is a \<open>u128\<close>; its \<open>+\<close> and \<open>-\<close> wrap in the release profile, as word arithmetic does.
\<close>

section \<open>Identifiers and cryptographic primitives\<close>

type_synonym account = u256
type_synonym block_hash = u256
type_synonym link = u256
type_synonym root = u256
type_synonym public_key = u256
type_synonym amount = u128
type_synonym signature = "512 word"
type_synonym work_nonce = u64
type_synonym timestamp = u64

text \<open>
  The third-party primitives the node calls: \<open>blake2b n bs\<close> is the \<open>n\<close>-byte Blake2b digest of
  \<open>bs\<close>; \<open>ed25519_verify k msg sig\<close> says whether \<open>sig\<close> is a valid signature of \<open>msg\<close> under \<open>k\<close>.
\<close>

record crypto =
  blake2b :: "nat \<Rightarrow> bytes \<Rightarrow> bytes"
  ed25519_verify :: "public_key \<Rightarrow> bytes \<Rightarrow> signature \<Rightarrow> bool"

text \<open>\<open>BlockHashBuilder\<close>: all updates are concatenated, the digest has 32 bytes.\<close>

definition build_hash :: "crypto \<Rightarrow> bytes \<Rightarrow> block_hash" where
  "build_hash cr bs = of_be_bytes (blake2b cr 32 bs)"

definition verify_signature :: "crypto \<Rightarrow> public_key \<Rightarrow> block_hash \<Rightarrow> signature \<Rightarrow> bool" where
  "verify_signature cr k h sig = ed25519_verify cr k (be_bytes 32 h) sig"

text \<open>\<open>DifficultyV1::get_difficulty\<close>.\<close>

definition get_difficulty :: "crypto \<Rightarrow> root \<Rightarrow> work_nonce \<Rightarrow> u64" where
  "get_difficulty cr r w = of_le_bytes (blake2b cr 8 (le_bytes 8 w @ be_bytes 32 r))"

section \<open>Amounts\<close>

definition amount_max :: amount where
  "amount_max = - 1"

fun amount_sum_from :: "amount \<Rightarrow> amount list \<Rightarrow> amount" where
  "amount_sum_from acc [] = acc"
| "amount_sum_from acc (i # iter) = amount_sum_from (acc + i) iter"

definition amount_sum :: "amount list \<Rightarrow> amount" where
  "amount_sum iter = amount_sum_from 0 iter"

lemma unat_amount_le [simp]: "unat (a :: amount) \<le> 2 ^ 128 - 1"
  using unsigned_less [of a, where 'a = nat] by simp

lemma unat_amount_max: "unat amount_max = 2 ^ 128 - 1"
  by (simp add: amount_max_def unsigned_minus_1_eq_mask mask_eq_exp_minus_1)

lemma unat_sub_amount: "(b :: amount) \<le> a \<Longrightarrow> unat (a - b) = unat a - unat b"
  by (simp add: unat_sub_if' word_le_nat_alt)

lemma unat_add_amount: "unat a + unat b < 2 ^ 128 \<Longrightarrow> unat ((a :: amount) + b) = unat a + unat b"
  by (simp add: unat_plus_if')

lemma amount_sum_from_exact:
  "unat s + sum_list (map unat xs) < 2 ^ 128 \<Longrightarrow>
    unat (amount_sum_from s xs) = unat s + sum_list (map unat xs)"
  by (induction xs arbitrary: s) (simp_all add: unat_add_amount)

text \<open>The sum of amounts is exact as long as it stays within the supply.\<close>

lemma amount_sum_exact:
  "sum_list (map unat xs) < 2 ^ 128 \<Longrightarrow> unat (amount_sum xs) = sum_list (map unat xs)"
  using amount_sum_from_exact [of 0 xs] by (simp add: amount_sum_def)

section \<open>Epochs\<close>

datatype epoch = Invalid | Unspecified | Epoch0 | Epoch1 | Epoch2

text \<open>The discriminants of the enum (\<open>epoch as u8\<close>), \<open>TryFrom<u8>\<close> and the derived order.\<close>

fun epoch_as_u8 :: "epoch \<Rightarrow> u8" where
  "epoch_as_u8 Invalid = 0"
| "epoch_as_u8 Unspecified = 1"
| "epoch_as_u8 Epoch0 = 2"
| "epoch_as_u8 Epoch1 = 3"
| "epoch_as_u8 Epoch2 = 4"

definition epoch_from_u8 :: "u8 \<Rightarrow> epoch option" where
  "epoch_from_u8 v =
    (if v = 0 then Some Invalid
     else if v = 1 then Some Unspecified
     else if v = 2 then Some Epoch0
     else if v = 3 then Some Epoch1
     else if v = 4 then Some Epoch2
     else None)"

fun epoch_number :: "epoch \<Rightarrow> u8" where
  "epoch_number Epoch1 = 1"
| "epoch_number Epoch2 = 2"
| "epoch_number _ = 0"

lemma epoch_u8_roundtrip [codec_simps, simp]: "epoch_from_u8 (epoch_as_u8 e) = Some e"
  by (cases e) (simp_all add: epoch_from_u8_def)

lemma epoch_as_u8_inject [simp]: "epoch_as_u8 a = epoch_as_u8 b \<longleftrightarrow> a = b"
  by (metis epoch_u8_roundtrip option.inject)

instantiation epoch :: linorder
begin

definition less_eq_epoch :: "epoch \<Rightarrow> epoch \<Rightarrow> bool" where
  "less_eq_epoch a b \<longleftrightarrow> epoch_as_u8 a \<le> epoch_as_u8 b"

definition less_epoch :: "epoch \<Rightarrow> epoch \<Rightarrow> bool" where
  "less_epoch a b \<longleftrightarrow> epoch_as_u8 a < epoch_as_u8 b"

instance
  by standard (auto simp: less_eq_epoch_def less_epoch_def dest: order.antisym)

end

text \<open>
  The released epochs. The code keeps them in a \<open>HashMap\<close>; here they are an association list in
  the map's iteration order, which only matters to \<open>epochs_epoch\<close> when two epochs share a link.
\<close>

record epoch_info =
  ei_signer :: public_key
  ei_link :: link

type_synonym epochs = "(epoch \<times> epoch_info) list"

definition epochs_add :: "epochs \<Rightarrow> epoch \<Rightarrow> public_key \<Rightarrow> link \<Rightarrow> epochs" where
  "epochs_add es e signer lnk = AList.update e \<lparr> ei_signer = signer, ei_link = lnk \<rparr> es"

definition is_epoch_link :: "epochs \<Rightarrow> link \<Rightarrow> bool" where
  "is_epoch_link es lnk \<longleftrightarrow> list_ex (\<lambda>(_, x). ei_link x = lnk) es"

definition epochs_signer :: "epochs \<Rightarrow> epoch \<Rightarrow> public_key option" where
  "epochs_signer es e = map_option ei_signer (map_of es e)"

fun epochs_epoch :: "epochs \<Rightarrow> link \<Rightarrow> epoch option" where
  "epochs_epoch [] lnk = None"
| "epochs_epoch ((k, v) # es) lnk = (if ei_link v = lnk then Some k else epochs_epoch es lnk)"

definition epoch_signer :: "epochs \<Rightarrow> link \<Rightarrow> account option" where
  "epoch_signer es lnk = do { e \<leftarrow> epochs_epoch es lnk; epochs_signer es e }"

text \<open>\<open>epoch_id + 1\<close> is a \<open>u8\<close> addition.\<close>

definition is_sequential :: "epoch \<Rightarrow> epoch \<Rightarrow> bool" where
  "is_sequential e new_e \<longleftrightarrow>
    epoch_as_u8 Epoch0 \<le> epoch_as_u8 e \<and> epoch_as_u8 new_e = epoch_as_u8 e + 1"

lemma is_sequential_iff:
  "is_sequential a b \<longleftrightarrow> (a = Epoch0 \<and> b = Epoch1) \<or> (a = Epoch1 \<and> b = Epoch2)"
  by (cases a; cases b) (simp_all add: is_sequential_def word_le_nat_alt)

lemma is_epoch_link_iff: "is_epoch_link es lnk \<longleftrightarrow> epochs_epoch es lnk \<noteq> None"
  by (induction es) (auto simp: is_epoch_link_def)

lemma epochs_epoch_mem: "epochs_epoch es lnk = Some e \<Longrightarrow> \<exists>x. (e, x) \<in> set es \<and> ei_link x = lnk"
  by (induction es) (auto split: if_splits)

lemma epoch_signer_total: "is_epoch_link es lnk \<Longrightarrow> \<exists>s. epoch_signer es lnk = Some s"
proof -
  assume "is_epoch_link es lnk"
  then obtain e where e: "epochs_epoch es lnk = Some e" by (auto simp: is_epoch_link_iff)
  then obtain x where "(e, x) \<in> set es" using epochs_epoch_mem by blast
  then have "map_of es e \<noteq> None" by (metis map_of_eq_None_iff fst_conv image_eqI)
  with e show ?thesis by (auto simp: epoch_signer_def epochs_signer_def)
qed

section \<open>Account information\<close>

record account_info =
  ai_head :: block_hash
  ai_representative :: public_key
  ai_open_block :: block_hash
  ai_balance :: amount
  ai_modified :: timestamp
  ai_block_count :: u64
  ai_epoch :: epoch

definition default_account_info :: account_info where
  "default_account_info =
    \<lparr> ai_head = 0, ai_representative = 0, ai_open_block = 0, ai_balance = 0,
      ai_modified = 0, ai_block_count = 0, ai_epoch = Unspecified \<rparr>"

text \<open>Native-endian integers are little-endian on the supported targets.\<close>

definition serialize_account_info :: "account_info \<Rightarrow> bytes" where
  "serialize_account_info i =
    be_bytes 32 (ai_head i) @ be_bytes 32 (ai_representative i) @ be_bytes 32 (ai_open_block i) @
    be_bytes 16 (ai_balance i) @ le_bytes 8 (ai_modified i) @ le_bytes 8 (ai_block_count i) @
    [epoch_as_u8 (ai_epoch i)]"

definition read_epoch :: "epoch reader" where
  "read_epoch bs = do { (b, bs) \<leftarrow> read_u8 bs; e \<leftarrow> epoch_from_u8 b; Some (e, bs) }"

definition deserialize_account_info :: "account_info reader" where
  "deserialize_account_info bs = do {
    (hd, bs) \<leftarrow> read_be 32 bs;
    (rep, bs) \<leftarrow> read_be 32 bs;
    (opn, bs) \<leftarrow> read_be 32 bs;
    (bal, bs) \<leftarrow> read_be 16 bs;
    (mdf, bs) \<leftarrow> read_le 8 bs;
    (cnt, bs) \<leftarrow> read_le 8 bs;
    (ep, bs) \<leftarrow> read_epoch bs;
    Some (\<lparr> ai_head = hd, ai_representative = rep, ai_open_block = opn, ai_balance = bal,
      ai_modified = mdf, ai_block_count = cnt, ai_epoch = ep \<rparr>, bs) }"

lemma read_epoch_append [codec_simps]: "read_epoch (epoch_as_u8 e # rest) = Some (e, rest)"
  by (simp add: read_epoch_def)

lemma read_epoch_length [reader_length]: "read_epoch bs = Some (e, rest) \<Longrightarrow> length bs = 1 + length rest"
  by (auto simp: read_epoch_def bind_eq_Some_conv dest!: read_u8_length)

interpretation account_info_codec:
  fixed_codec serialize_account_info deserialize_account_info 129
  by unfold_locales
    (auto simp: serialize_account_info_def deserialize_account_info_def codec_simps
      bind_eq_Some_conv dest!: reader_length)

section \<open>Pending entries\<close>

datatype pending_key = PendingKey (receiving_account: account) (send_block_hash: block_hash)

instantiation pending_key :: linorder
begin

definition less_eq_pending_key :: "pending_key \<Rightarrow> pending_key \<Rightarrow> bool" where
  "less_eq_pending_key a b \<longleftrightarrow>
    receiving_account a < receiving_account b \<or>
    receiving_account a = receiving_account b \<and> send_block_hash a \<le> send_block_hash b"

definition less_pending_key :: "pending_key \<Rightarrow> pending_key \<Rightarrow> bool" where
  "less_pending_key a b \<longleftrightarrow>
    receiving_account a < receiving_account b \<or>
    receiving_account a = receiving_account b \<and> send_block_hash a < send_block_hash b"

instance
  by standard (auto simp: less_eq_pending_key_def less_pending_key_def pending_key.expand)

end

definition pending_key_to_bytes :: "pending_key \<Rightarrow> bytes" where
  "pending_key_to_bytes k = be_bytes 32 (receiving_account k) @ be_bytes 32 (send_block_hash k)"

definition deserialize_pending_key :: "pending_key reader" where
  "deserialize_pending_key bs = do {
    (acc, bs) \<leftarrow> read_be 32 bs;
    (h, bs) \<leftarrow> read_be 32 bs;
    Some (PendingKey acc h, bs) }"

interpretation pending_key_codec: fixed_codec pending_key_to_bytes deserialize_pending_key 64
  by unfold_locales
    (auto simp: pending_key_to_bytes_def deserialize_pending_key_def codec_simps
      bind_eq_Some_conv dest!: reader_length)

record pending_info =
  pi_source :: account
  pi_amount :: amount
  pi_epoch :: epoch

definition pending_info_to_bytes :: "pending_info \<Rightarrow> bytes" where
  "pending_info_to_bytes i =
    be_bytes 32 (pi_source i) @ be_bytes 16 (pi_amount i) @ [epoch_as_u8 (pi_epoch i)]"

definition deserialize_pending_info :: "pending_info reader" where
  "deserialize_pending_info bs = do {
    (src, bs) \<leftarrow> read_be 32 bs;
    (amt, bs) \<leftarrow> read_be 16 bs;
    (ep, bs) \<leftarrow> read_epoch bs;
    Some (\<lparr> pi_source = src, pi_amount = amt, pi_epoch = ep \<rparr>, bs) }"

interpretation pending_info_codec: fixed_codec pending_info_to_bytes deserialize_pending_info 49
  by unfold_locales
    (auto simp: pending_info_to_bytes_def deserialize_pending_info_def codec_simps
      bind_eq_Some_conv dest!: reader_length)

section \<open>Confirmation heights and qualified roots\<close>

record confirmation_height_info =
  ch_height :: u64
  ch_frontier :: block_hash

definition default_confirmation_height_info :: confirmation_height_info where
  "default_confirmation_height_info = \<lparr> ch_height = 0, ch_frontier = 0 \<rparr>"

definition serialize_confirmation_height_info :: "confirmation_height_info \<Rightarrow> bytes" where
  "serialize_confirmation_height_info i = le_bytes 8 (ch_height i) @ be_bytes 32 (ch_frontier i)"

definition deserialize_confirmation_height_info :: "confirmation_height_info reader" where
  "deserialize_confirmation_height_info bs = do {
    (h, bs) \<leftarrow> read_le 8 bs;
    (f, bs) \<leftarrow> read_be 32 bs;
    Some (\<lparr> ch_height = h, ch_frontier = f \<rparr>, bs) }"

interpretation confirmation_height_codec:
  fixed_codec serialize_confirmation_height_info deserialize_confirmation_height_info 40
  by unfold_locales
    (auto simp: serialize_confirmation_height_info_def deserialize_confirmation_height_info_def
      codec_simps bind_eq_Some_conv dest!: reader_length)

datatype qualified_root = QualifiedRoot (qr_root: root) (qr_previous: block_hash)

instantiation qualified_root :: linorder
begin

definition less_eq_qualified_root :: "qualified_root \<Rightarrow> qualified_root \<Rightarrow> bool" where
  "less_eq_qualified_root a b \<longleftrightarrow>
    qr_root a < qr_root b \<or> qr_root a = qr_root b \<and> qr_previous a \<le> qr_previous b"

definition less_qualified_root :: "qualified_root \<Rightarrow> qualified_root \<Rightarrow> bool" where
  "less_qualified_root a b \<longleftrightarrow>
    qr_root a < qr_root b \<or> qr_root a = qr_root b \<and> qr_previous a < qr_previous b"

instance
  by standard (auto simp: less_eq_qualified_root_def less_qualified_root_def qualified_root.expand)

end

definition serialize_qualified_root :: "qualified_root \<Rightarrow> bytes" where
  "serialize_qualified_root r = be_bytes 32 (qr_root r) @ be_bytes 32 (qr_previous r)"

definition deserialize_qualified_root :: "qualified_root reader" where
  "deserialize_qualified_root bs = do {
    (r, bs) \<leftarrow> read_be 32 bs;
    (p, bs) \<leftarrow> read_be 32 bs;
    Some (QualifiedRoot r p, bs) }"

interpretation qualified_root_codec:
  fixed_codec serialize_qualified_root deserialize_qualified_root 64
  by unfold_locales
    (auto simp: serialize_qualified_root_def deserialize_qualified_root_def codec_simps
      bind_eq_Some_conv dest!: reader_length)

end
