(* ===== verification/Blocks.thy ===== *)
theory Blocks
  imports Core_Types
begin

text \<open>
  The five block types of \<open>core/src/blocks\<close>, their hashes, their wire format, and the saved block
  (a block with its sideband) with its database format. A block of the code caches its hash; every
  constructor computes it from the hashed fields, so here \<open>block_hash_of\<close> computes it on demand.
\<close>

section \<open>Block types\<close>

datatype block_type =
    BT_Invalid | BT_NotABlock | BT_LegacySend | BT_LegacyReceive | BT_LegacyOpen | BT_LegacyChange
  | BT_State

fun block_type_as_u8 :: "block_type \<Rightarrow> u8" where
  "block_type_as_u8 BT_Invalid = 0"
| "block_type_as_u8 BT_NotABlock = 1"
| "block_type_as_u8 BT_LegacySend = 2"
| "block_type_as_u8 BT_LegacyReceive = 3"
| "block_type_as_u8 BT_LegacyOpen = 4"
| "block_type_as_u8 BT_LegacyChange = 5"
| "block_type_as_u8 BT_State = 6"

definition block_type_from_u8 :: "u8 \<Rightarrow> block_type option" where
  "block_type_from_u8 v =
    (if v = 0 then Some BT_Invalid
     else if v = 1 then Some BT_NotABlock
     else if v = 2 then Some BT_LegacySend
     else if v = 3 then Some BT_LegacyReceive
     else if v = 4 then Some BT_LegacyOpen
     else if v = 5 then Some BT_LegacyChange
     else if v = 6 then Some BT_State
     else None)"

lemma block_type_u8_roundtrip [codec_simps, simp]:
  "block_type_from_u8 (block_type_as_u8 t) = Some t"
  by (cases t) (simp_all add: block_type_from_u8_def)

datatype block_sub_type = SubSend | SubReceive | SubOpen | SubChange | SubEpoch

fun block_sub_type_from :: "block_type \<Rightarrow> block_sub_type option" where
  "block_sub_type_from BT_LegacySend = Some SubSend"
| "block_sub_type_from BT_LegacyReceive = Some SubReceive"
| "block_sub_type_from BT_LegacyOpen = Some SubOpen"
| "block_sub_type_from BT_LegacyChange = Some SubChange"
| "block_sub_type_from BT_State = Some SubSend"
| "block_sub_type_from BT_Invalid = None"
| "block_sub_type_from BT_NotABlock = None"

record send_block =
  snd_previous :: block_hash
  snd_destination :: account
  snd_balance :: amount
  snd_signature :: signature
  snd_work :: work_nonce

record receive_block =
  rcv_previous :: block_hash
  rcv_source :: block_hash
  rcv_signature :: signature
  rcv_work :: work_nonce

record open_block =
  opn_source :: block_hash
  opn_representative :: public_key
  opn_account :: account
  opn_signature :: signature
  opn_work :: work_nonce

record change_block =
  chg_previous :: block_hash
  chg_representative :: public_key
  chg_signature :: signature
  chg_work :: work_nonce

record state_block =
  st_account :: account
  st_previous :: block_hash
  st_representative :: public_key
  st_balance :: amount
  st_link :: link
  st_signature :: signature
  st_work :: work_nonce

datatype block =
    LegacySend send_block
  | LegacyReceive receive_block
  | LegacyOpen open_block
  | LegacyChange change_block
  | State state_block

section \<open>Hashes\<close>

text \<open>The hashables of each block type; a state block is prefixed by a 32-byte preamble.\<close>

definition send_hashables :: "send_block \<Rightarrow> bytes" where
  "send_hashables b =
    be_bytes 32 (snd_previous b) @ be_bytes 32 (snd_destination b) @ be_bytes 16 (snd_balance b)"

definition receive_hashables :: "receive_block \<Rightarrow> bytes" where
  "receive_hashables b = be_bytes 32 (rcv_previous b) @ be_bytes 32 (rcv_source b)"

definition open_hashables :: "open_block \<Rightarrow> bytes" where
  "open_hashables b =
    be_bytes 32 (opn_source b) @ be_bytes 32 (opn_representative b) @ be_bytes 32 (opn_account b)"

definition change_hashables :: "change_block \<Rightarrow> bytes" where
  "change_hashables b = be_bytes 32 (chg_previous b) @ be_bytes 32 (chg_representative b)"

definition state_hashables :: "state_block \<Rightarrow> bytes" where
  "state_hashables b =
    replicate 31 0 @ [block_type_as_u8 BT_State] @
    be_bytes 32 (st_account b) @ be_bytes 32 (st_previous b) @ be_bytes 32 (st_representative b) @
    be_bytes 16 (st_balance b) @ be_bytes 32 (st_link b)"

fun block_hash_of :: "crypto \<Rightarrow> block \<Rightarrow> block_hash" where
  "block_hash_of cr (LegacySend b) = build_hash cr (send_hashables b)"
| "block_hash_of cr (LegacyReceive b) = build_hash cr (receive_hashables b)"
| "block_hash_of cr (LegacyOpen b) = build_hash cr (open_hashables b)"
| "block_hash_of cr (LegacyChange b) = build_hash cr (change_hashables b)"
| "block_hash_of cr (State b) = build_hash cr (state_hashables b)"

section \<open>Fields of a block\<close>

fun block_type_of :: "block \<Rightarrow> block_type" where
  "block_type_of (LegacySend b) = BT_LegacySend"
| "block_type_of (LegacyReceive b) = BT_LegacyReceive"
| "block_type_of (LegacyOpen b) = BT_LegacyOpen"
| "block_type_of (LegacyChange b) = BT_LegacyChange"
| "block_type_of (State b) = BT_State"

fun account_field :: "block \<Rightarrow> account option" where
  "account_field (LegacyOpen b) = Some (opn_account b)"
| "account_field (State b) = Some (st_account b)"
| "account_field _ = None"

fun link_field :: "block \<Rightarrow> link option" where
  "link_field (State b) = Some (st_link b)"
| "link_field _ = None"

fun block_signature :: "block \<Rightarrow> signature" where
  "block_signature (LegacySend b) = snd_signature b"
| "block_signature (LegacyReceive b) = rcv_signature b"
| "block_signature (LegacyOpen b) = opn_signature b"
| "block_signature (LegacyChange b) = chg_signature b"
| "block_signature (State b) = st_signature b"

fun block_work :: "block \<Rightarrow> work_nonce" where
  "block_work (LegacySend b) = snd_work b"
| "block_work (LegacyReceive b) = rcv_work b"
| "block_work (LegacyOpen b) = opn_work b"
| "block_work (LegacyChange b) = chg_work b"
| "block_work (State b) = st_work b"

fun set_work :: "block \<Rightarrow> work_nonce \<Rightarrow> block" where
  "set_work (LegacySend b) w = LegacySend (b\<lparr>snd_work := w\<rparr>)"
| "set_work (LegacyReceive b) w = LegacyReceive (b\<lparr>rcv_work := w\<rparr>)"
| "set_work (LegacyOpen b) w = LegacyOpen (b\<lparr>opn_work := w\<rparr>)"
| "set_work (LegacyChange b) w = LegacyChange (b\<lparr>chg_work := w\<rparr>)"
| "set_work (State b) w = State (b\<lparr>st_work := w\<rparr>)"

fun block_previous :: "block \<Rightarrow> block_hash" where
  "block_previous (LegacySend b) = snd_previous b"
| "block_previous (LegacyReceive b) = rcv_previous b"
| "block_previous (LegacyOpen b) = 0"
| "block_previous (LegacyChange b) = chg_previous b"
| "block_previous (State b) = st_previous b"

fun block_root :: "block \<Rightarrow> root" where
  "block_root (LegacySend b) = snd_previous b"
| "block_root (LegacyReceive b) = rcv_previous b"
| "block_root (LegacyOpen b) = opn_account b"
| "block_root (LegacyChange b) = chg_previous b"
| "block_root (State b) = (if st_previous b \<noteq> 0 then st_previous b else st_account b)"

fun balance_field :: "block \<Rightarrow> amount option" where
  "balance_field (LegacySend b) = Some (snd_balance b)"
| "balance_field (State b) = Some (st_balance b)"
| "balance_field _ = None"

fun source_field :: "block \<Rightarrow> block_hash option" where
  "source_field (LegacyReceive b) = Some (rcv_source b)"
| "source_field (LegacyOpen b) = Some (opn_source b)"
| "source_field _ = None"

fun representative_field :: "block \<Rightarrow> public_key option" where
  "representative_field (LegacyOpen b) = Some (opn_representative b)"
| "representative_field (LegacyChange b) = Some (chg_representative b)"
| "representative_field (State b) = Some (st_representative b)"
| "representative_field _ = None"

fun destination_field :: "block \<Rightarrow> account option" where
  "destination_field (LegacySend b) = Some (snd_destination b)"
| "destination_field _ = None"

definition block_qualified_root :: "block \<Rightarrow> qualified_root" where
  "block_qualified_root b = QualifiedRoot (block_root b) (block_previous b)"

fun valid_legacy_predecessor :: "block_type \<Rightarrow> bool" where
  "valid_legacy_predecessor BT_LegacySend = True"
| "valid_legacy_predecessor BT_LegacyReceive = True"
| "valid_legacy_predecessor BT_LegacyOpen = True"
| "valid_legacy_predecessor BT_LegacyChange = True"
| "valid_legacy_predecessor _ = False"

fun valid_predecessor :: "block \<Rightarrow> block_type \<Rightarrow> bool" where
  "valid_predecessor (LegacySend b) t = valid_legacy_predecessor t"
| "valid_predecessor (LegacyReceive b) t = valid_legacy_predecessor t"
| "valid_predecessor (LegacyOpen b) t = False"
| "valid_predecessor (LegacyChange b) t = valid_legacy_predecessor t"
| "valid_predecessor (State b) t = True"

fun is_open :: "block \<Rightarrow> bool" where
  "is_open (LegacyOpen b) = True"
| "is_open (State b) = (st_previous b = 0)"
| "is_open _ = False"

fun is_legacy :: "block \<Rightarrow> bool" where
  "is_legacy (State b) = False"
| "is_legacy _ = True"

fun is_change :: "block \<Rightarrow> bool" where
  "is_change (LegacyChange b) = True"
| "is_change (State b) = (st_link b = 0)"
| "is_change _ = False"

definition unwrap_or_zero :: "'a::zero option \<Rightarrow> 'a" where
  "unwrap_or_zero v = (case v of None \<Rightarrow> 0 | Some x \<Rightarrow> x)"

lemma unwrap_or_zero_simps [simp]: "unwrap_or_zero None = 0" "unwrap_or_zero (Some x) = x"
  by (simp_all add: unwrap_or_zero_def)

definition source_or_link :: "block \<Rightarrow> block_hash" where
  "source_or_link b = (case source_field b of Some s \<Rightarrow> s | None \<Rightarrow> unwrap_or_zero (link_field b))"

definition destination_or_link :: "block \<Rightarrow> account" where
  "destination_or_link b =
    (case destination_field b of Some d \<Rightarrow> d | None \<Rightarrow> unwrap_or_zero (link_field b))"

lemma is_open_previous: "is_open b \<Longrightarrow> block_previous b = 0"
  by (cases b) auto

section \<open>Wire format\<close>

fun serialize_without_block_type :: "block \<Rightarrow> bytes" where
  "serialize_without_block_type (LegacySend b) =
    be_bytes 32 (snd_previous b) @ be_bytes 32 (snd_destination b) @ be_bytes 16 (snd_balance b) @
    be_bytes 64 (snd_signature b) @ le_bytes 8 (snd_work b)"
| "serialize_without_block_type (LegacyReceive b) =
    be_bytes 32 (rcv_previous b) @ be_bytes 32 (rcv_source b) @
    be_bytes 64 (rcv_signature b) @ le_bytes 8 (rcv_work b)"
| "serialize_without_block_type (LegacyOpen b) =
    be_bytes 32 (opn_source b) @ be_bytes 32 (opn_representative b) @ be_bytes 32 (opn_account b) @
    be_bytes 64 (opn_signature b) @ le_bytes 8 (opn_work b)"
| "serialize_without_block_type (LegacyChange b) =
    be_bytes 32 (chg_previous b) @ be_bytes 32 (chg_representative b) @
    be_bytes 64 (chg_signature b) @ le_bytes 8 (chg_work b)"
| "serialize_without_block_type (State b) =
    be_bytes 32 (st_account b) @ be_bytes 32 (st_previous b) @ be_bytes 32 (st_representative b) @
    be_bytes 16 (st_balance b) @ be_bytes 32 (st_link b) @
    be_bytes 64 (st_signature b) @ be_bytes 8 (st_work b)"

fun serialized_block_size :: "block_type \<Rightarrow> nat" where
  "serialized_block_size BT_Invalid = 0"
| "serialized_block_size BT_NotABlock = 0"
| "serialized_block_size BT_LegacySend = (32 + 32 + 16) + 64 + 8"
| "serialized_block_size BT_LegacyReceive = (32 + 32) + 64 + 8"
| "serialized_block_size BT_LegacyOpen = (32 + 32 + 32) + 64 + 8"
| "serialized_block_size BT_LegacyChange = (32 + 32) + 64 + 8"
| "serialized_block_size BT_State = 32 + 32 + 32 + 16 + 32 + 64 + 8"

definition deserialize_send_block :: "send_block reader" where
  "deserialize_send_block bs = do {
    (prv, bs) \<leftarrow> read_be 32 bs;
    (dst, bs) \<leftarrow> read_be 32 bs;
    (bal, bs) \<leftarrow> read_be 16 bs;
    (sig, bs) \<leftarrow> read_be 64 bs;
    (wrk, bs) \<leftarrow> read_le 8 bs;
    Some (\<lparr> snd_previous = prv, snd_destination = dst, snd_balance = bal,
      snd_signature = sig, snd_work = wrk \<rparr>, bs) }"

definition deserialize_receive_block :: "receive_block reader" where
  "deserialize_receive_block bs = do {
    (prv, bs) \<leftarrow> read_be 32 bs;
    (src, bs) \<leftarrow> read_be 32 bs;
    (sig, bs) \<leftarrow> read_be 64 bs;
    (wrk, bs) \<leftarrow> read_le 8 bs;
    Some (\<lparr> rcv_previous = prv, rcv_source = src, rcv_signature = sig, rcv_work = wrk \<rparr>, bs) }"

definition deserialize_open_block :: "open_block reader" where
  "deserialize_open_block bs = do {
    (src, bs) \<leftarrow> read_be 32 bs;
    (rep, bs) \<leftarrow> read_be 32 bs;
    (acc, bs) \<leftarrow> read_be 32 bs;
    (sig, bs) \<leftarrow> read_be 64 bs;
    (wrk, bs) \<leftarrow> read_le 8 bs;
    Some (\<lparr> opn_source = src, opn_representative = rep, opn_account = acc,
      opn_signature = sig, opn_work = wrk \<rparr>, bs) }"

definition deserialize_change_block :: "change_block reader" where
  "deserialize_change_block bs = do {
    (prv, bs) \<leftarrow> read_be 32 bs;
    (rep, bs) \<leftarrow> read_be 32 bs;
    (sig, bs) \<leftarrow> read_be 64 bs;
    (wrk, bs) \<leftarrow> read_le 8 bs;
    Some (\<lparr> chg_previous = prv, chg_representative = rep, chg_signature = sig, chg_work = wrk \<rparr>, bs) }"

definition deserialize_state_block :: "state_block reader" where
  "deserialize_state_block bs = do {
    (acc, bs) \<leftarrow> read_be 32 bs;
    (prv, bs) \<leftarrow> read_be 32 bs;
    (rep, bs) \<leftarrow> read_be 32 bs;
    (bal, bs) \<leftarrow> read_be 16 bs;
    (lnk, bs) \<leftarrow> read_be 32 bs;
    (sig, bs) \<leftarrow> read_be 64 bs;
    (wrk, bs) \<leftarrow> read_be 8 bs;
    Some (\<lparr> st_account = acc, st_previous = prv, st_representative = rep, st_balance = bal,
      st_link = lnk, st_signature = sig, st_work = wrk \<rparr>, bs) }"

fun deserialize_block_type :: "block_type \<Rightarrow> block reader" where
  "deserialize_block_type BT_LegacyReceive bs =
    do { (b, bs) \<leftarrow> deserialize_receive_block bs; Some (LegacyReceive b, bs) }"
| "deserialize_block_type BT_LegacyOpen bs =
    do { (b, bs) \<leftarrow> deserialize_open_block bs; Some (LegacyOpen b, bs) }"
| "deserialize_block_type BT_LegacyChange bs =
    do { (b, bs) \<leftarrow> deserialize_change_block bs; Some (LegacyChange b, bs) }"
| "deserialize_block_type BT_State bs =
    do { (b, bs) \<leftarrow> deserialize_state_block bs; Some (State b, bs) }"
| "deserialize_block_type BT_LegacySend bs =
    do { (b, bs) \<leftarrow> deserialize_send_block bs; Some (LegacySend b, bs) }"
| "deserialize_block_type BT_Invalid bs = None"
| "deserialize_block_type BT_NotABlock bs = None"

definition serialize_block :: "block \<Rightarrow> bytes" where
  "serialize_block b = block_type_as_u8 (block_type_of b) # serialize_without_block_type b"

definition deserialize_block :: "block reader" where
  "deserialize_block bs = do {
    (v, bs) \<leftarrow> read_u8 bs;
    t \<leftarrow> block_type_from_u8 v;
    deserialize_block_type t bs }"

lemmas deserialize_block_defs =
  deserialize_send_block_def deserialize_receive_block_def deserialize_open_block_def
  deserialize_change_block_def deserialize_state_block_def

lemma deserialize_without_block_type [codec_simps]:
  "deserialize_block_type (block_type_of b) (serialize_without_block_type b @ rest) = Some (b, rest)"
  by (cases b) (simp_all add: deserialize_block_defs codec_simps)

lemma length_serialize_without_block_type [simp]:
  "length (serialize_without_block_type b) = serialized_block_size (block_type_of b)"
  by (cases b) simp_all

text \<open>A successful read consumes exactly the size the block type announces.\<close>

lemma deserialize_block_type_length [reader_length]:
  "deserialize_block_type t bs = Some (b, rest) \<Longrightarrow> length bs = serialized_block_size t + length rest"
  by (cases t)
    (auto simp: deserialize_block_defs bind_eq_Some_conv dest!: reader_length)

lemma deserialize_block_type_type:
  "deserialize_block_type t bs = Some (b, rest) \<Longrightarrow> block_type_of b = t"
  by (cases t) (auto simp: bind_eq_Some_conv)

interpretation block_codec: codec serialize_block deserialize_block
  by unfold_locales (simp add: serialize_block_def deserialize_block_def codec_simps)

section \<open>Block details and sideband\<close>

record block_details =
  bd_epoch :: epoch
  bd_is_send :: bool
  bd_is_receive :: bool
  bd_is_epoch :: bool

definition new_details :: "epoch \<Rightarrow> bool \<Rightarrow> bool \<Rightarrow> bool \<Rightarrow> block_details" where
  "new_details e s r ep = \<lparr> bd_epoch = e, bd_is_send = s, bd_is_receive = r, bd_is_epoch = ep \<rparr>"

definition details_packed :: "block_details \<Rightarrow> u8" where
  "details_packed d =
    (let result = epoch_as_u8 (bd_epoch d);
         result = (if bd_is_send d then result OR 0x80 else result);
         result = (if bd_is_receive d then result OR 0x40 else result)
     in if bd_is_epoch d then result OR 0x20 else result)"

definition details_unpack :: "u8 \<Rightarrow> block_details option" where
  "details_unpack v = do {
    e \<leftarrow> epoch_from_u8 (v AND 0x1f);
    Some (new_details e (0x80 AND v \<noteq> 0) (0x40 AND v \<noteq> 0) (0x20 AND v \<noteq> 0)) }"

definition details_subtype :: "block_details \<Rightarrow> block_sub_type" where
  "details_subtype d =
    (if bd_is_send d then SubSend
     else if bd_is_receive d then SubReceive
     else if bd_is_epoch d then SubEpoch
     else SubChange)"

lemma details_pack_roundtrip [codec_simps]: "details_unpack (details_packed d) = Some d"
proof (cases d)
  case (fields e s r ep)
  then show ?thesis
    by (cases e; cases s; cases r; cases ep)
      (simp_all add: details_packed_def details_unpack_def new_details_def epoch_from_u8_def)
qed

record block_sideband =
  sb_height :: u64
  sb_timestamp :: timestamp
  sb_account :: account
  sb_balance :: amount
  sb_details :: block_details
  sb_source_epoch :: epoch

definition sideband_serialized_size :: "block_type \<Rightarrow> nat" where
  "sideband_serialized_size t =
    (if t \<noteq> BT_State \<and> t \<noteq> BT_LegacyOpen then 32 else 0) +
    (if t \<noteq> BT_LegacyOpen then 8 else 0) +
    (if t = BT_LegacyReceive \<or> t = BT_LegacyChange \<or> t = BT_LegacyOpen then 16 else 0) +
    8 +
    (if t = BT_State then 1 + 1 else 0)"

definition serialize_sideband :: "block_sideband \<Rightarrow> block_type \<Rightarrow> bytes" where
  "serialize_sideband s t =
    (if t \<noteq> BT_State \<and> t \<noteq> BT_LegacyOpen then be_bytes 32 (sb_account s) else []) @
    (if t \<noteq> BT_LegacyOpen then be_bytes 8 (sb_height s) else []) @
    (if t = BT_LegacyReceive \<or> t = BT_LegacyChange \<or> t = BT_LegacyOpen
     then be_bytes 16 (sb_balance s) else []) @
    be_bytes 8 (sb_timestamp s) @
    (if t = BT_State then [details_packed (sb_details s), epoch_as_u8 (sb_source_epoch s)] else [])"

definition read_details :: "block_details reader" where
  "read_details bs = do { (v, bs) \<leftarrow> read_u8 bs; d \<leftarrow> details_unpack v; Some (d, bs) }"

definition sideband_from_stream :: "block_type \<Rightarrow> block_sideband reader" where
  "sideband_from_stream t bs = do {
    (acc, bs) \<leftarrow> (if t \<noteq> BT_State \<and> t \<noteq> BT_LegacyOpen then read_be 32 bs else Some (0, bs));
    (hgt, bs) \<leftarrow> (if t \<noteq> BT_LegacyOpen then read_be 8 bs else Some (1, bs));
    (bal, bs) \<leftarrow> (if t = BT_LegacyReceive \<or> t = BT_LegacyChange \<or> t = BT_LegacyOpen
      then read_be 16 bs else Some (0, bs));
    (tim, bs) \<leftarrow> read_be 8 bs;
    (det, bs) \<leftarrow> (if t = BT_State then read_details bs
      else Some (new_details Epoch0 False False False, bs));
    (sep, bs) \<leftarrow> (if t = BT_State then read_epoch bs else Some (Epoch0, bs));
    Some (\<lparr> sb_height = hgt, sb_timestamp = tim, sb_account = acc, sb_balance = bal,
      sb_details = det, sb_source_epoch = sep \<rparr>, bs) }"

lemma length_serialize_sideband [simp]:
  "length (serialize_sideband s t) = sideband_serialized_size t"
  by (simp add: serialize_sideband_def sideband_serialized_size_def)

section \<open>Saved blocks\<close>

record saved_block =
  sv_block :: block
  sv_sideband :: block_sideband

abbreviation sv_hash :: "crypto \<Rightarrow> saved_block \<Rightarrow> block_hash" where
  "sv_hash cr b \<equiv> block_hash_of cr (sv_block b)"

abbreviation sv_previous :: "saved_block \<Rightarrow> block_hash" where
  "sv_previous b \<equiv> block_previous (sv_block b)"

definition new_saved_block :: "block \<Rightarrow> block_sideband \<Rightarrow> saved_block" where
  "new_saved_block b s = \<lparr> sv_block = b, sv_sideband = s \<rparr>"

definition sv_account :: "saved_block \<Rightarrow> account" where
  "sv_account b = (case account_field (sv_block b) of Some a \<Rightarrow> a | None \<Rightarrow> sb_account (sv_sideband b))"

definition sv_height :: "saved_block \<Rightarrow> u64" where
  "sv_height b = sb_height (sv_sideband b)"

definition sv_timestamp :: "saved_block \<Rightarrow> timestamp" where
  "sv_timestamp b = sb_timestamp (sv_sideband b)"

definition sv_subtype :: "saved_block \<Rightarrow> block_sub_type" where
  "sv_subtype b = details_subtype (sb_details (sv_sideband b))"

definition sv_epoch :: "saved_block \<Rightarrow> epoch" where
  "sv_epoch b = bd_epoch (sb_details (sv_sideband b))"

definition sv_is_receive :: "saved_block \<Rightarrow> bool" where
  "sv_is_receive b = bd_is_receive (sb_details (sv_sideband b))"

definition sv_is_send :: "saved_block \<Rightarrow> bool" where
  "sv_is_send b =
    (case sv_block b of
      LegacySend _ \<Rightarrow> True
    | State _ \<Rightarrow> bd_is_send (sb_details (sv_sideband b))
    | _ \<Rightarrow> False)"

definition sv_source :: "saved_block \<Rightarrow> block_hash option" where
  "sv_source b =
    (case sv_block b of
      LegacyOpen i \<Rightarrow> Some (opn_source i)
    | LegacyReceive i \<Rightarrow> Some (rcv_source i)
    | State i \<Rightarrow> if bd_is_receive (sb_details (sv_sideband b)) then Some (st_link i) else None
    | _ \<Rightarrow> None)"

definition sv_source_epoch :: "saved_block \<Rightarrow> epoch" where
  "sv_source_epoch b = sb_source_epoch (sv_sideband b)"

definition sv_destination :: "saved_block \<Rightarrow> account option" where
  "sv_destination b =
    (case sv_block b of
      LegacySend i \<Rightarrow> Some (snd_destination i)
    | State i \<Rightarrow> if bd_is_send (sb_details (sv_sideband b)) then Some (st_link i) else None
    | _ \<Rightarrow> None)"

definition sv_balance :: "saved_block \<Rightarrow> amount" where
  "sv_balance b =
    (case sv_block b of
      LegacySend i \<Rightarrow> snd_balance i
    | State i \<Rightarrow> st_balance i
    | _ \<Rightarrow> sb_balance (sv_sideband b))"

definition serialize_with_sideband :: "saved_block \<Rightarrow> bytes" where
  "serialize_with_sideband b =
    serialize_block (sv_block b) @ serialize_sideband (sv_sideband b) (block_type_of (sv_block b))"

text \<open>\<open>SavedBlock::deserialize\<close> fills in what the sideband format leaves out.\<close>

fun fill_sideband :: "block \<Rightarrow> block_sideband \<Rightarrow> block_sideband" where
  "fill_sideband (LegacySend i) s =
    s\<lparr> sb_balance := snd_balance i, sb_details := new_details Epoch0 True False False \<rparr>"
| "fill_sideband (LegacyOpen i) s =
    s\<lparr> sb_account := opn_account i, sb_details := new_details Epoch0 False True False \<rparr>"
| "fill_sideband (LegacyReceive i) s = s\<lparr> sb_details := new_details Epoch0 False True False \<rparr>"
| "fill_sideband (LegacyChange i) s = s\<lparr> sb_details := new_details Epoch0 False False False \<rparr>"
| "fill_sideband (State i) s = s\<lparr> sb_account := st_account i, sb_balance := st_balance i \<rparr>"

definition deserialize_saved_block :: "saved_block reader" where
  "deserialize_saved_block bs = do {
    (b, bs) \<leftarrow> deserialize_block bs;
    (s, bs) \<leftarrow> sideband_from_stream (block_type_of b) bs;
    Some (\<lparr> sv_block = b, sv_sideband = fill_sideband b s \<rparr>, bs) }"

text \<open>
  Not every sideband survives the database: the format drops what it can recompute. A saved block
  is well formed when its sideband holds exactly the values that are filled in on reading.
\<close>

fun sideband_ok :: "block \<Rightarrow> block_sideband \<Rightarrow> bool" where
  "sideband_ok (LegacySend i) s \<longleftrightarrow>
    sb_balance s = snd_balance i \<and> sb_details s = new_details Epoch0 True False False \<and>
    sb_source_epoch s = Epoch0"
| "sideband_ok (LegacyOpen i) s \<longleftrightarrow>
    sb_account s = opn_account i \<and> sb_height s = 1 \<and>
    sb_details s = new_details Epoch0 False True False \<and> sb_source_epoch s = Epoch0"
| "sideband_ok (LegacyReceive i) s \<longleftrightarrow>
    sb_details s = new_details Epoch0 False True False \<and> sb_source_epoch s = Epoch0"
| "sideband_ok (LegacyChange i) s \<longleftrightarrow>
    sb_details s = new_details Epoch0 False False False \<and> sb_source_epoch s = Epoch0"
| "sideband_ok (State i) s \<longleftrightarrow> sb_account s = st_account i \<and> sb_balance s = st_balance i"

definition saved_ok :: "saved_block \<Rightarrow> bool" where
  "saved_ok b \<longleftrightarrow> sideband_ok (sv_block b) (sv_sideband b)"

lemma sideband_roundtrip:
  "sideband_ok b s \<Longrightarrow>
    map_option (map_prod (fill_sideband b) id)
      (sideband_from_stream (block_type_of b) (serialize_sideband s (block_type_of b) @ rest))
    = Some (s, rest)"
  by (cases b)
    (simp_all add: sideband_from_stream_def serialize_sideband_def read_details_def codec_simps
      new_details_def)

lemma saved_block_roundtrip [codec_simps]:
  assumes "saved_ok b"
  shows "deserialize_saved_block (serialize_with_sideband b @ rest) = Some (b, rest)"
proof -
  obtain s where "sideband_from_stream (block_type_of (sv_block b))
      (serialize_sideband (sv_sideband b) (block_type_of (sv_block b)) @ rest) = Some (s, rest)"
    and "fill_sideband (sv_block b) s = sv_sideband b"
    using sideband_roundtrip [of "sv_block b" "sv_sideband b" rest] assms
    by (auto simp: saved_ok_def)
  then show ?thesis
    by (simp add: deserialize_saved_block_def serialize_with_sideband_def block_codec.dec_enc)
qed

text \<open>Whatever the database returns is well formed.\<close>

lemma deserialize_saved_block_ok:
  "deserialize_saved_block bs = Some (b, rest) \<Longrightarrow> saved_ok b"
  by (auto simp: deserialize_saved_block_def bind_eq_Some_conv saved_ok_def)
    (case_tac a; auto simp: sideband_from_stream_def bind_eq_Some_conv)

section \<open>Dependencies and priority of a block\<close>

type_synonym dependent_blocks = "block_hash \<times> block_hash"

fun dependents_iter :: "dependent_blocks \<Rightarrow> block_hash list" where
  "dependents_iter (p, l) = filter (\<lambda>i. i \<noteq> 0) [p, l]"

text \<open>An open block keeps its source in the first slot.\<close>

definition dependent_blocks :: "saved_block \<Rightarrow> epochs \<Rightarrow> account \<Rightarrow> dependent_blocks" where
  "dependent_blocks b es genesis_account =
    (case sv_block b of
      LegacySend i \<Rightarrow> (snd_previous i, 0)
    | LegacyChange i \<Rightarrow> (chg_previous i, 0)
    | LegacyReceive i \<Rightarrow> (rcv_previous i, rcv_source i)
    | LegacyOpen i \<Rightarrow> if opn_account i = genesis_account then (0, 0) else (opn_source i, 0)
    | State i \<Rightarrow>
        (st_previous i,
         if \<not> sv_is_send b \<and> \<not> is_epoch_link es (st_link i) then st_link i else 0))"

text \<open>\<open>TimePriority\<close> reverses the order of the timestamps; \<open>BlockPriority\<close> is lexicographic.\<close>

datatype block_priority = BlockPriority (bp_balance: amount) (bp_time: timestamp)

instantiation block_priority :: linorder
begin

definition less_eq_block_priority :: "block_priority \<Rightarrow> block_priority \<Rightarrow> bool" where
  "less_eq_block_priority a b \<longleftrightarrow>
    bp_balance a < bp_balance b \<or> bp_balance a = bp_balance b \<and> bp_time b \<le> bp_time a"

definition less_block_priority :: "block_priority \<Rightarrow> block_priority \<Rightarrow> bool" where
  "less_block_priority a b \<longleftrightarrow>
    bp_balance a < bp_balance b \<or> bp_balance a = bp_balance b \<and> bp_time b < bp_time a"

instance
  by standard (auto simp: less_eq_block_priority_def less_block_priority_def block_priority.expand)

end

definition block_priority_of :: "saved_block \<Rightarrow> saved_block option \<Rightarrow> block_priority" where
  "block_priority_of b previous =
    (let previous_balance = (case previous of Some p \<Rightarrow> sv_balance p | None \<Rightarrow> 0)
     in BlockPriority (max (sv_balance b) (if sv_is_send b then previous_balance else 0))
          (case previous of Some p \<Rightarrow> sv_timestamp p | None \<Rightarrow> sv_timestamp b))"

end
