(* ===== verification/Ledger_Store.thy ===== *)
theory Ledger_Store
  imports Blocks
begin

text \<open>
  The database tables of the ledger (\<open>store_lmdb/src\<close>) and the read access to them
  (\<open>ledger/src/ledger_sets\<close>). A table is an ordered map from keys to encoded values. An operation
  that panics in the code, because an \<open>unwrap\<close> or \<open>expect\<close> of an LMDB result fails, returns \<open>None\<close>
  here: LMDB reports an error when a missing key is deleted, when \<open>NO_OVERWRITE\<close> meets an
  existing key, and when \<open>APPEND\<close> gets a key that is not greater than every key of the table.
\<close>

section \<open>State\<close>

record ledger =
  lg_index :: "(block_hash, bytes) rbt"
  lg_block_data :: "(u64, bytes) rbt"
  lg_next_id :: u64
  lg_account :: "(account, bytes) rbt"
  lg_pending :: "(pending_key, bytes) rbt"
  lg_pruned :: "(block_hash, bytes) rbt"
  lg_rep_weight :: "(public_key, bytes) rbt"
  lg_conf_height :: "(account, bytes) rbt"
  lg_successors :: "(block_hash, bytes) rbt"
  lg_final_vote :: "(qualified_root, bytes) rbt"
  lg_rep_cache :: "(public_key, amount) rbt"
  lg_confirmed_count :: u64
  lg_block_count :: u64
  lg_pruned_count :: u64
  lg_account_count :: u64

definition empty_ledger :: ledger where
  "empty_ledger =
    \<lparr> lg_index = RBT.empty, lg_block_data = RBT.empty, lg_next_id = 0, lg_account = RBT.empty,
      lg_pending = RBT.empty, lg_pruned = RBT.empty, lg_rep_weight = RBT.empty,
      lg_conf_height = RBT.empty, lg_successors = RBT.empty, lg_final_vote = RBT.empty,
      lg_rep_cache = RBT.empty, lg_confirmed_count = 0, lg_block_count = 0, lg_pruned_count = 0,
      lg_account_count = 0 \<rparr>"

text \<open>LMDB primitives that can fail.\<close>

definition del_existing :: "('k::linorder, bytes) rbt \<Rightarrow> 'k \<Rightarrow> ('k, bytes) rbt option" where
  "del_existing t k = (if store_exists t k then Some (store_del t k) else None)"

definition put_no_overwrite :: "('k::linorder, bytes) rbt \<Rightarrow> 'k \<Rightarrow> bytes \<Rightarrow> ('k, bytes) rbt option" where
  "put_no_overwrite t k v = (if store_exists t k then None else Some (RBT.insert k v t))"

definition put_append :: "('k::linorder, bytes) rbt \<Rightarrow> 'k \<Rightarrow> bytes \<Rightarrow> ('k, bytes) rbt option" where
  "put_append t k v = (if list_all (\<lambda>x. x < k) (RBT.keys t) then Some (RBT.insert k v t) else None)"

definition iter_range_from :: "('k::linorder, bytes) rbt \<Rightarrow> 'k \<Rightarrow> ('k \<times> bytes) list" where
  "iter_range_from t k = filter (\<lambda>(x, _). k \<le> x) (RBT.entries t)"

section \<open>The block store\<close>

text \<open>
  Two tables: hash to running id, id to block data. \<open>block_get\<close> is \<open>None\<close> when the hash is not in
  the index; the code panics when the index entry has no readable data, which \<open>block_store_inv\<close>
  below excludes.
\<close>

definition block_exists_store :: "ledger \<Rightarrow> block_hash \<Rightarrow> bool" where
  "block_exists_store L h = store_exists (lg_index L) h"

definition get_block_id :: "bytes \<Rightarrow> u64" where
  "get_block_id bs = of_be_bytes bs"

definition block_raw_get :: "ledger \<Rightarrow> block_hash \<Rightarrow> bytes option" where
  "block_raw_get L h = do {
    id_bytes \<leftarrow> RBT.lookup (lg_index L) h;
    RBT.lookup (lg_block_data L) (get_block_id id_bytes) }"

definition block_get :: "ledger \<Rightarrow> block_hash \<Rightarrow> saved_block option" where
  "block_get L h = do {
    bs \<leftarrow> block_raw_get L h;
    (b, _) \<leftarrow> deserialize_saved_block bs;
    Some b }"

definition raw_put :: "ledger \<Rightarrow> bytes \<Rightarrow> block_hash \<Rightarrow> ledger option" where
  "raw_put L bs h = do {
    let bid = lg_next_id L;
    idx \<leftarrow> put_no_overwrite (lg_index L) h (be_bytes 8 bid);
    dat \<leftarrow> put_append (lg_block_data L) bid bs;
    Some (L\<lparr> lg_index := idx, lg_block_data := dat, lg_next_id := bid + 1 \<rparr>) }"

definition block_put :: "crypto \<Rightarrow> ledger \<Rightarrow> saved_block \<Rightarrow> ledger option" where
  "block_put cr L b = raw_put L (serialize_with_sideband b) (sv_hash cr b)"

definition block_del :: "ledger \<Rightarrow> block_hash \<Rightarrow> ledger option" where
  "block_del L h =
    (case RBT.lookup (lg_index L) h of
      None \<Rightarrow> Some L
    | Some id_bytes \<Rightarrow> do {
        dat \<leftarrow> del_existing (lg_block_data L) (get_block_id id_bytes);
        idx \<leftarrow> del_existing (lg_index L) h;
        Some (L\<lparr> lg_index := idx, lg_block_data := dat \<rparr>) })"

text \<open>\<open>find_next_free_id\<close> at start-up.\<close>

definition find_next_free_id :: "(u64, bytes) rbt \<Rightarrow> u64" where
  "find_next_free_id t = (case rev (RBT.keys t) of [] \<Rightarrow> 0 | k # _ \<Rightarrow> k + 1)"

text \<open>
  The store's invariant: ids are injective, below \<open>next_id\<close>, and every index entry has block
  data that decodes.
\<close>

definition block_id :: "ledger \<Rightarrow> block_hash \<Rightarrow> u64 option" where
  "block_id L h = map_option get_block_id (RBT.lookup (lg_index L) h)"

definition block_store_inv :: "ledger \<Rightarrow> bool" where
  "block_store_inv L \<longleftrightarrow>
    (\<forall>h i. block_id L h = Some i \<longrightarrow> i < lg_next_id L \<and> block_get L h \<noteq> None) \<and>
    (\<forall>h h' i. block_id L h = Some i \<longrightarrow> block_id L h' = Some i \<longrightarrow> h = h') \<and>
    (\<forall>k. RBT.lookup (lg_block_data L) k \<noteq> None \<longrightarrow> k < lg_next_id L)"

section \<open>The other tables\<close>

definition account_get :: "ledger \<Rightarrow> account \<Rightarrow> account_info option" where
  "account_get L = store_get deserialize_account_info (lg_account L)"

definition account_put :: "ledger \<Rightarrow> account \<Rightarrow> account_info \<Rightarrow> ledger" where
  "account_put L a i = L\<lparr> lg_account := store_put serialize_account_info (lg_account L) a i \<rparr>"

definition account_del :: "ledger \<Rightarrow> account \<Rightarrow> ledger option" where
  "account_del L a = do { t \<leftarrow> del_existing (lg_account L) a; Some (L\<lparr> lg_account := t \<rparr>) }"

definition pending_get :: "ledger \<Rightarrow> pending_key \<Rightarrow> pending_info option" where
  "pending_get L = store_get deserialize_pending_info (lg_pending L)"

definition pending_put :: "ledger \<Rightarrow> pending_key \<Rightarrow> pending_info \<Rightarrow> ledger" where
  "pending_put L k i = L\<lparr> lg_pending := store_put pending_info_to_bytes (lg_pending L) k i \<rparr>"

definition pending_del :: "ledger \<Rightarrow> pending_key \<Rightarrow> ledger option" where
  "pending_del L k = do { t \<leftarrow> del_existing (lg_pending L) k; Some (L\<lparr> lg_pending := t \<rparr>) }"

definition successor_get :: "ledger \<Rightarrow> block_hash \<Rightarrow> block_hash option" where
  "successor_get L = store_get (read_be 32) (lg_successors L)"

definition successor_put :: "ledger \<Rightarrow> block_hash \<Rightarrow> block_hash \<Rightarrow> ledger" where
  "successor_put L h s = L\<lparr> lg_successors := store_put (be_bytes 32) (lg_successors L) h s \<rparr>"

definition successor_del :: "ledger \<Rightarrow> block_hash \<Rightarrow> ledger option" where
  "successor_del L h = do { t \<leftarrow> del_existing (lg_successors L) h; Some (L\<lparr> lg_successors := t \<rparr>) }"

definition rep_weight_get :: "ledger \<Rightarrow> public_key \<Rightarrow> amount option" where
  "rep_weight_get L = store_get (read_be 16) (lg_rep_weight L)"

definition rep_weight_put :: "ledger \<Rightarrow> public_key \<Rightarrow> amount \<Rightarrow> ledger" where
  "rep_weight_put L k w = L\<lparr> lg_rep_weight := store_put (be_bytes 16) (lg_rep_weight L) k w \<rparr>"

definition rep_weight_del :: "ledger \<Rightarrow> public_key \<Rightarrow> ledger option" where
  "rep_weight_del L k = do { t \<leftarrow> del_existing (lg_rep_weight L) k; Some (L\<lparr> lg_rep_weight := t \<rparr>) }"

definition conf_height_get :: "ledger \<Rightarrow> account \<Rightarrow> confirmation_height_info option" where
  "conf_height_get L = store_get deserialize_confirmation_height_info (lg_conf_height L)"

definition conf_height_put :: "ledger \<Rightarrow> account \<Rightarrow> confirmation_height_info \<Rightarrow> ledger" where
  "conf_height_put L a i =
    L\<lparr> lg_conf_height := store_put serialize_confirmation_height_info (lg_conf_height L) a i \<rparr>"

definition pruned_exists :: "ledger \<Rightarrow> block_hash \<Rightarrow> bool" where
  "pruned_exists L h = store_exists (lg_pruned L) h"

definition pruned_put :: "ledger \<Rightarrow> block_hash \<Rightarrow> ledger" where
  "pruned_put L h = L\<lparr> lg_pruned := RBT.insert h [] (lg_pruned L) \<rparr>"

text \<open>\<open>final_vote.put\<close> returns whether the vote is the recorded one.\<close>

definition final_vote_get :: "ledger \<Rightarrow> qualified_root \<Rightarrow> block_hash option" where
  "final_vote_get L = store_get (read_be 32) (lg_final_vote L)"

definition final_vote_put :: "ledger \<Rightarrow> qualified_root \<Rightarrow> block_hash \<Rightarrow> ledger \<times> bool" where
  "final_vote_put L r h =
    (case final_vote_get L r of
      None \<Rightarrow> (L\<lparr> lg_final_vote := store_put (be_bytes 32) (lg_final_vote L) r h \<rparr>, True)
    | Some h' \<Rightarrow> (L, h' = h))"

definition final_vote_del :: "ledger \<Rightarrow> qualified_root \<Rightarrow> ledger option" where
  "final_vote_del L r = do { t \<leftarrow> del_existing (lg_final_vote L) r; Some (L\<lparr> lg_final_vote := t \<rparr>) }"

section \<open>Reading the ledger: all blocks\<close>

definition any_block_exists :: "ledger \<Rightarrow> block_hash \<Rightarrow> bool" where
  "any_block_exists L h = (if h = 0 then False else block_exists_store L h)"

definition any_get_block :: "ledger \<Rightarrow> block_hash \<Rightarrow> saved_block option" where
  "any_get_block L h = (if h = 0 then None else block_get L h)"

definition any_block_exists_or_pruned :: "ledger \<Rightarrow> block_hash \<Rightarrow> bool" where
  "any_block_exists_or_pruned L h =
    (if h = 0 then False else if pruned_exists L h then True else any_block_exists L h)"

definition any_block_balance :: "ledger \<Rightarrow> block_hash \<Rightarrow> amount option" where
  "any_block_balance L h = (if h = 0 then None else map_option sv_balance (any_get_block L h))"

definition any_account_head :: "ledger \<Rightarrow> account \<Rightarrow> block_hash option" where
  "any_account_head L a = map_option ai_head (account_get L a)"

definition any_block_account :: "ledger \<Rightarrow> block_hash \<Rightarrow> account option" where
  "any_block_account L h = map_option sv_account (any_get_block L h)"

definition any_account_balance :: "ledger \<Rightarrow> account \<Rightarrow> amount" where
  "any_account_balance L a =
    (case any_account_head L a of
      None \<Rightarrow> 0
    | Some head \<Rightarrow> (case any_get_block L head of Some b \<Rightarrow> sv_balance b | None \<Rightarrow> 0))"

definition weight_exact :: "ledger \<Rightarrow> public_key \<Rightarrow> amount" where
  "weight_exact L rep = unwrap_or_zero (rep_weight_get L rep)"

definition any_previous_block :: "ledger \<Rightarrow> saved_block \<Rightarrow> saved_block option" where
  "any_previous_block L b = (if sv_previous b = 0 then None else any_get_block L (sv_previous b))"

definition block_successor_by_qualified_root :: "ledger \<Rightarrow> qualified_root \<Rightarrow> block_hash option" where
  "block_successor_by_qualified_root L r =
    (if qr_previous r \<noteq> 0 then successor_get L (qr_previous r)
     else map_option ai_open_block (account_get L (qr_root r)))"

definition any_linked_account :: "ledger \<Rightarrow> saved_block \<Rightarrow> account option" where
  "any_linked_account L b =
    (if sv_is_send b then Some (destination_or_link (sv_block b))
     else if sv_is_receive b then any_block_account L (source_or_link (sv_block b))
     else None)"

definition any_block_amount_for :: "ledger \<Rightarrow> saved_block \<Rightarrow> amount option" where
  "any_block_amount_for L b =
    (let block_balance = sv_balance b
     in if sv_previous b = 0 then Some block_balance
        else do {
          previous_balance \<leftarrow> any_block_balance L (sv_previous b);
          Some (if previous_balance < block_balance then block_balance - previous_balance
                else previous_balance - block_balance) })"

text \<open>
  \<open>AnyReceivableIterator\<close>: entries from a start key on, up to the first one of another account than
  the requested account, or than the account of the first entry when none is requested.
\<close>

definition hash_inc :: "block_hash \<Rightarrow> block_hash option" where
  "hash_inc h = (if h = - 1 then None else Some (h + 1))"

definition pending_iter_from :: "ledger \<Rightarrow> pending_key \<Rightarrow> (pending_key \<times> pending_info) list" where
  "pending_iter_from L k =
    List.map_filter (\<lambda>(k, v). map_option (\<lambda>(i, _). (k, i)) (deserialize_pending_info v))
      (iter_range_from (lg_pending L) k)"

definition receivable_iter ::
  "ledger \<Rightarrow> account \<Rightarrow> account option \<Rightarrow> block_hash option \<Rightarrow> (pending_key \<times> pending_info) list" where
  "receivable_iter L requested returned next_hash =
    (case next_hash of
      None \<Rightarrow> []
    | Some h \<Rightarrow>
        (let entries = pending_iter_from L (PendingKey requested h) in
         case returned of
           Some a \<Rightarrow> takeWhile (\<lambda>(k, _). receiving_account k = a) entries
         | None \<Rightarrow>
             (case entries of
               [] \<Rightarrow> []
             | (k, i) # _ \<Rightarrow> takeWhile (\<lambda>(k', _). receiving_account k' = receiving_account k) entries)))"

definition account_receivable_upper_bound ::
  "ledger \<Rightarrow> account \<Rightarrow> block_hash \<Rightarrow> (pending_key \<times> pending_info) list" where
  "account_receivable_upper_bound L a h = receivable_iter L a (Some a) (hash_inc h)"

definition receivable_upper_bound :: "ledger \<Rightarrow> account \<Rightarrow> (pending_key \<times> pending_info) list" where
  "receivable_upper_bound L a =
    (case hash_inc a of None \<Rightarrow> receivable_iter L 0 None None
     | Some a' \<Rightarrow> receivable_iter L a' None (Some 0))"

definition receivable_lower_bound :: "ledger \<Rightarrow> account \<Rightarrow> (pending_key \<times> pending_info) list" where
  "receivable_lower_bound L a = receivable_iter L a None (Some 0)"

definition receivable_exists :: "ledger \<Rightarrow> account \<Rightarrow> bool" where
  "receivable_exists L a \<longleftrightarrow> account_receivable_upper_bound L a 0 \<noteq> []"

definition any_account_receivable :: "ledger \<Rightarrow> account \<Rightarrow> amount" where
  "any_account_receivable L a =
    foldl (\<lambda>result (_, info). result + pi_amount info) 0 (account_receivable_upper_bound L a 0)"

section \<open>Reading the ledger: confirmed blocks\<close>

definition confirmed_get_block :: "ledger \<Rightarrow> block_hash \<Rightarrow> saved_block option" where
  "confirmed_get_block L h =
    (if h = 0 then None else do {
      b \<leftarrow> block_get L h;
      info \<leftarrow> conf_height_get L (sv_account b);
      (if sv_height b \<le> ch_height info then Some b else None) })"

definition confirmed_block_exists :: "ledger \<Rightarrow> block_hash \<Rightarrow> bool" where
  "confirmed_block_exists L h \<longleftrightarrow> confirmed_get_block L h \<noteq> None"

definition confirmed_block_exists_or_pruned :: "ledger \<Rightarrow> block_hash \<Rightarrow> bool" where
  "confirmed_block_exists_or_pruned L h =
    (if h = 0 then False else if pruned_exists L h then True else confirmed_block_exists L h)"

definition confirmed_account_balance :: "ledger \<Rightarrow> account \<Rightarrow> amount" where
  "confirmed_account_balance L a =
    (case conf_height_get L a of
      None \<Rightarrow> 0
    | Some info \<Rightarrow>
        (case confirmed_get_block L (ch_frontier info) of Some b \<Rightarrow> sv_balance b | None \<Rightarrow> 0))"

definition confirmed_account_receivable :: "ledger \<Rightarrow> account \<Rightarrow> amount" where
  "confirmed_account_receivable L a =
    foldl (\<lambda>result (key, info).
        if confirmed_block_exists_or_pruned L (send_block_hash key) then result + pi_amount info
        else result)
      0 (account_receivable_upper_bound L a 0)"

text \<open>\<open>dependents_confirmed\<close>: every dependency is cemented or pruned.\<close>

definition dependents_confirmed :: "ledger \<Rightarrow> epochs \<Rightarrow> account \<Rightarrow> saved_block \<Rightarrow> bool" where
  "dependents_confirmed L es genesis_account b \<longleftrightarrow>
    list_all (confirmed_block_exists_or_pruned L) (dependents_iter (dependent_blocks b es genesis_account))"

section \<open>The representative of a block\<close>

text \<open>
  \<open>find_rep_block\<close> walks back until a block that names a representative. The loop may run forever
  on a corrupt chain, so not returning is the value \<open>None\<close>.
\<close>

partial_function (option) find_rep_block :: "crypto \<Rightarrow> ledger \<Rightarrow> block_hash \<Rightarrow> block_hash option" where
  "find_rep_block cr L current =
    (case block_get L current of
      None \<Rightarrow> Some 0
    | Some b \<Rightarrow>
        (let (next, result) =
          (case sv_block b of
            LegacySend _ \<Rightarrow> (sv_previous b, 0)
          | LegacyReceive _ \<Rightarrow> (sv_previous b, 0)
          | LegacyOpen _ \<Rightarrow> (0, sv_hash cr b)
          | LegacyChange _ \<Rightarrow> (0, sv_hash cr b)
          | State _ \<Rightarrow> (0, sv_hash cr b))
         in if result = 0 then find_rep_block cr L next else Some result))"

section \<open>The table interface\<close>

text \<open>
  What every table promises to the code above it: a put of a fresh key succeeds and adds exactly
  that entry, a delete of an existing key succeeds and removes exactly that entry, and both keep
  the table's invariant. The block store, a pair of tables with a running id, satisfies the same
  contract as the plain tables.
\<close>

locale map_store =
  fixes inv :: "'s \<Rightarrow> bool"
    and room :: "'s \<Rightarrow> bool"
    and ok :: "'v \<Rightarrow> bool"
    and get :: "'s \<Rightarrow> 'k \<Rightarrow> 'v option"
    and put :: "'s \<Rightarrow> 'k \<Rightarrow> 'v \<Rightarrow> 's option"
    and del :: "'s \<Rightarrow> 'k \<Rightarrow> 's option"
  assumes put_fresh:
      "inv s \<Longrightarrow> room s \<Longrightarrow> ok v \<Longrightarrow> get s k = None \<Longrightarrow>
        \<exists>s'. put s k v = Some s' \<and> inv s' \<and> get s' = (get s)(k \<mapsto> v)"
    and del_present:
      "inv s \<Longrightarrow> get s k \<noteq> None \<Longrightarrow>
        \<exists>s'. del s k = Some s' \<and> inv s' \<and> get s' = (get s)(k := None)"
begin

lemma put_inv: "inv s \<Longrightarrow> room s \<Longrightarrow> ok v \<Longrightarrow> get s k = None \<Longrightarrow> put s k v = Some s' \<Longrightarrow> inv s'"
  by (drule (3) put_fresh [where k = k]) auto

lemma get_put: "inv s \<Longrightarrow> room s \<Longrightarrow> ok v \<Longrightarrow> get s k = None \<Longrightarrow> put s k v = Some s' \<Longrightarrow>
    get s' = (get s)(k \<mapsto> v)"
  by (drule (3) put_fresh [where k = k]) auto

lemma get_del: "inv s \<Longrightarrow> get s k \<noteq> None \<Longrightarrow> del s k = Some s' \<Longrightarrow> inv s' \<and> get s' = (get s)(k := None)"
  by (drule (1) del_present [where k = k]) auto

text \<open>Deleting what was just added restores the table.\<close>

lemma put_del:
  assumes "inv s" "room s" "ok v" "get s k = None" "put s k v = Some s'"
  shows "\<exists>s''. del s' k = Some s'' \<and> inv s'' \<and> get s'' = get s"
proof -
  have "inv s'" "get s' = (get s)(k \<mapsto> v)"
    using assms put_inv get_put by blast+
  then have "\<exists>s''. del s' k = Some s'' \<and> inv s'' \<and> get s'' = (get s')(k := None)"
    by (intro del_present) auto
  with assms \<open>get s' = _\<close> show ?thesis by (auto simp: fun_upd_idem)
qed

end

lemma store_get_exists: "store_get dec t k \<noteq> None \<Longrightarrow> store_exists t k"
  by (auto simp: store_get_def store_exists_def split: bind_splits)

lemma del_existing_get:
  "store_get dec t k = Some v \<Longrightarrow> del_existing t k = Some (store_del t k)"
  using store_get_exists [of dec t k] by (simp add: del_existing_def)

lemmas table_defs =
  account_get_def account_put_def account_del_def pending_get_def pending_put_def pending_del_def
  successor_get_def successor_put_def successor_del_def rep_weight_get_def rep_weight_put_def
  rep_weight_del_def conf_height_get_def conf_height_put_def final_vote_get_def

interpretation account_table: map_store
  "\<lambda>_. True" "\<lambda>_. True" "\<lambda>_. True" account_get "\<lambda>L a i. Some (account_put L a i)" account_del
  by unfold_locales
    (auto simp: table_defs account_info_codec.store_get_put del_existing_get store_get_del)

interpretation pending_table: map_store
  "\<lambda>_. True" "\<lambda>_. True" "\<lambda>_. True" pending_get "\<lambda>L a i. Some (pending_put L a i)" pending_del
  by unfold_locales
    (auto simp: table_defs pending_info_codec.store_get_put del_existing_get store_get_del)

interpretation successor_table: map_store
  "\<lambda>_. True" "\<lambda>_. True" "\<lambda>_. True" successor_get "\<lambda>L a i. Some (successor_put L a i)" successor_del
  by unfold_locales (auto simp: table_defs u256_be.store_get_put del_existing_get store_get_del)

interpretation rep_weight_table: map_store
  "\<lambda>_. True" "\<lambda>_. True" "\<lambda>_. True" rep_weight_get "\<lambda>L a i. Some (rep_weight_put L a i)" rep_weight_del
  by unfold_locales (auto simp: table_defs u128_be.store_get_put del_existing_get store_get_del)

lemma table_puts [store_simps]:
  "account_get (account_put L a i) = (account_get L)(a \<mapsto> i)"
  "pending_get (pending_put L k p) = (pending_get L)(k \<mapsto> p)"
  "successor_get (successor_put L h s) = (successor_get L)(h \<mapsto> s)"
  "rep_weight_get (rep_weight_put L r w) = (rep_weight_get L)(r \<mapsto> w)"
  "conf_height_get (conf_height_put L a c) = (conf_height_get L)(a \<mapsto> c)"
  by (simp_all add: table_defs account_info_codec.store_get_put pending_info_codec.store_get_put
      u256_be.store_get_put u128_be.store_get_put confirmation_height_codec.store_get_put)

lemma finite_tables [simp, intro]:
  "finite (dom (account_get L))" "finite (dom (pending_get L))"
  "finite (dom (rep_weight_get L))" "finite (dom (conf_height_get L))"
  by (simp_all add: table_defs)

section \<open>The block store refines a map\<close>

lemma get_block_id_be [simp]: "get_block_id (be_bytes 8 i) = i"
  by (simp add: get_block_id_def codec_simps)

lemma block_get_id: "block_get L h = Some b \<Longrightarrow> \<exists>i. block_id L h = Some i"
  by (auto simp: block_get_def block_raw_get_def block_id_def bind_eq_Some_conv)

lemma block_exists_id: "block_exists_store L h \<longleftrightarrow> block_id L h \<noteq> None"
  by (simp add: block_exists_store_def store_exists_def block_id_def)

lemma block_exists_iff: "block_store_inv L \<Longrightarrow> block_exists_store L h \<longleftrightarrow> block_get L h \<noteq> None"
  by (auto simp: block_exists_id block_store_inv_def dest: block_get_id)

lemma block_get_saved_ok: "block_get L h = Some b \<Longrightarrow> saved_ok b"
  by (auto simp: block_get_def bind_eq_Some_conv dest: deserialize_saved_block_ok)

lemma put_append_fresh:
  "\<forall>k'. RBT.lookup t k' \<noteq> None \<longrightarrow> k' < k \<Longrightarrow> put_append t k v = Some (RBT.insert k v t)"
  by (auto simp: put_append_def list_all_iff RBT.lookup_keys [symmetric])

lemma raw_put_fresh:
  assumes "block_store_inv L" "block_get L h = None"
  shows "raw_put L bs h =
    Some (L\<lparr> lg_index := RBT.insert h (be_bytes 8 (lg_next_id L)) (lg_index L),
      lg_block_data := RBT.insert (lg_next_id L) bs (lg_block_data L),
      lg_next_id := lg_next_id L + 1 \<rparr>)"
proof -
  have "\<not> store_exists (lg_index L) h"
    using assms block_exists_iff [of L h] by (simp add: block_exists_store_def)
  moreover have "put_append (lg_block_data L) (lg_next_id L) bs =
      Some (RBT.insert (lg_next_id L) bs (lg_block_data L))"
    using assms by (intro put_append_fresh) (simp add: block_store_inv_def)
  ultimately show ?thesis
    by (simp add: raw_put_def put_no_overwrite_def Let_def)
qed

lemma block_get_raw_put:
  assumes inv: "block_store_inv L" and ok: "saved_ok b"
  shows "block_get (L\<lparr> lg_index := RBT.insert h (be_bytes 8 (lg_next_id L)) (lg_index L),
      lg_block_data := RBT.insert (lg_next_id L) (serialize_with_sideband b) (lg_block_data L),
      lg_next_id := n \<rparr>) = (block_get L)(h \<mapsto> b)"
    (is "block_get ?L = _")
proof (rule ext)
  fix h'
  show "block_get ?L h' = ((block_get L)(h \<mapsto> b)) h'"
  proof (cases "h' = h")
    case True
    then show ?thesis
      using saved_block_roundtrip [OF ok, of "[]"] by (simp add: block_get_def block_raw_get_def)
  next
    case False
    have "block_id L h' \<noteq> Some (lg_next_id L)"
      using inv by (auto simp: block_store_inv_def)
    with False show ?thesis
      by (auto simp: block_get_def block_raw_get_def block_id_def split: bind_splits)
  qed
qed

interpretation block_map: map_store
  block_store_inv "\<lambda>L. lg_next_id L < - 1" saved_ok block_get
  "\<lambda>L h b. raw_put L (serialize_with_sideband b) h" block_del
proof (unfold_locales, goal_cases)
  case (1 L b h)
  let ?L = "L\<lparr> lg_index := RBT.insert h (be_bytes 8 (lg_next_id L)) (lg_index L),
      lg_block_data := RBT.insert (lg_next_id L) (serialize_with_sideband b) (lg_block_data L),
      lg_next_id := lg_next_id L + 1 \<rparr>"
  have get: "block_get ?L = (block_get L)(h \<mapsto> b)"
    using 1 by (intro block_get_raw_put)
  have next_less: "i \<le> lg_next_id L \<Longrightarrow> i < lg_next_id L + 1" for i
    using 1 by (intro word_less_succ)
  have ids: "block_id ?L h' = (if h' = h then Some (lg_next_id L) else block_id L h')" for h'
    by (simp add: block_id_def)
  have old: "block_id L h' = Some i \<Longrightarrow> i < lg_next_id L" for h' i
    using 1 by (simp add: block_store_inv_def)
  have "block_store_inv ?L"
    using 1 old next_less unfolding block_store_inv_def get ids
    by (auto simp: order.strict_implies_order dest: old)
  with 1 get show ?case
    by (auto simp: raw_put_fresh)
next
  case (2 L h)
  then obtain b i where b: "block_get L h = Some b" and i: "block_id L h = Some i"
    using block_get_id by blast
  let ?L = "L\<lparr> lg_index := RBT.delete h (lg_index L), lg_block_data := RBT.delete i (lg_block_data L) \<rparr>"
  have other: "block_id L h' = Some i \<Longrightarrow> h' = h" for h'
    using 2 i by (auto simp: block_store_inv_def)
  have get: "block_get ?L = (block_get L)(h := None)"
    using other by (auto simp: fun_eq_iff block_get_def block_raw_get_def block_id_def split: bind_splits)
  have ids: "block_id ?L h' = (if h' = h then None else block_id L h')" for h'
    by (simp add: block_id_def)
  have "block_store_inv ?L"
    using 2 unfolding block_store_inv_def get ids by auto
  moreover have "block_del L h = Some ?L"
    using b i by (auto simp: block_del_def block_id_def del_existing_def store_exists_def store_del_def
        block_get_def block_raw_get_def bind_eq_Some_conv)
  ultimately show ?case using get by blast
qed

end
