(* ===== verification/Work.thy ===== *)
theory Work
  imports Blocks
begin

text \<open>
  Proof-of-work thresholds (\<open>work/src/work_thresholds.rs\<close>) and the ledger constants that carry
  them (\<open>ledger/src/ledger_constants.rs\<close>). The difficulty function is a trait object in the code
  and a field here; \<open>publish_*\<close> use the Blake2b one. The multiplier functions on \<open>f64\<close> are not
  modelled.
\<close>

record work_thresholds =
  wt_epoch_1 :: u64
  wt_epoch_2 :: u64
  wt_epoch_2_receive :: u64
  wt_base :: u64
  wt_entry :: u64
  wt_difficulty :: "root \<Rightarrow> work_nonce \<Rightarrow> u64"

definition with_difficulty ::
  "(root \<Rightarrow> work_nonce \<Rightarrow> u64) \<Rightarrow> u64 \<Rightarrow> u64 \<Rightarrow> u64 \<Rightarrow> work_thresholds" where
  "with_difficulty difficulty epoch_1 epoch_2 epoch_2_receive =
    \<lparr> wt_epoch_1 = epoch_1, wt_epoch_2 = epoch_2, wt_epoch_2_receive = epoch_2_receive,
      wt_base = max (max epoch_1 epoch_2) epoch_2_receive,
      wt_entry = min (min epoch_1 epoch_2) epoch_2_receive,
      wt_difficulty = difficulty \<rparr>"

definition publish_full :: "crypto \<Rightarrow> work_thresholds" where
  "publish_full cr = with_difficulty (get_difficulty cr) 0xfffffe0000000000 0xfffffff000000000 0"

definition publish_beta :: "crypto \<Rightarrow> work_thresholds" where
  "publish_beta cr =
    with_difficulty (get_difficulty cr) 0xfffff00000000000 0xfffff00000000000 0xffffe00000000000"

definition publish_dev :: "crypto \<Rightarrow> work_thresholds" where
  "publish_dev cr =
    with_difficulty (get_difficulty cr) 0xfe00000000000000 0xffc0000000000000 0xf000000000000000"

definition work_none :: "crypto \<Rightarrow> work_thresholds" where
  "work_none cr = with_difficulty (get_difficulty cr) 0 0 0"

definition threshold_entry :: "work_thresholds \<Rightarrow> block_type \<Rightarrow> u64" where
  "threshold_entry w t = (case t of BT_State \<Rightarrow> wt_entry w | _ \<Rightarrow> wt_epoch_1 w)"

definition threshold :: "work_thresholds \<Rightarrow> block_details \<Rightarrow> u64" where
  "threshold w d =
    (case bd_epoch d of
      Epoch2 \<Rightarrow> if bd_is_receive d \<or> bd_is_epoch d then wt_epoch_2_receive w else wt_epoch_2 w
    | Epoch1 \<Rightarrow> wt_epoch_1 w
    | Epoch0 \<Rightarrow> wt_epoch_1 w
    | _ \<Rightarrow> - 1)"

definition difficulty_block :: "work_thresholds \<Rightarrow> block \<Rightarrow> u64" where
  "difficulty_block w b = wt_difficulty w (block_root b) (block_work b)"

definition validate_entry :: "work_thresholds \<Rightarrow> root \<Rightarrow> work_nonce \<Rightarrow> bool" where
  "validate_entry w r n \<longleftrightarrow> threshold_entry w BT_State \<le> wt_difficulty w r n"

definition validate_entry_block :: "work_thresholds \<Rightarrow> block \<Rightarrow> bool" where
  "validate_entry_block w b \<longleftrightarrow> threshold_entry w (block_type_of b) \<le> difficulty_block w b"

definition is_valid_pow :: "work_thresholds \<Rightarrow> block \<Rightarrow> block_details \<Rightarrow> bool" where
  "is_valid_pow w b d \<longleftrightarrow> threshold w d \<le> difficulty_block w b"

text \<open>
  The entry check of the network layer never rejects a block that the ledger would accept: its
  threshold is below the ledger's threshold for every kind of block the ledger stores. For a
  legacy block this needs the epoch to be \<open>Epoch0\<close>, which holds for every stored legacy block.
\<close>

lemma entry_threshold_le:
  assumes "w = with_difficulty f e1 e2 e2r" "t = BT_State \<or> bd_epoch d = Epoch0"
  shows "threshold_entry w t \<le> threshold w d"
  using assms
  by (auto simp: threshold_entry_def threshold_def with_difficulty_def min_le_iff_disj
      split: block_type.splits epoch.splits)

section \<open>Ledger constants\<close>

record ledger_constants =
  lc_work :: work_thresholds
  lc_genesis_block :: saved_block
  lc_genesis_account :: account
  lc_genesis_amount :: amount
  lc_burn_account :: account
  lc_epochs :: epochs

definition genesis_sideband :: "account \<Rightarrow> block_sideband" where
  "genesis_sideband genesis_account =
    \<lparr> sb_height = 1, sb_timestamp = 0, sb_account = genesis_account, sb_balance = amount_max,
      sb_details = new_details Epoch0 False False False, sb_source_epoch = Epoch0 \<rparr>"

text \<open>\<open>epoch_v1_link\<close> and \<open>epoch_v2_link\<close>: the ASCII bytes \<open>epoch v1 block\<close>, zero-padded.\<close>

definition epoch_link_bytes :: "u8 \<Rightarrow> bytes" where
  "epoch_link_bytes digit =
    [0x65, 0x70, 0x6f, 0x63, 0x68, 0x20, 0x76, digit, 0x20, 0x62, 0x6c, 0x6f, 0x63, 0x6b]
    @ replicate 18 0"

definition epoch_v1_link :: link where
  "epoch_v1_link = of_be_bytes (epoch_link_bytes 0x31)"

definition epoch_v2_link :: link where
  "epoch_v2_link = of_be_bytes (epoch_link_bytes 0x32)"

text \<open>
  \<open>LedgerConstants::new\<close>, given the network's genesis block (an open block that the code parses
  from JSON) and its epoch 2 signer.
\<close>

definition new_ledger_constants :: "work_thresholds \<Rightarrow> open_block \<Rightarrow> public_key \<Rightarrow> ledger_constants" where
  "new_ledger_constants work genesis epoch_2_signer =
    (let genesis_account = opn_account genesis in
     \<lparr> lc_work = work,
       lc_genesis_block = new_saved_block (LegacyOpen genesis) (genesis_sideband genesis_account),
       lc_genesis_account = genesis_account,
       lc_genesis_amount = amount_max,
       lc_burn_account = 0,
       lc_epochs = epochs_add (epochs_add [] Epoch1 genesis_account epoch_v1_link)
         Epoch2 epoch_2_signer epoch_v2_link \<rparr>)"

end
