(* ===== verification/Block_Validation.thy ===== *)
theory Block_Validation
  imports Ledger_Store Work
begin

text \<open>
  Validation of a single block before it is inserted into the ledger
  (\<open>ledger/src/block_insertion/validation\<close>). \<open>create_validator\<close> collects what the rules need from
  the ledger, \<open>validate\<close> runs the rules in the order of the code and returns either the first
  error or the instructions for the insertion.
\<close>

section \<open>Results\<close>

datatype block_error =
    BadSignature | Old | NegativeSpend | Fork | Unreceivable | GapPrevious | GapSource
  | GapEpochOpenPending | OpenedBurnAccount | BalanceMismatch | RepresentativeMismatch
  | BlockPosition | InsufficientWork | Conflict

abbreviation Ok :: "'e + unit" where
  "Ok \<equiv> Inr ()"

text \<open>Checks chained by the \<open>?\<close> operator: the first error is returned.\<close>

fun first_error :: "('e + unit) list \<Rightarrow> 'e + unit" where
  "first_error [] = Ok"
| "first_error (Inl e # cs) = Inl e"
| "first_error (Inr _ # cs) = first_error cs"

definition check :: "bool \<Rightarrow> 'e \<Rightarrow> 'e + unit" where
  "check failed e = (if failed then Inl e else Ok)"

lemma check_Ok [simp]: "check c e = Ok \<longleftrightarrow> \<not> c"
  by (simp add: check_def)

lemma check_Inl [simp]: "check c e = Inl e' \<longleftrightarrow> c \<and> e' = e"
  by (auto simp: check_def)

lemma first_error_Ok: "first_error cs = Ok \<longleftrightarrow> (\<forall>c \<in> set cs. c = Ok)"
  by (induction cs rule: first_error.induct) auto

lemma first_error_cons_Ok [simp]:
  "first_error (c # cs) = Ok \<longleftrightarrow> c = Ok \<and> first_error cs = Ok"
  by (cases c) auto

lemma first_error_Inl:
  "first_error cs = Inl e \<longleftrightarrow> (\<exists>xs ys. cs = xs @ Inl e # ys \<and> (\<forall>c \<in> set xs. c = Ok))"
proof (induction cs rule: first_error.induct)
  case 1
  then show ?case by simp
next
  case (2 e' cs)
  then show ?case by (auto simp: Cons_eq_append_conv)
next
  case (3 u cs)
  have "(\<exists>xs ys. Inr u # cs = xs @ Inl e # ys \<and> (\<forall>c \<in> set xs. c = Ok)) \<longleftrightarrow>
    (\<exists>xs ys. cs = xs @ Inl e # ys \<and> (\<forall>c \<in> set xs. c = Ok))"
    by (auto simp: Cons_eq_append_conv) (rule_tac x = "Ok # xs" in exI, auto)
  with 3 show ?case by simp
qed

section \<open>The validator\<close>

record block_validator =
  bv_block :: block
  bv_epochs :: epochs
  bv_work :: work_thresholds
  bv_block_exists :: bool
  bv_account :: account
  bv_previous_block :: "saved_block option"
  bv_old_account_info :: "account_info option"
  bv_pending_receive_info :: "pending_info option"
  bv_any_pending_exists :: bool
  bv_source_block_exists :: bool
  bv_now :: timestamp

record block_insert_instructions =
  in_account :: account
  in_old_account_info :: account_info
  in_set_account_info :: account_info
  in_delete_pending :: "pending_key option"
  in_insert_pending :: "(pending_key \<times> pending_info) option"
  in_set_sideband :: block_sideband
  in_is_epoch_block :: bool

definition load_previous_block :: "ledger \<Rightarrow> block \<Rightarrow> saved_block option" where
  "load_previous_block L b =
    (if block_previous b \<noteq> 0 then any_get_block L (block_previous b) else None)"

definition validator_account :: "block \<Rightarrow> saved_block option \<Rightarrow> account option" where
  "validator_account b previous =
    (case account_field b of
      Some a \<Rightarrow> Some a
    | None \<Rightarrow> (case previous of Some p \<Rightarrow> Some (sv_account p) | None \<Rightarrow> None))"

abbreviation account_for :: "ledger \<Rightarrow> block \<Rightarrow> account" where
  "account_for L b \<equiv> unwrap_or_zero (validator_account b (load_previous_block L b))"

text \<open>\<open>now\<close> is the wall-clock time in milliseconds.\<close>

definition create_validator ::
  "crypto \<Rightarrow> ledger_constants \<Rightarrow> ledger \<Rightarrow> block \<Rightarrow> timestamp \<Rightarrow> block_validator" where
  "create_validator cr c L b now =
    (let previous = load_previous_block L b;
         acc = unwrap_or_zero (validator_account b previous);
         source_block = source_or_link b
     in \<lparr> bv_block = b, bv_epochs = lc_epochs c, bv_work = lc_work c,
          bv_block_exists = any_block_exists_or_pruned L (block_hash_of cr b),
          bv_account = acc,
          bv_previous_block = previous,
          bv_old_account_info = account_get L acc,
          bv_pending_receive_info =
            (if source_block = 0 then None else pending_get L (PendingKey acc source_block)),
          bv_any_pending_exists = receivable_exists L acc,
          bv_source_block_exists = (source_block \<noteq> 0 \<and> any_block_exists_or_pruned L source_block),
          bv_now = now \<rparr>)"

section \<open>Helpers\<close>

definition account_exists :: "block_validator \<Rightarrow> bool" where
  "account_exists v \<longleftrightarrow> bv_old_account_info v \<noteq> None"

definition is_new_account :: "block_validator \<Rightarrow> bool" where
  "is_new_account v \<longleftrightarrow> bv_old_account_info v = None"

definition previous_balance :: "block_validator \<Rightarrow> amount" where
  "previous_balance v = (case bv_previous_block v of Some b \<Rightarrow> sv_balance b | None \<Rightarrow> 0)"

definition has_epoch_link :: "block_validator \<Rightarrow> state_block \<Rightarrow> bool" where
  "has_epoch_link v s = is_epoch_link (bv_epochs v) (st_link s)"

definition is_send :: "block_validator \<Rightarrow> bool" where
  "is_send v =
    (case bv_block v of
      LegacySend _ \<Rightarrow> True
    | State s \<Rightarrow>
        (case bv_old_account_info v of Some info \<Rightarrow> st_balance s < ai_balance info | None \<Rightarrow> False)
    | _ \<Rightarrow> False)"

definition is_receive :: "block_validator \<Rightarrow> bool" where
  "is_receive v =
    (case bv_block v of
      LegacyReceive _ \<Rightarrow> True
    | LegacyOpen _ \<Rightarrow> True
    | State s \<Rightarrow>
        if has_epoch_link v s then False
        else (case bv_old_account_info v of
               Some info \<Rightarrow> ai_balance info \<le> st_balance s \<and> st_link s \<noteq> 0
             | None \<Rightarrow> True)
    | _ \<Rightarrow> False)"

definition source_epoch :: "block_validator \<Rightarrow> epoch" where
  "source_epoch v = (case bv_pending_receive_info v of Some p \<Rightarrow> pi_epoch p | None \<Rightarrow> Epoch0)"

definition pending_amount :: "block_validator \<Rightarrow> amount" where
  "pending_amount v = (case bv_pending_receive_info v of Some p \<Rightarrow> pi_amount p | None \<Rightarrow> 0)"

definition amount_received :: "block_validator \<Rightarrow> amount" where
  "amount_received v =
    (case bv_block v of
      LegacyReceive _ \<Rightarrow> pending_amount v
    | LegacyOpen _ \<Rightarrow> pending_amount v
    | State s \<Rightarrow>
        (let previous = previous_balance v
         in if previous < st_balance s then st_balance s - previous else 0)
    | _ \<Rightarrow> 0)"

definition amount_sent :: "block_validator \<Rightarrow> amount" where
  "amount_sent v =
    (case bv_old_account_info v of
      Some info \<Rightarrow>
        (case (case bv_block v of
                LegacySend i \<Rightarrow> Some (snd_balance i)
              | State i \<Rightarrow> Some (st_balance i)
              | _ \<Rightarrow> None) of
          Some bal \<Rightarrow> if bal < ai_balance info then ai_balance info - bal else 0
        | None \<Rightarrow> 0)
    | None \<Rightarrow> 0)"

definition old_balance :: "block_validator \<Rightarrow> amount" where
  "old_balance v = (case bv_old_account_info v of Some i \<Rightarrow> ai_balance i | None \<Rightarrow> 0)"

definition new_balance :: "block_validator \<Rightarrow> amount" where
  "new_balance v = old_balance v + amount_received v - amount_sent v"

definition is_epoch_block :: "block_validator \<Rightarrow> bool" where
  "is_epoch_block v =
    (case bv_block v of
      State s \<Rightarrow> has_epoch_link v s \<and> previous_balance v = st_balance s
    | _ \<Rightarrow> False)"

definition block_epoch_version :: "block_validator \<Rightarrow> epoch" where
  "block_epoch_version v =
    (case bv_block v of
      State s \<Rightarrow> (case epochs_epoch (bv_epochs v) (st_link s) of Some e \<Rightarrow> e | None \<Rightarrow> Invalid)
    | _ \<Rightarrow> Epoch0)"

definition old_epoch_version :: "block_validator \<Rightarrow> epoch" where
  "old_epoch_version v = (case bv_old_account_info v of Some i \<Rightarrow> ai_epoch i | None \<Rightarrow> Epoch0)"

definition validator_epoch :: "block_validator \<Rightarrow> epoch" where
  "validator_epoch v =
    (if is_epoch_block v then block_epoch_version v
     else max (old_epoch_version v) (source_epoch v))"

definition validator_open_block :: "crypto \<Rightarrow> block_validator \<Rightarrow> block_hash" where
  "validator_open_block cr v =
    (case bv_old_account_info v of Some i \<Rightarrow> ai_open_block i | None \<Rightarrow> block_hash_of cr (bv_block v))"

definition old_representative :: "block_validator \<Rightarrow> public_key" where
  "old_representative v = (case bv_old_account_info v of Some i \<Rightarrow> ai_representative i | None \<Rightarrow> 0)"

definition new_representative :: "block_validator \<Rightarrow> public_key" where
  "new_representative v =
    (case representative_field (bv_block v) of Some r \<Rightarrow> r | None \<Rightarrow> old_representative v)"

definition validator_amount :: "block_validator \<Rightarrow> amount" where
  "validator_amount v =
    (if new_balance v < old_balance v then old_balance v - new_balance v
     else new_balance v - old_balance v)"

definition delete_received_pending_info :: "block_validator \<Rightarrow> pending_key option" where
  "delete_received_pending_info v =
    (if is_receive v then Some (PendingKey (bv_account v) (source_or_link (bv_block v))) else None)"

definition pending_key_for_send_block :: "crypto \<Rightarrow> block \<Rightarrow> pending_key" where
  "pending_key_for_send_block cr b =
    PendingKey (unwrap_or_zero (link_field b)) (block_hash_of cr b)"

definition new_pending_info :: "crypto \<Rightarrow> block_validator \<Rightarrow> (pending_key \<times> pending_info) option" where
  "new_pending_info cr v =
    (case bv_block v of
      State _ \<Rightarrow>
        if is_send v
        then Some (pending_key_for_send_block cr (bv_block v),
               \<lparr> pi_source = bv_account v, pi_amount = validator_amount v,
                 pi_epoch = validator_epoch v \<rparr>)
        else None
    | LegacySend s \<Rightarrow>
        Some (PendingKey (snd_destination s) (block_hash_of cr (bv_block v)),
          \<lparr> pi_source = bv_account v, pi_amount = amount_sent v, pi_epoch = Epoch0 \<rparr>)
    | _ \<Rightarrow> None)"

definition new_block_count :: "block_validator \<Rightarrow> u64" where
  "new_block_count v = (case bv_old_account_info v of Some i \<Rightarrow> ai_block_count i | None \<Rightarrow> 0) + 1"

definition validator_details :: "block_validator \<Rightarrow> block_details" where
  "validator_details v =
    new_details (validator_epoch v) (is_send v) (is_receive v) (is_epoch_block v)"

definition new_sideband :: "block_validator \<Rightarrow> block_sideband" where
  "new_sideband v =
    \<lparr> sb_height = new_block_count v, sb_timestamp = bv_now v, sb_account = bv_account v,
      sb_balance = new_balance v, sb_details = validator_details v,
      sb_source_epoch = source_epoch v \<rparr>"

definition new_account_info :: "crypto \<Rightarrow> block_validator \<Rightarrow> account_info" where
  "new_account_info cr v =
    \<lparr> ai_head = block_hash_of cr (bv_block v), ai_representative = new_representative v,
      ai_open_block = validator_open_block cr v, ai_balance = new_balance v,
      ai_modified = bv_now v div 1000, ai_block_count = new_block_count v,
      ai_epoch = validator_epoch v \<rparr>"

definition balance_changed :: "block_validator \<Rightarrow> bool" where
  "balance_changed v =
    (case bv_old_account_info v of Some i \<Rightarrow> new_balance v \<noteq> ai_balance i | None \<Rightarrow> False)"

section \<open>Rules for all blocks\<close>

definition validate_epoch_signature :: "crypto \<Rightarrow> epochs \<Rightarrow> block \<Rightarrow> bool" where
  "validate_epoch_signature cr es b =
    (case epoch_signer es (unwrap_or_zero (link_field b)) of
      None \<Rightarrow> False
    | Some s \<Rightarrow> verify_signature cr s (block_hash_of cr b) (block_signature b))"

definition ensure_block_does_not_exist_yet :: "block_validator \<Rightarrow> block_error + unit" where
  "ensure_block_does_not_exist_yet v = check (bv_block_exists v) Old"

definition ensure_valid_signature :: "crypto \<Rightarrow> block_validator \<Rightarrow> block_error + unit" where
  "ensure_valid_signature cr v =
    check (\<not> (if is_epoch_block v then validate_epoch_signature cr (bv_epochs v) (bv_block v)
      else verify_signature cr (bv_account v) (block_hash_of cr (bv_block v)) (block_signature (bv_block v))))
      BadSignature"

definition ensure_account_exists_for_none_open_block :: "block_validator \<Rightarrow> block_error + unit" where
  "ensure_account_exists_for_none_open_block v =
    check (\<not> is_open (bv_block v) \<and> is_new_account v) GapPrevious"

definition ensure_previous_block_exists :: "block_validator \<Rightarrow> block_error + unit" where
  "ensure_previous_block_exists v =
    first_error
      [check (account_exists v \<and> bv_previous_block v = None) GapPrevious,
       check (is_new_account v \<and> block_previous (bv_block v) \<noteq> 0) GapPrevious]"

definition ensure_previous_block_is_account_head :: "block_validator \<Rightarrow> block_error + unit" where
  "ensure_previous_block_is_account_head v =
    (case bv_old_account_info v of
      Some info \<Rightarrow> check (block_previous (bv_block v) \<noteq> ai_head info) Fork
    | None \<Rightarrow> Ok)"

definition ensure_previous_block_is_correct :: "block_validator \<Rightarrow> block_error + unit" where
  "ensure_previous_block_is_correct v =
    first_error [ensure_previous_block_exists v, ensure_previous_block_is_account_head v]"

definition ensure_sufficient_work :: "block_validator \<Rightarrow> block_error + unit" where
  "ensure_sufficient_work v =
    check (\<not> is_valid_pow (bv_work v) (bv_block v) (validator_details v)) InsufficientWork"

definition ensure_valid_predecessor :: "block_validator \<Rightarrow> block_error + unit" where
  "ensure_valid_predecessor v =
    (if block_previous (bv_block v) = 0 then Ok
     else case bv_previous_block v of
       None \<Rightarrow> Inl GapPrevious
     | Some p \<Rightarrow> check (\<not> valid_predecessor (bv_block v) (block_type_of (sv_block p))) BlockPosition)"

section \<open>Rules for opens, sends and receives\<close>

definition ensure_block_is_not_for_burn_account :: "block_validator \<Rightarrow> block_error + unit" where
  "ensure_block_is_not_for_burn_account v = check (bv_account v = 0) OpenedBurnAccount"

definition ensure_no_double_account_open :: "block_validator \<Rightarrow> block_error + unit" where
  "ensure_no_double_account_open v = check (account_exists v \<and> is_open (bv_block v)) Fork"

definition ensure_open_block_has_link :: "block_validator \<Rightarrow> block_error + unit" where
  "ensure_open_block_has_link v =
    (case bv_block v of
      State s \<Rightarrow> check (is_open (bv_block v) \<and> st_link s = 0) GapSource
    | _ \<Rightarrow> Ok)"

definition ensure_no_receive_balance_change_without_link :: "block_validator \<Rightarrow> block_error + unit" where
  "ensure_no_receive_balance_change_without_link v =
    (case bv_block v of
      State s \<Rightarrow> check (st_link s = 0 \<and> amount_received v \<noteq> 0) BalanceMismatch
    | _ \<Rightarrow> Ok)"

definition ensure_no_negative_amount_send :: "block_validator \<Rightarrow> block_error + unit" where
  "ensure_no_negative_amount_send v =
    (case bv_block v of
      LegacySend s \<Rightarrow> check (previous_balance v < snd_balance s) NegativeSpend
    | _ \<Rightarrow> Ok)"

definition ensure_source_block_exists :: "block_validator \<Rightarrow> block_error + unit" where
  "ensure_source_block_exists v = check (is_receive v \<and> \<not> bv_source_block_exists v) GapSource"

definition ensure_receive_block_receives_pending_amount :: "block_validator \<Rightarrow> block_error + unit" where
  "ensure_receive_block_receives_pending_amount v =
    (if is_receive v
     then (case bv_pending_receive_info v of
            Some p \<Rightarrow> check (amount_received v \<noteq> pi_amount p) BalanceMismatch
          | None \<Rightarrow> Inl Unreceivable)
     else Ok)"

definition ensure_legacy_source_is_epoch_0 :: "block_validator \<Rightarrow> block_error + unit" where
  "ensure_legacy_source_is_epoch_0 v =
    (let is_legacy_receive =
       (case bv_block v of LegacyReceive _ \<Rightarrow> True | LegacyOpen _ \<Rightarrow> True | _ \<Rightarrow> False)
     in check (is_legacy_receive \<and>
          (case bv_pending_receive_info v of Some p \<Rightarrow> pi_epoch p | None \<Rightarrow> Unspecified) \<noteq> Epoch0)
        Unreceivable)"

definition ensure_pending_receive_is_correct :: "block_validator \<Rightarrow> block_error + unit" where
  "ensure_pending_receive_is_correct v =
    first_error
      [ensure_source_block_exists v,
       ensure_receive_block_receives_pending_amount v,
       ensure_legacy_source_is_epoch_0 v]"

section \<open>Rules for epoch blocks\<close>

definition ensure_epoch_block_does_not_change_representative :: "block_validator \<Rightarrow> block_error + unit" where
  "ensure_epoch_block_does_not_change_representative v =
    (case bv_block v of
      State s \<Rightarrow>
        (case bv_old_account_info v of
          Some info \<Rightarrow>
            check (is_epoch_block v \<and> st_representative s \<noteq> ai_representative info)
              RepresentativeMismatch
        | None \<Rightarrow> Ok)
    | _ \<Rightarrow> Ok)"

definition ensure_epoch_open_has_burn_account_as_rep :: "block_validator \<Rightarrow> block_error + unit" where
  "ensure_epoch_open_has_burn_account_as_rep v =
    (case bv_block v of
      State s \<Rightarrow>
        check (is_epoch_block v \<and> is_open (bv_block v) \<and> st_representative s \<noteq> 0)
          RepresentativeMismatch
    | _ \<Rightarrow> Ok)"

definition ensure_epoch_open_has_pending_entry :: "block_validator \<Rightarrow> block_error + unit" where
  "ensure_epoch_open_has_pending_entry v =
    check (is_open (bv_block v) \<and> is_epoch_block v \<and> \<not> bv_any_pending_exists v) GapEpochOpenPending"

definition ensure_valid_epoch_for_unopened_account :: "block_validator \<Rightarrow> block_error + unit" where
  "ensure_valid_epoch_for_unopened_account v =
    check (is_open (bv_block v) \<and> is_epoch_block v \<and> block_epoch_version v = Invalid) BlockPosition"

definition ensure_epoch_upgrade_is_sequential_for_existing_account ::
  "block_validator \<Rightarrow> block_error + unit" where
  "ensure_epoch_upgrade_is_sequential_for_existing_account v =
    (case bv_old_account_info v of
      Some info \<Rightarrow>
        check (is_epoch_block v \<and> \<not> is_sequential (ai_epoch info) (block_epoch_version v)) BlockPosition
    | None \<Rightarrow> Ok)"

definition ensure_epoch_block_does_not_change_balance :: "block_validator \<Rightarrow> block_error + unit" where
  "ensure_epoch_block_does_not_change_balance v =
    check (is_epoch_block v \<and> balance_changed v) BalanceMismatch"

definition ensure_valid_epoch_block :: "block_validator \<Rightarrow> block_error + unit" where
  "ensure_valid_epoch_block v =
    first_error
      [ensure_epoch_block_does_not_change_representative v,
       ensure_epoch_open_has_burn_account_as_rep v,
       ensure_epoch_open_has_pending_entry v,
       ensure_valid_epoch_for_unopened_account v,
       ensure_epoch_upgrade_is_sequential_for_existing_account v,
       ensure_epoch_block_does_not_change_balance v]"

definition ensure_epoch_block_candidate_is_signed_by_owner_or_epoch_account ::
  "crypto \<Rightarrow> block_validator \<Rightarrow> block_error + unit" where
  "ensure_epoch_block_candidate_is_signed_by_owner_or_epoch_account cr v =
    (case bv_block v of
      State s \<Rightarrow>
        check (has_epoch_link v s \<and>
            \<not> verify_signature cr (st_account s) (block_hash_of cr (bv_block v)) (st_signature s) \<and>
            \<not> validate_epoch_signature cr (bv_epochs v) (bv_block v))
          BadSignature
    | _ \<Rightarrow> Ok)"

definition ensure_previous_block_exists_for_epoch_block_candidate ::
  "block_validator \<Rightarrow> block_error + unit" where
  "ensure_previous_block_exists_for_epoch_block_candidate v =
    (case bv_block v of
      State s \<Rightarrow>
        check (has_epoch_link v s \<and> st_previous s \<noteq> 0 \<and> bv_previous_block v = None) GapPrevious
    | _ \<Rightarrow> Ok)"

definition epoch_block_pre_checks :: "crypto \<Rightarrow> block_validator \<Rightarrow> block_error + unit" where
  "epoch_block_pre_checks cr v =
    first_error
      [ensure_epoch_block_candidate_is_signed_by_owner_or_epoch_account cr v,
       ensure_previous_block_exists_for_epoch_block_candidate v]"

section \<open>Validation\<close>

definition create_instructions :: "crypto \<Rightarrow> block_validator \<Rightarrow> block_insert_instructions" where
  "create_instructions cr v =
    \<lparr> in_account = bv_account v,
      in_old_account_info =
        (case bv_old_account_info v of Some i \<Rightarrow> i | None \<Rightarrow> default_account_info),
      in_set_account_info = new_account_info cr v,
      in_delete_pending = delete_received_pending_info v,
      in_insert_pending = new_pending_info cr v,
      in_set_sideband = new_sideband v,
      in_is_epoch_block = is_epoch_block v \<rparr>"

definition validation_checks :: "crypto \<Rightarrow> block_validator \<Rightarrow> (block_error + unit) list" where
  "validation_checks cr v =
    [epoch_block_pre_checks cr v,
     ensure_block_does_not_exist_yet v,
     ensure_valid_predecessor v,
     ensure_valid_signature cr v,
     ensure_block_is_not_for_burn_account v,
     ensure_account_exists_for_none_open_block v,
     ensure_no_double_account_open v,
     ensure_previous_block_is_correct v,
     ensure_open_block_has_link v,
     ensure_no_receive_balance_change_without_link v,
     ensure_pending_receive_is_correct v,
     ensure_sufficient_work v,
     ensure_no_negative_amount_send v,
     ensure_valid_epoch_block v]"

definition validate :: "crypto \<Rightarrow> block_validator \<Rightarrow> block_error + block_insert_instructions" where
  "validate cr v =
    (case first_error (validation_checks cr v) of
      Inl e \<Rightarrow> Inl e
    | Inr _ \<Rightarrow> Inr (create_instructions cr v))"

definition validate_block ::
  "crypto \<Rightarrow> ledger_constants \<Rightarrow> ledger \<Rightarrow> block \<Rightarrow> timestamp \<Rightarrow> block_error + block_insert_instructions" where
  "validate_block cr c L b now = validate cr (create_validator cr c L b now)"

lemmas check_defs =
  epoch_block_pre_checks_def ensure_block_does_not_exist_yet_def ensure_valid_predecessor_def
  ensure_valid_signature_def ensure_block_is_not_for_burn_account_def
  ensure_account_exists_for_none_open_block_def ensure_no_double_account_open_def
  ensure_previous_block_is_correct_def ensure_open_block_has_link_def
  ensure_no_receive_balance_change_without_link_def ensure_pending_receive_is_correct_def
  ensure_sufficient_work_def ensure_no_negative_amount_send_def ensure_valid_epoch_block_def
  ensure_previous_block_exists_def ensure_previous_block_is_account_head_def
  ensure_source_block_exists_def ensure_receive_block_receives_pending_amount_def
  ensure_legacy_source_is_epoch_0_def ensure_epoch_block_does_not_change_representative_def
  ensure_epoch_open_has_burn_account_as_rep_def ensure_epoch_open_has_pending_entry_def
  ensure_valid_epoch_for_unopened_account_def
  ensure_epoch_upgrade_is_sequential_for_existing_account_def
  ensure_epoch_block_does_not_change_balance_def
  ensure_epoch_block_candidate_is_signed_by_owner_or_epoch_account_def
  ensure_previous_block_exists_for_epoch_block_candidate_def

lemmas helper_defs =
  account_exists_def is_new_account_def previous_balance_def has_epoch_link_def is_send_def
  is_receive_def source_epoch_def pending_amount_def amount_received_def amount_sent_def
  old_balance_def new_balance_def is_epoch_block_def block_epoch_version_def old_epoch_version_def
  validator_epoch_def validator_open_block_def old_representative_def new_representative_def
  validator_amount_def delete_received_pending_info_def new_block_count_def validator_details_def
  balance_changed_def

lemma validate_Inr:
  "validate cr v = Inr ins \<longleftrightarrow>
    first_error (validation_checks cr v) = Ok \<and> ins = create_instructions cr v"
  by (auto simp: validate_def split: sum.splits)

lemma validate_Inl: "validate cr v = Inl e \<longleftrightarrow> first_error (validation_checks cr v) = Inl e"
  by (auto simp: validate_def split: sum.splits)

end
