(* ===== verification/Block_Insertion.thy ===== *)
theory Block_Insertion
  imports Block_Validation
begin

text \<open>
  Insertion of validated blocks (\<open>ledger/src/block_insertion/block_inserter.rs\<close>), the representative
  weights (\<open>ledger/src/rep_weights_updater.rs\<close>, \<open>rep_weight_cache.rs\<close>), the start-up of a ledger and
  the processing of a batch of blocks (\<open>ledger/src/ledger.rs\<close>). \<open>None\<close> stands for a panic.
\<close>

section \<open>Representative weights\<close>

definition put_cache ::
  "amount \<Rightarrow> (public_key, amount) rbt \<Rightarrow> public_key \<Rightarrow> amount \<Rightarrow> (public_key, amount) rbt" where
  "put_cache min_weight weights rep new_weight =
    (if new_weight < min_weight \<or> new_weight = 0 then RBT.delete rep weights
     else RBT.insert rep new_weight weights)"

definition put_store :: "ledger \<Rightarrow> public_key \<Rightarrow> amount \<Rightarrow> amount \<Rightarrow> ledger option" where
  "put_store L rep previous_weight new_weight =
    (if new_weight = 0
     then (if previous_weight \<noteq> 0 then rep_weight_del L rep else Some L)
     else Some (rep_weight_put L rep new_weight))"

definition set_cache :: "amount \<Rightarrow> ledger \<Rightarrow> public_key \<Rightarrow> amount \<Rightarrow> ledger" where
  "set_cache min_weight L rep w = L\<lparr> lg_rep_cache := put_cache min_weight (lg_rep_cache L) rep w \<rparr>"

definition representation_add :: "amount \<Rightarrow> ledger \<Rightarrow> public_key \<Rightarrow> amount \<Rightarrow> ledger option" where
  "representation_add min_weight L rep amt = do {
    let previous_weight = unwrap_or_zero (rep_weight_get L rep);
    let new_weight = previous_weight + amt;
    L \<leftarrow> put_store L rep previous_weight new_weight;
    Some (set_cache min_weight L rep new_weight) }"

definition representation_add_dual ::
  "amount \<Rightarrow> ledger \<Rightarrow> public_key \<Rightarrow> amount \<Rightarrow> public_key \<Rightarrow> amount \<Rightarrow> ledger option" where
  "representation_add_dual min_weight L rep_1 amount_1 rep_2 amount_2 =
    (if rep_1 \<noteq> rep_2 then do {
       let previous_weight_1 = unwrap_or_zero (rep_weight_get L rep_1);
       let previous_weight_2 = unwrap_or_zero (rep_weight_get L rep_2);
       let new_weight_1 = previous_weight_1 + amount_1;
       let new_weight_2 = previous_weight_2 + amount_2;
       L \<leftarrow> put_store L rep_1 previous_weight_1 new_weight_1;
       L \<leftarrow> put_store L rep_2 previous_weight_2 new_weight_2;
       Some (set_cache min_weight (set_cache min_weight L rep_1 new_weight_1) rep_2 new_weight_2) }
     else representation_add min_weight L rep_1 (amount_1 + amount_2))"

text \<open>
  \<open>RepWeightCache\<close>: preconfigured bootstrap weights are used until the ledger has \<open>max_blocks\<close>
  blocks; the flag is cleared for good the first time the block count has reached it.
\<close>

record rep_weight_cache =
  rc_bootstrap_weights :: "(public_key, amount) rbt"
  rc_max_blocks :: u64
  rc_check_bootstrap_weights :: bool

definition use_bootstrap_weights :: "rep_weight_cache \<Rightarrow> ledger \<Rightarrow> bool \<times> rep_weight_cache" where
  "use_bootstrap_weights rc L =
    (if rc_check_bootstrap_weights rc
     then (if lg_block_count L < rc_max_blocks rc then (True, rc)
           else (False, rc\<lparr> rc_check_bootstrap_weights := False \<rparr>))
     else (False, rc))"

definition cached_weight :: "rep_weight_cache \<Rightarrow> ledger \<Rightarrow> public_key \<Rightarrow> amount \<times> rep_weight_cache" where
  "cached_weight rc L rep =
    (case use_bootstrap_weights rc L of
      (True, rc') \<Rightarrow> (unwrap_or_zero (RBT.lookup (rc_bootstrap_weights rc') rep), rc')
    | (False, rc') \<Rightarrow> (unwrap_or_zero (RBT.lookup (lg_rep_cache L) rep), rc'))"

section \<open>Inserting a block\<close>

definition update_account ::
  "ledger \<Rightarrow> account \<Rightarrow> account_info \<Rightarrow> account_info \<Rightarrow> ledger option" where
  "update_account L acc old_info new_info =
    (if ai_head new_info \<noteq> 0 then do {
       let L = (if ai_head old_info = 0 \<and> ai_open_block new_info = ai_head new_info
         then L\<lparr> lg_account_count := lg_account_count L + 1 \<rparr> else L);
       L \<leftarrow> (if ai_head old_info \<noteq> 0 \<and> ai_epoch old_info \<noteq> ai_epoch new_info
         then account_del L acc else Some L);
       Some (account_put L acc new_info) }
     else do {
       L \<leftarrow> account_del L acc;
       Some (L\<lparr> lg_account_count := lg_account_count L - 1 \<rparr>) })"

definition account_changed_since_validation :: "ledger \<Rightarrow> block_insert_instructions \<Rightarrow> bool" where
  "account_changed_since_validation L ins \<longleftrightarrow>
    ai_head (case account_get L (in_account ins) of Some i \<Rightarrow> i | None \<Rightarrow> default_account_info)
      \<noteq> ai_head (in_old_account_info ins)"

definition delete_old_pending_info :: "ledger \<Rightarrow> block_insert_instructions \<Rightarrow> ledger option" where
  "delete_old_pending_info L ins =
    (case in_delete_pending ins of Some k \<Rightarrow> pending_del L k | None \<Rightarrow> Some L)"

definition insert_new_pending_info :: "ledger \<Rightarrow> block_insert_instructions \<Rightarrow> ledger" where
  "insert_new_pending_info L ins =
    (case in_insert_pending ins of Some (k, i) \<Rightarrow> pending_put L k i | None \<Rightarrow> L)"

definition update_representative_cache ::
  "amount \<Rightarrow> ledger \<Rightarrow> block_insert_instructions \<Rightarrow> ledger option" where
  "update_representative_cache min_weight L ins =
    (if ai_head (in_old_account_info ins) \<noteq> 0
     then representation_add_dual min_weight L
            (ai_representative (in_old_account_info ins))
            (0 - ai_balance (in_old_account_info ins))
            (ai_representative (in_set_account_info ins))
            (ai_balance (in_set_account_info ins))
     else representation_add min_weight L
            (ai_representative (in_set_account_info ins))
            (ai_balance (in_set_account_info ins)))"

definition insert_block ::
  "crypto \<Rightarrow> amount \<Rightarrow> ledger \<Rightarrow> block \<Rightarrow> block_insert_instructions \<Rightarrow>
    (ledger \<times> saved_block option) option" where
  "insert_block cr min_weight L b ins =
    (if account_changed_since_validation L ins then Some (L, None)
     else do {
       let saved = new_saved_block b (in_set_sideband ins);
       L \<leftarrow> block_put cr L saved;
       let L = (if sv_previous saved \<noteq> 0
         then successor_put L (sv_previous saved) (sv_hash cr saved) else L);
       L \<leftarrow> update_account L (in_account ins) (in_old_account_info ins) (in_set_account_info ins);
       L \<leftarrow> delete_old_pending_info L ins;
       let L = insert_new_pending_info L ins;
       L \<leftarrow> update_representative_cache min_weight L ins;
       Some (L\<lparr> lg_block_count := lg_block_count L + 1 \<rparr>, Some saved) })"

section \<open>Processing a batch\<close>

text \<open>
  Every block of the batch is validated against the ledger as it was at the start (with the
  wall-clock time read for it); then the blocks are inserted one after the other.
\<close>

type_synonym process_result = "(block_error + unit) \<times> saved_block option"

fun insert_batch ::
  "crypto \<Rightarrow> amount \<Rightarrow> ledger \<Rightarrow> ((block_error + block_insert_instructions) \<times> block) list \<Rightarrow>
    (ledger \<times> process_result list) option" where
  "insert_batch cr min_weight L [] = Some (L, [])"
| "insert_batch cr min_weight L ((Inl err, b) # results) = do {
    (L, processed) \<leftarrow> insert_batch cr min_weight L results;
    Some (L, (Inl err, None) # processed) }"
| "insert_batch cr min_weight L ((Inr ins, b) # results) = do {
    (L, saved) \<leftarrow> insert_block cr min_weight L b ins;
    (L, processed) \<leftarrow> insert_batch cr min_weight L results;
    Some (L, (case saved of Some sb \<Rightarrow> (Ok, Some sb) | None \<Rightarrow> (Inl Conflict, None)) # processed) }"

definition process_batch ::
  "crypto \<Rightarrow> ledger_constants \<Rightarrow> amount \<Rightarrow> ledger \<Rightarrow> (block \<times> timestamp) list \<Rightarrow>
    (ledger \<times> process_result list) option" where
  "process_batch cr c min_weight L batch =
    insert_batch cr min_weight L (map (\<lambda>(b, now). (validate_block cr c L b now, b)) batch)"

definition process_one ::
  "crypto \<Rightarrow> ledger_constants \<Rightarrow> amount \<Rightarrow> ledger \<Rightarrow> block \<Rightarrow> timestamp \<Rightarrow>
    (ledger \<times> (block_error + saved_block)) option" where
  "process_one cr c min_weight L b now = do {
    (L, processed) \<leftarrow> process_batch cr c min_weight L [(b, now)];
    (case processed of
      (Inr _, Some sb) # _ \<Rightarrow> Some (L, Inr sb)
    | (Inl e, _) # _ \<Rightarrow> Some (L, Inl e)
    | _ \<Rightarrow> None) }"

section \<open>Start-up\<close>

definition add_genesis_block :: "crypto \<Rightarrow> ledger_constants \<Rightarrow> ledger \<Rightarrow> ledger option" where
  "add_genesis_block cr c L = do {
    let genesis_hash = sv_hash cr (lc_genesis_block c);
    let genesis_account = lc_genesis_account c;
    L \<leftarrow> block_put cr L (lc_genesis_block c);
    let L = conf_height_put L genesis_account \<lparr> ch_height = 1, ch_frontier = genesis_hash \<rparr>;
    let L = account_put L genesis_account
      \<lparr> ai_head = genesis_hash, ai_representative = genesis_account, ai_open_block = genesis_hash,
        ai_balance = amount_max, ai_modified = 0, ai_block_count = 1, ai_epoch = Epoch0 \<rparr>;
    Some (rep_weight_put L genesis_account amount_max) }"

text \<open>
  \<open>Ledger::initialize\<close>: the genesis block is added to an empty ledger, then the caches are
  computed from the tables. The parallel traversal splits the key range into disjoint parts whose
  contributions are added up; here it is one traversal in key order.
\<close>

definition account_iter :: "ledger \<Rightarrow> (account \<times> account_info) list" where
  "account_iter L =
    List.map_filter (\<lambda>(k, v). map_option (\<lambda>(i, _). (k, i)) (deserialize_account_info v))
      (RBT.entries (lg_account L))"

definition conf_height_iter :: "ledger \<Rightarrow> (account \<times> confirmation_height_info) list" where
  "conf_height_iter L =
    List.map_filter (\<lambda>(k, v). map_option (\<lambda>(i, _). (k, i)) (deserialize_confirmation_height_info v))
      (RBT.entries (lg_conf_height L))"

fun add_rep_weights :: "(account \<times> account_info) list \<Rightarrow> (public_key, amount) rbt \<Rightarrow> (public_key, amount) rbt" where
  "add_rep_weights [] w = w"
| "add_rep_weights ((_, i) # infos) w =
    add_rep_weights infos
      (if ai_balance i \<noteq> 0
       then RBT.insert (ai_representative i)
              (unwrap_or_zero (RBT.lookup w (ai_representative i)) + ai_balance i) w
       else w)"

definition copy_from :: "amount \<Rightarrow> (public_key, amount) rbt \<Rightarrow> (public_key, amount) rbt \<Rightarrow> (public_key, amount) rbt" where
  "copy_from min_weight this other =
    foldl (\<lambda>w (rep, amt). put_cache min_weight w rep (unwrap_or_zero (RBT.lookup w rep) + amt))
      this (RBT.entries other)"

definition initialize_ledger :: "crypto \<Rightarrow> ledger_constants \<Rightarrow> amount \<Rightarrow> ledger \<Rightarrow> ledger option" where
  "initialize_ledger cr c min_weight L = do {
    L \<leftarrow> (if account_iter L = [] then add_genesis_block cr c L else Some L);
    let accounts = account_iter L;
    let L = L\<lparr>
      lg_block_count := lg_block_count L + sum_list (map (\<lambda>(_, i). ai_block_count i) accounts),
      lg_account_count := lg_account_count L + of_nat (length accounts),
      lg_rep_cache := copy_from min_weight (lg_rep_cache L) (add_rep_weights accounts RBT.empty),
      lg_confirmed_count := lg_confirmed_count L + sum_list (map (\<lambda>(_, i). ch_height i) (conf_height_iter L)),
      lg_pruned_count := lg_pruned_count L + of_nat (length (RBT.keys (lg_pruned L))) \<rparr>;
    Some L }"

end
