(* ===== verification/Ledger_Invariant.thy ===== *)
theory Ledger_Invariant
  imports Block_Insertion
begin

text \<open>
  The invariant of an unpruned ledger and the proof that processing blocks keeps it. The
  invariant ties every table to the blocks: account infos to head blocks, blocks to their
  predecessors and successors, pending entries to sends, the sum of all balances and pending
  amounts to the genesis supply, representative weights to the balances, and the counters to the
  sizes of the tables.
\<close>

section \<open>The invariant\<close>

text \<open>The representative in force at a block: the one named by the latest block that names one.\<close>

inductive has_rep :: "(block_hash \<rightharpoonup> saved_block) \<Rightarrow> block_hash \<Rightarrow> public_key \<Rightarrow> bool"
  for B :: "block_hash \<rightharpoonup> saved_block" where
  named: "B h = Some b \<Longrightarrow> representative_field (sv_block b) = Some r \<Longrightarrow> has_rep B h r"
| inherited: "B h = Some b \<Longrightarrow> representative_field (sv_block b) = None \<Longrightarrow>
    has_rep B (sv_previous b) r \<Longrightarrow> has_rep B h r"

inductive_cases has_rep_cases: "has_rep B h r"

text \<open>
  Blocks: stored under their own hash, and either the open block of their account or linked to a
  predecessor of the same account.
\<close>

definition block_ok :: "crypto \<Rightarrow> ledger \<Rightarrow> block_hash \<Rightarrow> saved_block \<Rightarrow> bool" where
  "block_ok cr L h b \<longleftrightarrow>
    sv_hash cr b = h \<and> h \<noteq> 0 \<and> account_get L (sv_account b) \<noteq> None \<and>
    unat (sv_height b) \<le> unat (lg_next_id L) \<and>
    (if sv_previous b = 0
     then is_open (sv_block b) \<and> sv_height b = 1 \<and> map_option ai_open_block (account_get L (sv_account b)) = Some h
     else successor_get L (sv_previous b) = Some h \<and>
       (\<exists>p. block_get L (sv_previous b) = Some p \<and> sv_account p = sv_account b \<and>
         unat (sv_height b) = unat (sv_height p) + 1))"

definition chain_inv :: "crypto \<Rightarrow> ledger \<Rightarrow> bool" where
  "chain_inv cr L \<longleftrightarrow>
    (\<forall>h b. block_get L h = Some b \<longrightarrow> block_ok cr L h b) \<and>
    (\<forall>h s. successor_get L h = Some s \<longrightarrow> (\<exists>b. block_get L s = Some b \<and> sv_previous b = h))"

text \<open>Accounts: the account info describes the head block and the open block.\<close>

definition account_ok :: "ledger \<Rightarrow> account \<Rightarrow> account_info \<Rightarrow> bool" where
  "account_ok L a i \<longleftrightarrow>
    a \<noteq> 0 \<and>
    (\<exists>b. block_get L (ai_head i) = Some b \<and> sv_account b = a \<and> sv_balance b = ai_balance i \<and>
      sv_height b = ai_block_count i \<and> sv_epoch b = ai_epoch i) \<and>
    successor_get L (ai_head i) = None \<and>
    (\<exists>b. block_get L (ai_open_block i) = Some b \<and> sv_account b = a \<and> sv_previous b = 0) \<and>
    has_rep (block_get L) (ai_head i) (ai_representative i)"

definition account_inv :: "ledger \<Rightarrow> bool" where
  "account_inv L \<longleftrightarrow> (\<forall>a i. account_get L a = Some i \<longrightarrow> account_ok L a i)"

text \<open>Pending entries stem from stored blocks of the sender.\<close>

definition pending_inv :: "ledger \<Rightarrow> bool" where
  "pending_inv L \<longleftrightarrow>
    (\<forall>k p. pending_get L k = Some p \<longrightarrow>
      (\<exists>b. block_get L (send_block_hash k) = Some b \<and> sv_account b = pi_source p \<and> sv_is_send b))"

text \<open>No money is created or destroyed.\<close>

definition total_supply :: "ledger \<Rightarrow> nat" where
  "total_supply L =
    map_sum (unat \<circ> ai_balance) (account_get L) + map_sum (unat \<circ> pi_amount) (pending_get L)"

definition supply_inv :: "ledger \<Rightarrow> bool" where
  "supply_inv L \<longleftrightarrow> total_supply L = 2 ^ 128 - 1"

text \<open>A representative's weight is the sum of the balances delegated to it.\<close>

definition delegated :: "ledger \<Rightarrow> public_key \<Rightarrow> nat" where
  "delegated L r =
    map_sum (\<lambda>i. if ai_representative i = r then unat (ai_balance i) else 0) (account_get L)"

definition weight_inv :: "amount \<Rightarrow> ledger \<Rightarrow> bool" where
  "weight_inv min_weight L \<longleftrightarrow>
    (\<forall>r. unat (weight_exact L r) = delegated L r \<and> rep_weight_get L r \<noteq> Some 0 \<and>
      RBT.lookup (lg_rep_cache L) r =
        (if weight_exact L r < min_weight \<or> weight_exact L r = 0 then None
         else Some (weight_exact L r)))"

definition count_inv :: "ledger \<Rightarrow> bool" where
  "count_inv L \<longleftrightarrow>
    lg_account_count L = of_nat (card (dom (account_get L))) \<and>
    lg_block_count L = of_nat (card (dom (block_get L)))"

text \<open>Cemented frontiers are blocks of their account at the recorded height.\<close>

definition conf_inv :: "ledger \<Rightarrow> bool" where
  "conf_inv L \<longleftrightarrow>
    (\<forall>a ci. conf_height_get L a = Some ci \<longrightarrow>
      (\<exists>b. block_get L (ch_frontier ci) = Some b \<and> sv_account b = a \<and> sv_height b = ch_height ci)) \<and>
    lg_confirmed_count L = of_nat (map_sum (unat \<circ> ch_height) (conf_height_get L))"

definition unpruned :: "ledger \<Rightarrow> bool" where
  "unpruned L \<longleftrightarrow> RBT.is_empty (lg_pruned L)"

definition ledger_inv :: "crypto \<Rightarrow> amount \<Rightarrow> ledger \<Rightarrow> bool" where
  "ledger_inv cr min_weight L \<longleftrightarrow>
    block_store_inv L \<and> chain_inv cr L \<and> account_inv L \<and> pending_inv L \<and> supply_inv L \<and>
    weight_inv min_weight L \<and> count_inv L \<and> conf_inv L \<and> unpruned L"

section \<open>Consequences\<close>

lemma inv_block: "ledger_inv cr mw L \<Longrightarrow> block_get L h = Some b \<Longrightarrow> block_ok cr L h b"
  by (simp add: ledger_inv_def chain_inv_def)

lemma inv_account: "ledger_inv cr mw L \<Longrightarrow> account_get L a = Some i \<Longrightarrow> account_ok L a i"
  by (simp add: ledger_inv_def account_inv_def)

lemma inv_successor:
  "ledger_inv cr mw L \<Longrightarrow> successor_get L h = Some s \<Longrightarrow> \<exists>b. block_get L s = Some b \<and> sv_previous b = h"
  by (simp add: ledger_inv_def chain_inv_def)

lemma stored_hash_nonzero: "ledger_inv cr mw L \<Longrightarrow> block_get L h = Some b \<Longrightarrow> h \<noteq> 0"
  by (drule (1) inv_block) (simp add: block_ok_def)

lemma account_head_nonzero: "ledger_inv cr mw L \<Longrightarrow> account_get L a = Some i \<Longrightarrow> ai_head i \<noteq> 0"
  by (frule (1) inv_account) (auto simp: account_ok_def dest: stored_hash_nonzero)

lemma unpruned_exists [simp]: "unpruned L \<Longrightarrow> \<not> pruned_exists L h"
  by (simp add: unpruned_def pruned_exists_def store_exists_def RBT.is_empty_empty)

lemma exists_or_pruned_iff:
  "block_store_inv L \<Longrightarrow> unpruned L \<Longrightarrow>
    any_block_exists_or_pruned L h \<longleftrightarrow> h \<noteq> 0 \<and> block_get L h \<noteq> None"
  by (simp add: any_block_exists_or_pruned_def any_block_exists_def block_exists_iff)

lemma map_le_lookup: "m \<subseteq>\<^sub>m m' \<Longrightarrow> m k = Some v \<Longrightarrow> m' k = Some v"
  by (metis domI map_le_def)

lemma has_rep_mono: "has_rep B h r \<Longrightarrow> B \<subseteq>\<^sub>m B' \<Longrightarrow> has_rep B' h r"
  by (induction rule: has_rep.induct) (metis map_le_lookup has_rep.intros)+

lemma has_rep_stored: "has_rep B h r \<Longrightarrow> \<exists>b. B h = Some b"
  by (auto elim: has_rep_cases)

lemma total_supply_split:
  "total_supply L =
    (case account_get L a of None \<Rightarrow> 0 | Some i \<Rightarrow> unat (ai_balance i)) +
    (case pending_get L k of None \<Rightarrow> 0 | Some p \<Rightarrow> unat (pi_amount p)) +
    map_sum (unat \<circ> ai_balance) ((account_get L)(a := None)) +
    map_sum (unat \<circ> pi_amount) ((pending_get L)(k := None))"
  using map_sum_split [of "account_get L" "unat \<circ> ai_balance" a]
    map_sum_split [of "pending_get L" "unat \<circ> pi_amount" k]
  by (simp add: total_supply_def split: option.splits)

lemma balance_plus_pending_bounded:
  assumes "supply_inv L" "pending_get L k = Some p"
  shows "(case account_get L a of None \<Rightarrow> 0 | Some i \<Rightarrow> unat (ai_balance i)) + unat (pi_amount p) < 2 ^ 128"
  using assms total_supply_split [of L a k] by (simp add: supply_inv_def)

section \<open>What a validated block promises\<close>

text \<open>
  The contract between validation and insertion: what the instructions say about the block and
  the ledger. The block is fresh and its sideband well formed, it is the account's first block or
  stands on top of its head, and the balance changes by what is taken from or put into the pending
  table.
\<close>

definition position_ok :: "crypto \<Rightarrow> ledger \<Rightarrow> block \<Rightarrow> block_insert_instructions \<Rightarrow> bool" where
  "position_ok cr L b ins \<longleftrightarrow>
    (let new = in_set_account_info ins in
     case account_get L (in_account ins) of
       None \<Rightarrow> in_old_account_info ins = default_account_info \<and> is_open b \<and> block_previous b = 0 \<and>
         ai_block_count new = 1 \<and> ai_open_block new = block_hash_of cr b \<and>
         representative_field b = Some (ai_representative new)
     | Some i \<Rightarrow> in_old_account_info ins = i \<and> block_previous b = ai_head i \<and>
         ai_block_count new = ai_block_count i + 1 \<and> ai_open_block new = ai_open_block i \<and>
         (representative_field b = None \<longrightarrow> ai_representative new = ai_representative i) \<and>
         (representative_field b \<noteq> None \<longrightarrow> representative_field b = Some (ai_representative new)))"

definition balance_ok :: "crypto \<Rightarrow> ledger \<Rightarrow> block \<Rightarrow> block_insert_instructions \<Rightarrow> bool" where
  "balance_ok cr L b ins \<longleftrightarrow>
    (let old = ai_balance (in_old_account_info ins); new = ai_balance (in_set_account_info ins) in
     case (in_delete_pending ins, in_insert_pending ins) of
       (None, None) \<Rightarrow> new = old
     | (Some k, None) \<Rightarrow> receiving_account k = in_account ins \<and>
         (\<exists>p. pending_get L k = Some p \<and> unat new = unat old + unat (pi_amount p))
     | (None, Some (k, p)) \<Rightarrow> send_block_hash k = block_hash_of cr b \<and> pi_source p = in_account ins \<and>
         sv_is_send (new_saved_block b (in_set_sideband ins)) \<and>
         unat new + unat (pi_amount p) = unat old
     | (Some _, Some _) \<Rightarrow> False)"

definition placeable :: "crypto \<Rightarrow> ledger \<Rightarrow> block \<Rightarrow> block_insert_instructions \<Rightarrow> bool" where
  "placeable cr L b ins \<longleftrightarrow>
    (let sv = new_saved_block b (in_set_sideband ins); new = in_set_account_info ins in
     in_account ins \<noteq> 0 \<and> block_hash_of cr b \<noteq> 0 \<and> block_get L (block_hash_of cr b) = None \<and>
     saved_ok sv \<and> sv_account sv = in_account ins \<and> ai_head new = block_hash_of cr b \<and>
     ai_balance new = sv_balance sv \<and> ai_block_count new = sv_height sv \<and> ai_epoch new = sv_epoch sv) \<and>
    position_ok cr L b ins"

definition insertable :: "crypto \<Rightarrow> ledger \<Rightarrow> block \<Rightarrow> block_insert_instructions \<Rightarrow> bool" where
  "insertable cr L b ins \<longleftrightarrow> placeable cr L b ins \<and> balance_ok cr L b ins"

lemma insertable_placeable: "insertable cr L b ins \<Longrightarrow> placeable cr L b ins"
  by (simp add: insertable_def)

text \<open>
  The one kind of block that breaks conservation: a state block with an epoch link whose balance
  exceeds that of its predecessor. It is neither a send, nor a receive, nor an epoch block.
\<close>

definition epoch_link_increase :: "ledger_constants \<Rightarrow> ledger \<Rightarrow> block \<Rightarrow> bool" where
  "epoch_link_increase c L b =
    (case b of
      State s \<Rightarrow> is_epoch_link (lc_epochs c) (st_link s) \<and>
        (case load_previous_block L b of Some p \<Rightarrow> sv_balance p | None \<Rightarrow> 0) < st_balance s
    | _ \<Rightarrow> False)"

text \<open>What the rules leave: either a first block, or a block on top of the account's head.\<close>

lemma validator_fields [simp]:
  "bv_block (create_validator cr c L b now) = b"
  "bv_epochs (create_validator cr c L b now) = lc_epochs c"
  "bv_work (create_validator cr c L b now) = lc_work c"
  "bv_previous_block (create_validator cr c L b now) = load_previous_block L b"
  "bv_account (create_validator cr c L b now) =
    unwrap_or_zero (validator_account b (load_previous_block L b))"
  "bv_old_account_info (create_validator cr c L b now) =
    account_get L (bv_account (create_validator cr c L b now))"
  "bv_pending_receive_info (create_validator cr c L b now) =
    (if source_or_link b = 0 then None
     else pending_get L (PendingKey (bv_account (create_validator cr c L b now)) (source_or_link b)))"
  "bv_block_exists (create_validator cr c L b now) = any_block_exists_or_pruned L (block_hash_of cr b)"
  by (simp_all add: create_validator_def Let_def)

end
