(* ===== verification/Insertion_Effects.thy ===== *)
theory Insertion_Effects
  imports Ledger_Invariant
begin

text \<open>
  What an insertion does to each table. The operations of the code are composed from puts and
  deletes that may panic; under the ledger invariant and the contract \<open>insertable\<close> they all succeed,
  and their combined effect is the abstract update \<open>inserted\<close> on the maps the tables stand for.
\<close>

section \<open>Frames\<close>

text \<open>The block tables are untouched by every other update.\<close>

lemma block_frame [simp]:
  "block_get (L\<lparr> lg_account := x1 \<rparr>) = block_get L"
  "block_get (L\<lparr> lg_pending := x2 \<rparr>) = block_get L"
  "block_get (L\<lparr> lg_rep_weight := x3 \<rparr>) = block_get L"
  "block_get (L\<lparr> lg_rep_cache := x4 \<rparr>) = block_get L"
  "block_get (L\<lparr> lg_conf_height := x5 \<rparr>) = block_get L"
  "block_get (L\<lparr> lg_successors := x6 \<rparr>) = block_get L"
  "block_get (L\<lparr> lg_account_count := n1 \<rparr>) = block_get L"
  "block_get (L\<lparr> lg_block_count := n2 \<rparr>) = block_get L"
  "block_get (L\<lparr> lg_confirmed_count := n3 \<rparr>) = block_get L"
  "block_get (L\<lparr> lg_final_vote := x7 \<rparr>) = block_get L"
  by (simp_all add: fun_eq_iff block_get_def block_raw_get_def)

lemma block_store_inv_frame:
  "block_store_inv L \<Longrightarrow> lg_index L' = lg_index L \<Longrightarrow> lg_block_data L' = lg_block_data L \<Longrightarrow>
    lg_next_id L' = lg_next_id L \<Longrightarrow> block_store_inv L'"
  by (simp add: block_store_inv_def block_id_def block_get_def block_raw_get_def)

lemma block_get_frame:
  "lg_index L' = lg_index L \<Longrightarrow> lg_block_data L' = lg_block_data L \<Longrightarrow> block_get L' = block_get L"
  by (simp add: fun_eq_iff block_get_def block_raw_get_def)

section \<open>Representative weights\<close>

text \<open>A dual update moves weight, and fails only on a corrupt table.\<close>

definition weight_map :: "(public_key \<rightharpoonup> amount) \<Rightarrow> public_key \<Rightarrow> amount \<Rightarrow> public_key \<rightharpoonup> amount" where
  "weight_map W r w = W(r := (if w = 0 then None else Some w))"

lemma put_store_view:
  assumes "previous = unwrap_or_zero (rep_weight_get L r)" "\<forall>r. rep_weight_get L r \<noteq> Some 0"
  shows "\<exists>t. put_store L r previous w = Some (L\<lparr> lg_rep_weight := t \<rparr>) \<and>
    store_get (read_be 16) t = weight_map (rep_weight_get L) r w"
proof (cases "w = 0 \<and> previous \<noteq> 0")
  case True
  then have "rep_weight_get L r \<noteq> None"
    using assms by (cases "rep_weight_get L r") auto
  then show ?thesis
    using True by (auto simp: put_store_def rep_weight_del_def rep_weight_get_def weight_map_def
        del_existing_get store_get_del)
next
  case False
  show ?thesis
  proof (cases "w = 0")
    case True
    then have "rep_weight_get L r = None"
      using False assms by (cases "rep_weight_get L r") auto
    with True False show ?thesis
      by (intro exI [of _ "lg_rep_weight L"])
        (auto simp: put_store_def rep_weight_get_def weight_map_def fun_upd_idem)
  next
    case False
    then show ?thesis
      by (auto simp: put_store_def rep_weight_put_def rep_weight_get_def weight_map_def u128_be.store_get_put)
  qed
qed

lemma weight_map_nonzero: "\<forall>r. W r \<noteq> Some 0 \<Longrightarrow> weight_map W r w r' \<noteq> Some 0"
  by (simp add: weight_map_def)

lemma unwrap_weight_map: "unwrap_or_zero (weight_map W r w r') = (if r' = r then w else unwrap_or_zero (W r'))"
  by (simp add: weight_map_def)

lemma representation_add_view:
  fixes r :: public_key and amt :: amount
  assumes "\<forall>r. rep_weight_get L r \<noteq> Some 0"
  defines "w \<equiv> weight_exact L r + amt"
  shows "\<exists>t. representation_add mw L r amt =
      Some (L\<lparr> lg_rep_weight := t, lg_rep_cache := put_cache mw (lg_rep_cache L) r w \<rparr>) \<and>
    store_get (read_be 16) t = weight_map (rep_weight_get L) r w"
  using put_store_view [OF refl assms(1), of r w]
  by (auto simp: representation_add_def w_def weight_exact_def set_cache_def Let_def)

lemma representation_add_dual_view:
  fixes a1 a2 :: amount
  assumes "\<forall>r. rep_weight_get L r \<noteq> Some 0" "r1 \<noteq> r2"
  defines "w1 \<equiv> weight_exact L r1 + a1" and "w2 \<equiv> weight_exact L r2 + a2"
  shows "\<exists>t. representation_add_dual mw L r1 a1 r2 a2 =
      Some (L\<lparr> lg_rep_weight := t,
        lg_rep_cache := put_cache mw (put_cache mw (lg_rep_cache L) r1 w1) r2 w2 \<rparr>) \<and>
    store_get (read_be 16) t = weight_map (weight_map (rep_weight_get L) r1 w1) r2 w2"
proof -
  obtain t where t: "put_store L r1 (weight_exact L r1) w1 = Some (L\<lparr> lg_rep_weight := t \<rparr>)"
    "store_get (read_be 16) t = weight_map (rep_weight_get L) r1 w1"
    using put_store_view [OF refl assms(1), of r1 w1] by (auto simp: weight_exact_def)
  let ?L = "L\<lparr> lg_rep_weight := t \<rparr>"
  have W: "rep_weight_get ?L = weight_map (rep_weight_get L) r1 w1"
    using t by (simp add: rep_weight_get_def)
  have "weight_exact L r2 = unwrap_or_zero (rep_weight_get ?L r2)"
    using assms(2) by (simp add: W unwrap_weight_map weight_exact_def)
  moreover have "\<forall>r. rep_weight_get ?L r \<noteq> Some 0"
    using weight_map_nonzero [OF assms(1)] by (simp add: W)
  ultimately obtain t' where "put_store ?L r2 (weight_exact L r2) w2 = Some (?L\<lparr> lg_rep_weight := t' \<rparr>)"
    "store_get (read_be 16) t' = weight_map (rep_weight_get ?L) r2 w2"
    using put_store_view [of "weight_exact L r2" ?L r2 w2] by auto
  with t W assms(2) show ?thesis
    by (auto simp: representation_add_dual_def w1_def w2_def weight_exact_def set_cache_def Let_def)
qed

text \<open>The weights as a function of the delegated balances.\<close>

definition weights_ok ::
  "amount \<Rightarrow> (public_key \<rightharpoonup> amount) \<Rightarrow> (public_key, amount) rbt \<Rightarrow> (public_key \<Rightarrow> nat) \<Rightarrow> bool" where
  "weights_ok mw W cache D \<longleftrightarrow>
    (\<forall>r. unat (unwrap_or_zero (W r)) = D r \<and> W r \<noteq> Some 0 \<and>
      RBT.lookup cache r =
        (if unwrap_or_zero (W r) < mw \<or> unwrap_or_zero (W r) = 0 then None
         else Some (unwrap_or_zero (W r))))"

lemma weight_inv_weights_ok:
  "weight_inv mw L \<longleftrightarrow> weights_ok mw (rep_weight_get L) (lg_rep_cache L) (delegated L)"
  by (simp add: weight_inv_def weights_ok_def weight_exact_def)

lemma weights_ok_set:
  "weights_ok mw W cache D \<Longrightarrow> unat w = d \<Longrightarrow>
    weights_ok mw (weight_map W r w) (put_cache mw cache r w) (D(r := d))"
  by (auto simp: weights_ok_def weight_map_def put_cache_def)

lemma unat_move:
  fixes x :: amount
  assumes "unat old \<le> unat x" "unat x - unat old + unat new < 2 ^ 128"
  shows "unat (x + (0 - old + new)) = unat x - unat old + unat new"
proof -
  have eq: "x + (0 - old + new) = (x - old) + new" by simp
  have "unat (x - old) = unat x - unat old"
    using assms by (intro unat_sub_amount) (simp add: word_le_nat_alt)
  with assms unat_add_amount [of "x - old" new] show ?thesis
    unfolding eq by simp
qed

section \<open>The effects of an insertion\<close>

lemma update_account_view:
  assumes "ai_head new \<noteq> 0" "ai_head old \<noteq> 0 \<Longrightarrow> account_get L a \<noteq> None"
  shows "\<exists>t. update_account L a old new =
      Some (L\<lparr> lg_account := t, lg_account_count := lg_account_count L +
        (if ai_head old = 0 \<and> ai_open_block new = ai_head new then 1 else 0) \<rparr>) \<and>
    store_get deserialize_account_info t = (account_get L)(a \<mapsto> new)"
proof -
  have put: "store_get deserialize_account_info (store_put serialize_account_info t a new)
      = (store_get deserialize_account_info t)(a \<mapsto> new)" for t
    by (rule account_info_codec.store_get_put)
  have del: "ai_head old \<noteq> 0 \<Longrightarrow> del_existing (lg_account L) a = Some (store_del (lg_account L) a)"
    using assms by (auto simp: account_get_def del_existing_get)
  show ?thesis
    using assms(1) del
    by (cases L) (auto simp: update_account_def account_del_def account_put_def account_get_def put
        store_get_del Let_def)
qed

lemma delete_old_pending_view:
  assumes "\<And>k. in_delete_pending ins = Some k \<Longrightarrow> pending_get L k \<noteq> None"
  shows "\<exists>t. delete_old_pending_info L ins = Some (L\<lparr> lg_pending := t \<rparr>) \<and>
    store_get deserialize_pending_info t =
      (case in_delete_pending ins of None \<Rightarrow> pending_get L | Some k \<Rightarrow> (pending_get L)(k := None))"
  using assms
  by (cases L; cases "in_delete_pending ins")
    (auto simp: delete_old_pending_info_def pending_del_def pending_get_def del_existing_get store_get_del)

lemma insert_new_pending_view:
  "\<exists>t. insert_new_pending_info L ins = L\<lparr> lg_pending := t \<rparr> \<and>
    store_get deserialize_pending_info t =
      (case in_insert_pending ins of None \<Rightarrow> pending_get L | Some (k, p) \<Rightarrow> (pending_get L)(k \<mapsto> p))"
  by (cases L; cases "in_insert_pending ins")
    (auto simp: insert_new_pending_info_def pending_put_def pending_get_def pending_info_codec.store_get_put)

lemma update_representative_view:
  fixes ins :: block_insert_instructions
  assumes nz: "\<forall>r. rep_weight_get L r \<noteq> Some 0"
  defines "old \<equiv> in_old_account_info ins" and "new \<equiv> in_set_account_info ins"
  assumes zero: "ai_head old = 0 \<Longrightarrow> ai_balance old = 0 \<and> ai_representative old = 0"
    and ok: "weights_ok mw (rep_weight_get L) (lg_rep_cache L) D"
    and le: "unat (ai_balance old) \<le> D (ai_representative old)"
    and bound: "\<And>r. D r - (if ai_representative old = r then unat (ai_balance old) else 0)
      + (if ai_representative new = r then unat (ai_balance new) else 0) < 2 ^ 128"
  shows "\<exists>t c. update_representative_cache mw L ins = Some (L\<lparr> lg_rep_weight := t, lg_rep_cache := c \<rparr>) \<and>
    weights_ok mw (store_get (read_be 16) t) c
      (\<lambda>r. D r - (if ai_representative old = r then unat (ai_balance old) else 0)
        + (if ai_representative new = r then unat (ai_balance new) else 0))"
    (is "\<exists>t c. _ \<and> weights_ok mw _ c ?D")
proof -
  have w: "unat (weight_exact L r) = D r" for r
    using ok by (simp add: weights_ok_def weight_exact_def)
  let ?r1 = "ai_representative old" and ?r2 = "ai_representative new"
  consider (fresh) "ai_head old = 0" | (same) "ai_head old \<noteq> 0" "?r1 = ?r2"
    | (moved) "ai_head old \<noteq> 0" "?r1 \<noteq> ?r2" by blast
  then show ?thesis
  proof cases
    case fresh
    let ?w = "weight_exact L ?r2 + ai_balance new"
    have z: "ai_balance old = 0"
      using zero [OF fresh] by simp
    have "unat (weight_exact L ?r2) + unat (ai_balance new) < 2 ^ 128"
      using bound [of ?r2] z w [of ?r2] by (simp split: if_splits)
    then have "unat ?w = ?D ?r2"
      using z w [of ?r2] by (simp add: unat_add_amount)
    moreover have "D(?r2 := ?D ?r2) = ?D"
      using z by auto
    ultimately show ?thesis
      using representation_add_view [OF nz, of mw ?r2 "ai_balance new"] fresh
        weights_ok_set [OF ok, of ?w "?D ?r2" ?r2]
      by (force simp: update_representative_cache_def old_def new_def)
  next
    case same
    let ?w = "weight_exact L ?r2 + (0 - ai_balance old + ai_balance new)"
    have "unat ?w = ?D ?r2"
      using unat_move [of "ai_balance old" "weight_exact L ?r2" "ai_balance new"] bound [of ?r2] same w le
      by simp
    moreover have "D(?r2 := ?D ?r2) = ?D"
      using same by auto
    ultimately show ?thesis
      using representation_add_view [OF nz, of mw ?r2 "0 - ai_balance old + ai_balance new"] same
        weights_ok_set [OF ok, of ?w "?D ?r2" ?r2]
      by (force simp: update_representative_cache_def representation_add_dual_def old_def new_def)
  next
    case moved
    let ?w1 = "weight_exact L ?r1 + (0 - ai_balance old)"
    let ?w2 = "weight_exact L ?r2 + ai_balance new"
    have "unat ?w1 = ?D ?r1"
      using unat_move [of "ai_balance old" "weight_exact L ?r1" 0] bound [of ?r1] moved w le by simp
    moreover have "unat ?w2 = ?D ?r2"
      using bound [of ?r2] moved w [of ?r2] by (simp add: unat_add_amount)
    moreover have "D(?r1 := ?D ?r1, ?r2 := ?D ?r2) = ?D"
      using moved by auto
    ultimately show ?thesis
      using representation_add_dual_view [OF nz moved(2), of mw "0 - ai_balance old" "ai_balance new"] moved
        weights_ok_set [OF weights_ok_set [OF ok, of ?w1 "?D ?r1" ?r1], of ?w2 "?D ?r2" ?r2]
      by (force simp: update_representative_cache_def old_def new_def)
  qed
qed

section \<open>The abstract insertion\<close>

definition pending_after ::
  "(pending_key \<rightharpoonup> pending_info) \<Rightarrow> block_insert_instructions \<Rightarrow> pending_key \<rightharpoonup> pending_info" where
  "pending_after P ins =
    (let P1 = (case in_delete_pending ins of None \<Rightarrow> P | Some k \<Rightarrow> P(k := None))
     in case in_insert_pending ins of None \<Rightarrow> P1 | Some (k, p) \<Rightarrow> P1(k \<mapsto> p))"

definition inserted :: "crypto \<Rightarrow> ledger \<Rightarrow> block \<Rightarrow> block_insert_instructions \<Rightarrow> ledger \<Rightarrow> bool" where
  "inserted cr L b ins L' \<longleftrightarrow>
    block_get L' = (block_get L)(block_hash_of cr b \<mapsto> new_saved_block b (in_set_sideband ins)) \<and>
    account_get L' = (account_get L)(in_account ins \<mapsto> in_set_account_info ins) \<and>
    pending_get L' = pending_after (pending_get L) ins \<and>
    successor_get L' =
      (if block_previous b = 0 then successor_get L
       else (successor_get L)(block_previous b \<mapsto> block_hash_of cr b)) \<and>
    conf_height_get L' = conf_height_get L \<and>
    lg_pruned L' = lg_pruned L \<and>
    lg_final_vote L' = lg_final_vote L \<and>
    lg_confirmed_count L' = lg_confirmed_count L \<and>
    lg_next_id L' = lg_next_id L + 1 \<and>
    lg_block_count L' = lg_block_count L + 1 \<and>
    lg_account_count L' = lg_account_count L + (if account_get L (in_account ins) = None then 1 else 0)"

definition supply_of :: "(account \<rightharpoonup> account_info) \<Rightarrow> (pending_key \<rightharpoonup> pending_info) \<Rightarrow> nat" where
  "supply_of A P = map_sum (unat \<circ> ai_balance) A + map_sum (unat \<circ> pi_amount) P"

lemma total_supply_of: "total_supply L = supply_of (account_get L) (pending_get L)"
  by (simp add: total_supply_def supply_of_def)

lemma delegated_upd:
  assumes "account_get L' = (account_get L)(a \<mapsto> new)"
    and "old = (case account_get L a of None \<Rightarrow> default_account_info | Some i \<Rightarrow> i)"
  shows "delegated L' r = delegated L r
      - (if ai_representative old = r then unat (ai_balance old) else 0)
      + (if ai_representative new = r then unat (ai_balance new) else 0)"
    and "unat (ai_balance old) \<le> delegated L (ai_representative old)"
proof -
  let ?f = "\<lambda>r i. if ai_representative i = r then unat (ai_balance i) else 0"
  have split: "delegated L r = (case account_get L a of None \<Rightarrow> 0 | Some i \<Rightarrow> ?f r i)
      + map_sum (?f r) ((account_get L)(a := None))" for r
    unfolding delegated_def by (rule map_sum_split) simp
  have "delegated L' r = ?f r new + map_sum (?f r) ((account_get L)(a := None))"
    unfolding delegated_def assms(1) by (rule map_sum_upd) simp
  then show "delegated L' r = delegated L r
      - (if ai_representative old = r then unat (ai_balance old) else 0)
      + (if ai_representative new = r then unat (ai_balance new) else 0)"
    using split [of r] assms(2) by (auto simp: default_account_info_def split: option.splits)
  show "unat (ai_balance old) \<le> delegated L (ai_representative old)"
    using split [of "ai_representative old"] assms(2)
    by (auto simp: default_account_info_def split: option.splits)
qed

lemma map_sum_mono: "(\<And>i. f i \<le> g i) \<Longrightarrow> map_sum f m \<le> map_sum g m"
  by (simp add: map_sum_def sum_mono)

lemma delegated_le_supply: "delegated L r \<le> total_supply L"
proof -
  have "delegated L r \<le> map_sum (unat \<circ> ai_balance) (account_get L)"
    unfolding delegated_def by (rule map_sum_mono) simp
  then show ?thesis by (simp add: total_supply_def)
qed

lemma placeable_basic:
  assumes "placeable cr L b ins"
  shows "in_account ins \<noteq> 0" "block_hash_of cr b \<noteq> 0" "block_get L (block_hash_of cr b) = None"
    "saved_ok (new_saved_block b (in_set_sideband ins))"
    "sv_account (new_saved_block b (in_set_sideband ins)) = in_account ins"
    "ai_head (in_set_account_info ins) = block_hash_of cr b"
    "ai_balance (in_set_account_info ins) = sv_balance (new_saved_block b (in_set_sideband ins))"
    "ai_block_count (in_set_account_info ins) = sv_height (new_saved_block b (in_set_sideband ins))"
    "ai_epoch (in_set_account_info ins) = sv_epoch (new_saved_block b (in_set_sideband ins))"
  using assms by (simp_all add: placeable_def Let_def)

lemmas insertable_basic = placeable_basic [OF insertable_placeable]

lemma insertable_delta:
  assumes "insertable cr L b ins"
  shows "in_delete_pending ins = None \<Longrightarrow> in_insert_pending ins = None \<Longrightarrow>
      ai_balance (in_set_account_info ins) = ai_balance (in_old_account_info ins)"
    and "in_delete_pending ins = Some k \<Longrightarrow> in_insert_pending ins = None \<and>
      receiving_account k = in_account ins \<and>
      (\<exists>p. pending_get L k = Some p \<and> unat (ai_balance (in_set_account_info ins)) =
        unat (ai_balance (in_old_account_info ins)) + unat (pi_amount p))"
    and "in_insert_pending ins = Some (k, p) \<Longrightarrow> in_delete_pending ins = None \<and>
      send_block_hash k = block_hash_of cr b \<and> pi_source p = in_account ins \<and>
      sv_is_send (new_saved_block b (in_set_sideband ins)) \<and>
      unat (ai_balance (in_set_account_info ins)) + unat (pi_amount p) =
        unat (ai_balance (in_old_account_info ins))"
  using assms by (auto simp: insertable_def balance_ok_def Let_def split: option.splits)

lemma placeable_position: "placeable cr L b ins \<Longrightarrow> position_ok cr L b ins"
  by (simp add: placeable_def)

lemma placeable_old:
  "placeable cr L b ins \<Longrightarrow>
    in_old_account_info ins = (case account_get L (in_account ins) of None \<Rightarrow> default_account_info | Some i \<Rightarrow> i)"
  by (auto simp: placeable_def position_ok_def Let_def split: option.splits)

lemmas insertable_position = placeable_position [OF insertable_placeable]

lemmas insertable_old = placeable_old [OF insertable_placeable]

lemma pending_fresh: "pending_inv L \<Longrightarrow> block_get L (send_block_hash k) = None \<Longrightarrow> pending_get L k = None"
  by (cases "pending_get L k") (force simp: pending_inv_def)+

lemma insertable_supply:
  assumes ins: "insertable cr L b ins" and "pending_inv L"
  shows "supply_of ((account_get L)(in_account ins \<mapsto> in_set_account_info ins))
      (pending_after (pending_get L) ins) = total_supply L"
proof -
  let ?A = "account_get L" and ?P = "pending_get L" and ?a = "in_account ins"
  let ?new = "in_set_account_info ins" and ?old = "in_old_account_info ins"
  have A: "map_sum (unat \<circ> ai_balance) (?A(?a \<mapsto> ?new)) + unat (ai_balance ?old)
      = unat (ai_balance ?new) + map_sum (unat \<circ> ai_balance) ?A"
    using map_sum_split [of ?A "unat \<circ> ai_balance" ?a] map_sum_upd [of ?A "unat \<circ> ai_balance" ?a ?new]
      insertable_old [OF ins]
    by (auto simp: default_account_info_def split: option.splits)
  have "in_delete_pending ins = None \<or> in_insert_pending ins = None"
    using insertable_delta(2) [OF ins] by (cases "in_delete_pending ins") auto
  then consider (none) "in_delete_pending ins = None" "in_insert_pending ins = None"
    | (del) k where "in_delete_pending ins = Some k" "in_insert_pending ins = None"
    | (ins) k p where "in_delete_pending ins = None" "in_insert_pending ins = Some (k, p)"
    by (cases "in_delete_pending ins"; cases "in_insert_pending ins") auto
  then show ?thesis
  proof cases
    case none
    with insertable_delta(1) [OF ins] A show ?thesis
      by (simp add: supply_of_def total_supply_def pending_after_def)
  next
    case (del k)
    then obtain p where p: "?P k = Some p"
      "unat (ai_balance ?new) = unat (ai_balance ?old) + unat (pi_amount p)"
      using insertable_delta(2) [OF ins] by blast
    have "map_sum (unat \<circ> pi_amount) ?P = unat (pi_amount p) + map_sum (unat \<circ> pi_amount) (?P(k := None))"
      using map_sum_split [of ?P "unat \<circ> pi_amount" k] p by simp
    with A del p show ?thesis
      by (simp add: supply_of_def total_supply_def pending_after_def)
  next
    case (ins k p)
    have eq: "unat (ai_balance ?new) + unat (pi_amount p) = unat (ai_balance ?old)"
      and "send_block_hash k = block_hash_of cr b" "block_get L (block_hash_of cr b) = None"
      using insertable_delta(3) [OF assms(1) ins(2)] insertable_basic(3) [OF assms(1)] by auto
    then have "?P k = None"
      using pending_fresh [OF assms(2), of k] by simp
    then have "map_sum (unat \<circ> pi_amount) (?P(k \<mapsto> p)) = unat (pi_amount p) + map_sum (unat \<circ> pi_amount) ?P"
      using map_sum_upd [of ?P "unat \<circ> pi_amount" k p] by (simp add: map_sum_del_eq)
    with A ins eq show ?thesis
      by (simp add: supply_of_def total_supply_def pending_after_def)
  qed
qed

section \<open>An insertion succeeds\<close>

lemma not_changed: "placeable cr L b ins \<Longrightarrow> \<not> account_changed_since_validation L ins"
  using placeable_old [of cr L b ins] by (auto simp: account_changed_since_validation_def split: option.splits)

lemma placeable_head:
  "ledger_inv cr mw L \<Longrightarrow> placeable cr L b ins \<Longrightarrow>
    ai_head (in_old_account_info ins) = 0 \<longleftrightarrow> account_get L (in_account ins) = None"
  by (cases "account_get L (in_account ins)")
    (auto simp: placeable_old default_account_info_def dest: account_head_nonzero)

lemmas insertable_head = placeable_head [OF _ insertable_placeable]

text \<open>The block, successor and account tables.\<close>

lemma insert_block_and_account:
  assumes inv: "ledger_inv cr mw L" and ins: "placeable cr L b ins" and room: "lg_next_id L < - 1"
  defines "sv \<equiv> new_saved_block b (in_set_sideband ins)"
  obtains i d s t where
    "(do { L \<leftarrow> block_put cr L sv;
       let L = (if sv_previous sv \<noteq> 0 then successor_put L (sv_previous sv) (sv_hash cr sv) else L);
       update_account L (in_account ins) (in_old_account_info ins) (in_set_account_info ins) })
     = Some (L\<lparr> lg_index := i, lg_block_data := d, lg_next_id := lg_next_id L + 1, lg_successors := s,
         lg_account := t, lg_account_count :=
           lg_account_count L + (if account_get L (in_account ins) = None then 1 else 0) \<rparr>)"
    "block_get (L\<lparr> lg_index := i, lg_block_data := d \<rparr>) = (block_get L)(block_hash_of cr b \<mapsto> sv)"
    "block_store_inv (L\<lparr> lg_index := i, lg_block_data := d, lg_next_id := lg_next_id L + 1 \<rparr>)"
    "store_get (read_be 32) s = (if block_previous b = 0 then successor_get L
       else (successor_get L)(block_previous b \<mapsto> block_hash_of cr b))"
    "store_get deserialize_account_info t = (account_get L)(in_account ins \<mapsto> in_set_account_info ins)"
proof -
  let ?h = "block_hash_of cr b" and ?a = "in_account ins"
  let ?new = "in_set_account_info ins" and ?old = "in_old_account_info ins"
  note basic = placeable_basic [OF ins, folded sv_def]
  have sv: "sv_block sv = b"
    by (simp add: sv_def new_saved_block_def)
  have store: "block_store_inv L"
    using inv by (simp add: ledger_inv_def)
  obtain i d where L1: "block_put cr L sv = Some (L\<lparr> lg_index := i, lg_block_data := d, lg_next_id := lg_next_id L + 1 \<rparr>)"
    and get: "block_get (L\<lparr> lg_index := i, lg_block_data := d, lg_next_id := lg_next_id L + 1 \<rparr>) = (block_get L)(?h \<mapsto> sv)"
    and store': "block_store_inv (L\<lparr> lg_index := i, lg_block_data := d, lg_next_id := lg_next_id L + 1 \<rparr>)"
    using block_map.put_fresh [OF store room basic(4) basic(3)] raw_put_fresh [OF store basic(3)]
    by (auto simp: block_put_def sv)
  let ?L1 = "L\<lparr> lg_index := i, lg_block_data := d, lg_next_id := lg_next_id L + 1 \<rparr>"
  obtain s where s: "(if sv_previous sv \<noteq> 0 then successor_put ?L1 (sv_previous sv) (sv_hash cr sv) else ?L1)
      = ?L1\<lparr> lg_successors := s \<rparr>"
    "store_get (read_be 32) s = (if block_previous b = 0 then successor_get L
       else (successor_get L)(block_previous b \<mapsto> ?h))"
    by (cases L; cases "block_previous b = 0")
      (auto simp: successor_put_def successor_get_def sv u256_be.store_get_put)
  let ?L2 = "?L1\<lparr> lg_successors := s \<rparr>"
  have acc: "account_get ?L2 = account_get L"
    by (simp add: account_get_def)
  have open_head: "account_get L ?a = None \<Longrightarrow> ai_open_block ?new = ai_head ?new"
    using placeable_position [OF ins] basic(6) by (simp add: position_ok_def Let_def)
  obtain t where "update_account ?L2 ?a ?old ?new = Some (?L2\<lparr> lg_account := t, lg_account_count :=
      lg_account_count L + (if account_get L ?a = None then 1 else 0) \<rparr>)"
    "store_get deserialize_account_info t = (account_get L)(?a \<mapsto> ?new)"
    using update_account_view [of ?new ?old ?L2 ?a] basic placeable_head [OF inv ins] acc open_head
    by auto
  then show thesis
    using L1 get store' s that [where i = i and d = d and s = s and t = t]
      block_get_frame [of ?L1 "L\<lparr> lg_index := i, lg_block_data := d \<rparr>"]
    by (simp add: Let_def)
qed

text \<open>The pending table and the weights.\<close>

lemma insert_pending_and_weights:
  assumes inv: "ledger_inv cr mw L" and ins: "insertable cr L b ins"
    and same: "lg_pending L1 = lg_pending L" "lg_rep_weight L1 = lg_rep_weight L" "lg_rep_cache L1 = lg_rep_cache L"
  obtains p w c where
    "(do { L \<leftarrow> delete_old_pending_info L1 ins;
       let L = insert_new_pending_info L ins;
       update_representative_cache mw L ins })
     = Some (L1\<lparr> lg_pending := p, lg_rep_weight := w, lg_rep_cache := c \<rparr>)"
    "store_get deserialize_pending_info p = pending_after (pending_get L) ins"
    "\<And>L'. account_get L' = (account_get L)(in_account ins \<mapsto> in_set_account_info ins) \<Longrightarrow>
       weights_ok mw (store_get (read_be 16) w) c (delegated L')"
proof -
  let ?old = "in_old_account_info ins" and ?new = "in_set_account_info ins"
  have pend: "pending_get L1 = pending_get L" and wgt: "rep_weight_get L1 = rep_weight_get L"
    using same by (simp_all add: pending_get_def rep_weight_get_def)
  obtain p1 where p1: "delete_old_pending_info L1 ins = Some (L1\<lparr> lg_pending := p1 \<rparr>)"
    "store_get deserialize_pending_info p1 =
      (case in_delete_pending ins of None \<Rightarrow> pending_get L | Some k \<Rightarrow> (pending_get L)(k := None))"
    using delete_old_pending_view [of ins L1] insertable_delta(2) [OF ins] unfolding pend by blast
  obtain p where p: "insert_new_pending_info (L1\<lparr> lg_pending := p1 \<rparr>) ins = L1\<lparr> lg_pending := p \<rparr>"
    "store_get deserialize_pending_info p = pending_after (pending_get L) ins"
  proof -
    obtain p where "insert_new_pending_info (L1\<lparr> lg_pending := p1 \<rparr>) ins = L1\<lparr> lg_pending := p \<rparr>"
      and p: "store_get deserialize_pending_info p = (case in_insert_pending ins of
          None \<Rightarrow> pending_get (L1\<lparr> lg_pending := p1 \<rparr>)
        | Some (k, p) \<Rightarrow> (pending_get (L1\<lparr> lg_pending := p1 \<rparr>))(k \<mapsto> p))"
      using insert_new_pending_view [of "L1\<lparr> lg_pending := p1 \<rparr>" ins] by auto
    moreover have "pending_get (L1\<lparr> lg_pending := p1 \<rparr>) = store_get deserialize_pending_info p1"
      by (simp add: pending_get_def)
    ultimately show thesis
      using that [of p] p1(2) by (simp add: pending_after_def Let_def split: option.splits)
  qed
  let ?L2 = "L1\<lparr> lg_pending := p \<rparr>"
  let ?A' = "(account_get L)(in_account ins \<mapsto> ?new)"
  let ?D = "\<lambda>r. delegated L r - (if ai_representative ?old = r then unat (ai_balance ?old) else 0)
      + (if ai_representative ?new = r then unat (ai_balance ?new) else 0)"
  have D: "delegated L' = ?D" if "account_get L' = ?A'" for L'
    using delegated_upd(1) [OF that insertable_old [OF ins]] by blast
  have "weights_ok mw (rep_weight_get ?L2) (lg_rep_cache ?L2) (delegated L)"
    using inv same wgt by (simp add: ledger_inv_def weight_inv_weights_ok rep_weight_get_def)
  moreover have "?D r < 2 ^ 128" for r
  proof -
    let ?L' = "L\<lparr> lg_account := store_put serialize_account_info (lg_account L) (in_account ins) ?new, lg_pending := p \<rparr>"
    have A': "account_get ?L' = ?A'"
      by (simp add: account_get_def account_info_codec.store_get_put)
    have "total_supply ?L' = total_supply L"
      using insertable_supply [OF ins] inv A' p(2)
      by (simp add: total_supply_of ledger_inv_def pending_get_def)
    then have "delegated ?L' r \<le> 2 ^ 128 - 1"
      using delegated_le_supply [of ?L' r] inv by (simp add: ledger_inv_def supply_inv_def)
    then show ?thesis using D [OF A'] by simp
  qed
  moreover have "\<forall>r. rep_weight_get ?L2 r \<noteq> Some 0"
    using inv wgt by (simp add: ledger_inv_def weight_inv_def rep_weight_get_def)
  moreover have "ai_head ?old = 0 \<Longrightarrow> ai_balance ?old = 0 \<and> ai_representative ?old = 0"
    using insertable_head [OF inv ins] insertable_old [OF ins] by (simp add: default_account_info_def)
  moreover have "unat (ai_balance ?old) \<le> delegated L (ai_representative ?old)"
    using delegated_upd(2) [of "L\<lparr> lg_account := store_put serialize_account_info (lg_account L) (in_account ins) ?new \<rparr>"
        L "in_account ins" ?new ?old] insertable_old [OF ins]
    by (simp add: account_get_def account_info_codec.store_get_put)
  ultimately obtain w c where "update_representative_cache mw ?L2 ins = Some (?L2\<lparr> lg_rep_weight := w, lg_rep_cache := c \<rparr>)"
    "weights_ok mw (store_get (read_be 16) w) c ?D"
    using update_representative_view [of ?L2 ins mw "delegated L"] by blast
  then show thesis
    using that [where p = p and w = w and c = c] p p1 D by (simp add: Let_def)
qed

lemma insert_block_split:
  "\<not> account_changed_since_validation L ins \<Longrightarrow> insert_block cr mw L b ins =
    (do { L \<leftarrow> (do { L \<leftarrow> block_put cr L (new_saved_block b (in_set_sideband ins));
            let L = (if sv_previous (new_saved_block b (in_set_sideband ins)) \<noteq> 0
              then successor_put L (sv_previous (new_saved_block b (in_set_sideband ins)))
                (sv_hash cr (new_saved_block b (in_set_sideband ins))) else L);
            update_account L (in_account ins) (in_old_account_info ins) (in_set_account_info ins) });
       L \<leftarrow> (do { L \<leftarrow> delete_old_pending_info L ins;
            let L = insert_new_pending_info L ins;
            update_representative_cache mw L ins });
       Some (L\<lparr> lg_block_count := lg_block_count L + 1 \<rparr>, Some (new_saved_block b (in_set_sideband ins))) })"
  by (simp add: insert_block_def Let_def bind_assoc)

lemma insert_effects:
  assumes inv: "ledger_inv cr mw L" and ins: "insertable cr L b ins" and room: "lg_next_id L < - 1"
  obtains L' where "insert_block cr mw L b ins = Some (L', Some (new_saved_block b (in_set_sideband ins)))"
    "inserted cr L b ins L'" "block_store_inv L'" "weight_inv mw L'" "supply_inv L'"
proof -
  let ?sv = "new_saved_block b (in_set_sideband ins)"
  obtain i d s t where 1:
    "(do { L \<leftarrow> block_put cr L ?sv;
       let L = (if sv_previous ?sv \<noteq> 0 then successor_put L (sv_previous ?sv) (sv_hash cr ?sv) else L);
       update_account L (in_account ins) (in_old_account_info ins) (in_set_account_info ins) })
     = Some (L\<lparr> lg_index := i, lg_block_data := d, lg_next_id := lg_next_id L + 1, lg_successors := s,
         lg_account := t, lg_account_count :=
           lg_account_count L + (if account_get L (in_account ins) = None then 1 else 0) \<rparr>)"
    and get: "block_get (L\<lparr> lg_index := i, lg_block_data := d \<rparr>) = (block_get L)(block_hash_of cr b \<mapsto> ?sv)"
    and store: "block_store_inv (L\<lparr> lg_index := i, lg_block_data := d, lg_next_id := lg_next_id L + 1 \<rparr>)"
    and s: "store_get (read_be 32) s = (if block_previous b = 0 then successor_get L
       else (successor_get L)(block_previous b \<mapsto> block_hash_of cr b))"
    and t: "store_get deserialize_account_info t = (account_get L)(in_account ins \<mapsto> in_set_account_info ins)"
    by (rule insert_block_and_account [OF inv insertable_placeable [OF ins] room])
  let ?L1 = "L\<lparr> lg_index := i, lg_block_data := d, lg_next_id := lg_next_id L + 1, lg_successors := s,
    lg_account := t, lg_account_count :=
      lg_account_count L + (if account_get L (in_account ins) = None then 1 else 0) \<rparr>"
  obtain p w c where 2:
    "(do { L \<leftarrow> delete_old_pending_info ?L1 ins;
       let L = insert_new_pending_info L ins;
       update_representative_cache mw L ins })
     = Some (?L1\<lparr> lg_pending := p, lg_rep_weight := w, lg_rep_cache := c \<rparr>)"
    and p: "store_get deserialize_pending_info p = pending_after (pending_get L) ins"
    and w: "\<And>L'. account_get L' = (account_get L)(in_account ins \<mapsto> in_set_account_info ins) \<Longrightarrow>
       weights_ok mw (store_get (read_be 16) w) c (delegated L')"
    by (rule insert_pending_and_weights [OF inv ins, of ?L1]) simp_all
  let ?L' = "?L1\<lparr> lg_pending := p, lg_rep_weight := w, lg_rep_cache := c, lg_block_count := lg_block_count L + 1 \<rparr>"
  have acc: "account_get ?L' = (account_get L)(in_account ins \<mapsto> in_set_account_info ins)"
    and pend: "pending_get ?L' = pending_after (pending_get L) ins"
    using t p by (simp_all add: account_get_def pending_get_def)
  have "insert_block cr mw L b ins = Some (?L', Some ?sv)"
    unfolding insert_block_split [OF not_changed [OF insertable_placeable [OF ins]]] 1 Option.bind.bind_lunit 2 by simp
  moreover have "inserted cr L b ins ?L'"
    using acc pend get s block_get_frame [of ?L' "L\<lparr> lg_index := i, lg_block_data := d \<rparr>"]
    by (simp add: inserted_def successor_get_def conf_height_get_def)
  moreover have "block_store_inv ?L'"
    using block_store_inv_frame [OF store, of ?L'] by simp
  moreover have "weight_inv mw ?L'"
    using w [OF acc] by (simp add: weight_inv_weights_ok rep_weight_get_def)
  moreover have "supply_inv ?L'"
    using insertable_supply [OF ins] inv acc pend by (simp add: supply_inv_def ledger_inv_def total_supply_of)
  ultimately show thesis by (rule that)
qed

end
