(* ===== verification/Insertion_Correct.thy ===== *)
theory Insertion_Correct
  imports Insertion_Effects
begin

text \<open>
  Validation followed by insertion keeps the ledger invariant: the instructions of a validated
  block satisfy the contract \<open>insertable\<close>, an insertion under that contract succeeds and keeps the
  invariant, and the contract survives the insertion of blocks of other accounts.
\<close>

section \<open>Validated blocks satisfy the contract\<close>

lemma validated_new_account:
  assumes "first_error (validation_checks cr (create_validator cr c L b now)) = Ok"
    and "account_get L (account_for L b) = None"
  shows "is_open b \<and> block_previous b = 0 \<and> load_previous_block L b = None"
  using assms
  by (auto simp: validation_checks_def check_defs helper_defs load_previous_block_def)

lemma validated_old_account:
  assumes "first_error (validation_checks cr (create_validator cr c L b now)) = Ok"
    and "account_get L (account_for L b) = Some i" and inv: "ledger_inv cr mw L"
  obtains p where "\<not> is_open b" "block_previous b = ai_head i" "load_previous_block L b = Some p"
    "block_get L (ai_head i) = Some p" "sv_account p = account_for L b" "sv_balance p = ai_balance i"
    "sv_height p = ai_block_count i" "sv_epoch p = ai_epoch i" "saved_ok p"
    "valid_predecessor b (block_type_of (sv_block p))" "ai_head i \<noteq> 0"
proof -
  have "account_ok L (account_for L b) i"
    using inv assms(2) by (auto simp: ledger_inv_def account_inv_def)
  then obtain p where p: "block_get L (ai_head i) = Some p" "sv_account p = account_for L b"
    "sv_balance p = ai_balance i" "sv_height p = ai_block_count i" "sv_epoch p = ai_epoch i"
    by (auto simp: account_ok_def)
  have nz: "ai_head i \<noteq> 0"
    using inv p by (auto simp: ledger_inv_def chain_inv_def block_ok_def)
  have prev: "\<not> is_open b" "block_previous b = ai_head i" "load_previous_block L b \<noteq> None"
    using assms by (auto simp: validation_checks_def check_defs helper_defs)
  then have load: "load_previous_block L b = Some p"
    using p nz by (simp add: load_previous_block_def any_get_block_def)
  have "valid_predecessor b (block_type_of (sv_block p))"
    using assms prev load nz by (auto simp: validation_checks_def check_defs split: if_splits)
  with p prev nz load show ?thesis
    using that block_get_saved_ok by blast
qed

lemma validated_common:
  assumes "first_error (validation_checks cr (create_validator cr c L b now)) = Ok"
    and "ledger_inv cr mw L" "block_hash_of cr b \<noteq> 0"
  shows "account_for L b \<noteq> 0" "block_get L (block_hash_of cr b) = None"
  using assms exists_or_pruned_iff [of L "block_hash_of cr b"]
  by (auto simp: validation_checks_def check_defs ledger_inv_def)

text \<open>A receive has a pending entry for the amount it adds.\<close>

lemma validated_receive:
  assumes "first_error (validation_checks cr v) = Ok" "is_receive v"
  obtains p where "bv_pending_receive_info v = Some p" "amount_received v = pi_amount p"
  using assms by (auto simp: validation_checks_def check_defs split: option.splits if_splits)

lemma legacy_epoch: "saved_ok p \<Longrightarrow> valid_legacy_predecessor (block_type_of (sv_block p)) \<Longrightarrow> sv_epoch p = Epoch0"
  by (cases "sv_block p") (auto simp: saved_ok_def sv_epoch_def new_details_def)

lemma source_or_link_simps [simp]:
  "source_or_link (LegacySend s) = 0"
  "source_or_link (LegacyChange g) = 0"
  "source_or_link (LegacyReceive r) = rcv_source r"
  "source_or_link (LegacyOpen p) = opn_source p"
  "source_or_link (State t) = st_link t"
  by (simp_all add: source_or_link_def)

text \<open>The balance, epoch and flags of a validated block, by block type.\<close>

lemma validated_new_balance:
  assumes ok: "first_error (validation_checks cr (create_validator cr c L b now)) = Ok"
    and inv: "ledger_inv cr mw L"
  shows "(case balance_field b of Some bal \<Rightarrow> new_balance (create_validator cr c L b now) = bal | None \<Rightarrow> True)"
proof (cases "account_get L (account_for L b)")
  case None
  note new = validated_new_account [OF ok None]
  show ?thesis
    using None new by (cases b) (auto simp: helper_defs word_gt_0)
next
  case (Some i)
  obtain p where p: "load_previous_block L b = Some p" "sv_balance p = ai_balance i"
    using validated_old_account [OF ok Some inv] by metis
  have send: "snd_balance s \<le> ai_balance i" if "b = LegacySend s" for s
    using ok that p by (auto simp: validation_checks_def check_defs previous_balance_def)
  show ?thesis
    using Some p send by (cases b) (auto simp: helper_defs Let_def)
qed

lemma validated_legacy:
  assumes ok: "first_error (validation_checks cr (create_validator cr c L b now)) = Ok"
    and inv: "ledger_inv cr mw L" and leg: "is_legacy b"
  shows "validator_epoch (create_validator cr c L b now) = Epoch0"
    and "source_epoch (create_validator cr c L b now) = Epoch0"
proof -
  let ?v = "create_validator cr c L b now"
  show src: "source_epoch ?v = Epoch0"
    using ok leg
    by (cases b) (auto simp: validation_checks_def check_defs source_epoch_def Let_def
        split: option.splits if_splits)
  have "old_epoch_version ?v = Epoch0"
  proof (cases "account_get L (account_for L b)")
    case None
    then show ?thesis by (simp add: old_epoch_version_def)
  next
    case (Some i)
    obtain p where "saved_ok p" "valid_predecessor b (block_type_of (sv_block p))" "sv_epoch p = ai_epoch i"
      using validated_old_account [OF ok Some inv] by metis
    with leg have "ai_epoch i = Epoch0"
      using legacy_epoch [of p] by (cases b) auto
    with Some show ?thesis by (simp add: old_epoch_version_def)
  qed
  with src leg show "validator_epoch ?v = Epoch0"
    by (cases b) (auto simp: validator_epoch_def is_epoch_block_def)
qed

lemma validated_sideband:
  assumes ok: "first_error (validation_checks cr (create_validator cr c L b now)) = Ok"
    and inv: "ledger_inv cr mw L"
  defines "v \<equiv> create_validator cr c L b now"
  defines "sv \<equiv> new_saved_block b (new_sideband v)"
  shows "saved_ok sv" "sv_balance sv = new_balance v" "sv_account sv = account_for L b"
    "sv_epoch sv = validator_epoch v" "sv_height sv = new_block_count v"
proof -
  have bal: "balance_field b = Some x \<Longrightarrow> new_balance v = x" for x
    using validated_new_balance [OF ok inv] by (simp add: v_def)
  have leg: "is_legacy b \<Longrightarrow> validator_epoch v = Epoch0 \<and> source_epoch v = Epoch0"
    using validated_legacy [OF ok inv] by (simp add: v_def)
  have blk: "bv_block v = b" "bv_account v = account_for L b"
    by (simp_all add: v_def)
  have height: "new_block_count v = 1" if "b = LegacyOpen p" for p
  proof -
    have "account_get L (account_for L b) = None"
      using ok that by (auto simp: validation_checks_def check_defs helper_defs)
    then show ?thesis by (simp add: new_block_count_def v_def)
  qed
  show "saved_ok sv"
    using bal leg blk height
    by (cases b)
      (auto simp: saved_ok_def sv_def new_saved_block_def new_sideband_def validator_details_def
        is_send_def is_receive_def is_epoch_block_def validator_account_def)
  show "sv_balance sv = new_balance v" "sv_account sv = account_for L b"
    "sv_epoch sv = validator_epoch v" "sv_height sv = new_block_count v"
    using bal blk
    by (cases b; simp add: sv_def new_saved_block_def new_sideband_def sv_balance_def sv_account_def
        sv_epoch_def sv_height_def validator_details_def new_details_def validator_account_def)+
qed

text \<open>The balance equation of a validated block.\<close>

lemma validated_balance:
  assumes ok: "first_error (validation_checks cr (create_validator cr c L b now)) = Ok"
    and inv: "ledger_inv cr mw L" and no_inc: "\<not> epoch_link_increase c L b"
  defines "v \<equiv> create_validator cr c L b now"
  shows "is_receive v \<Longrightarrow> new_pending_info cr v = None \<and>
      (\<exists>p. pending_get L (PendingKey (account_for L b) (source_or_link b)) = Some p \<and>
        unat (new_balance v) = unat (old_balance v) + unat (pi_amount p))"
    and "\<not> is_receive v \<Longrightarrow> (case new_pending_info cr v of
        None \<Rightarrow> new_balance v = old_balance v
      | Some (k, p) \<Rightarrow> send_block_hash k = block_hash_of cr b \<and> pi_source p = account_for L b \<and>
          is_send v \<and> unat (new_balance v) + unat (pi_amount p) = unat (old_balance v))"
proof -
  have flds: "bv_block v = b" "bv_account v = account_for L b" "bv_old_account_info v = account_get L (account_for L b)"
    "bv_previous_block v = load_previous_block L b" "bv_epochs v = lc_epochs c"
    by (simp_all add: v_def)
  have prev: "previous_balance v = old_balance v"
  proof (cases "account_get L (account_for L b)")
    case None
    with validated_new_account [OF ok None] show ?thesis
      by (simp add: previous_balance_def old_balance_def flds)
  next
    case (Some i)
    obtain p where "load_previous_block L b = Some p" "sv_balance p = ai_balance i"
      using validated_old_account [OF ok Some inv] by metis
    with Some show ?thesis by (simp add: previous_balance_def old_balance_def flds)
  qed
  have sent: "amount_sent v \<noteq> 0 \<Longrightarrow> is_send v"
    by (auto simp: amount_sent_def is_send_def split: option.splits block.splits if_splits)
  show "new_pending_info cr v = None \<and>
      (\<exists>p. pending_get L (PendingKey (account_for L b) (source_or_link b)) = Some p \<and>
        unat (new_balance v) = unat (old_balance v) + unat (pi_amount p))" if rec: "is_receive v"
  proof -
    have nosend: "\<not> is_send v"
      using rec by (cases "bv_old_account_info v"; cases "bv_block v")
        (auto simp: is_send_def is_receive_def split: if_splits)
    obtain p where p: "bv_pending_receive_info v = Some p" "amount_received v = pi_amount p"
      using validated_receive [OF ok [folded v_def] rec] .
    then have get: "pending_get L (PendingKey (account_for L b) (source_or_link b)) = Some p"
      by (auto simp: v_def split: if_splits)
    have "new_balance v = old_balance v + pi_amount p"
      using sent nosend p by (auto simp: new_balance_def)
    moreover have "unat (old_balance v) + unat (pi_amount p) < 2 ^ 128"
      using balance_plus_pending_bounded [of L _ p "account_for L b", OF _ get] inv
      by (simp add: ledger_inv_def old_balance_def flds split: option.splits)
    moreover have "new_pending_info cr v = None"
      using nosend by (auto simp: new_pending_info_def is_send_def split: block.splits)
    ultimately show ?thesis using get by (simp add: unat_add_amount)
  qed
  show "case new_pending_info cr v of None \<Rightarrow> new_balance v = old_balance v
      | Some (k, p) \<Rightarrow> send_block_hash k = block_hash_of cr b \<and> pi_source p = account_for L b \<and>
          is_send v \<and> unat (new_balance v) + unat (pi_amount p) = unat (old_balance v)"
    if nrec: "\<not> is_receive v"
  proof (cases b)
    case (LegacySend s)
    then obtain i where i: "account_get L (account_for L b) = Some i"
      using ok by (auto simp: validation_checks_def check_defs helper_defs)
    have "snd_balance s \<le> old_balance v"
      using ok [folded v_def] LegacySend prev
      by (auto simp: validation_checks_def ensure_no_negative_amount_send_def flds)
    moreover have "new_balance v = snd_balance s"
      using validated_new_balance [OF ok inv] LegacySend by (simp add: v_def)
    ultimately show ?thesis
      using LegacySend i
      by (auto simp: new_pending_info_def flds amount_sent_def is_send_def old_balance_def
          unat_sub_amount word_le_nat_alt word_less_nat_alt)
  next
    case (State s)
    have bal: "new_balance v = st_balance s"
      using validated_new_balance [OF ok inv] State by (simp add: v_def)
    show ?thesis
    proof (cases "is_send v")
      case True
      then have "st_balance s < old_balance v"
        using State by (auto simp: is_send_def old_balance_def flds split: option.splits)
      moreover from this have "unat (st_balance s) + unat (old_balance v - st_balance s) = unat (old_balance v)"
        using unat_sub_amount [of "st_balance s" "old_balance v"] by (simp add: word_less_nat_alt word_le_nat_alt)
      ultimately show ?thesis
        using State True bal
        by (simp add: new_pending_info_def flds validator_amount_def pending_key_for_send_block_def)
    next
      case False
      then have ge: "old_balance v \<le> st_balance s"
        using State by (auto simp: is_send_def old_balance_def flds split: option.splits)
      have "\<not> old_balance v < st_balance s"
      proof (cases "has_epoch_link v s")
        case True
        then show ?thesis
          using no_inc State prev
          by (auto simp: epoch_link_increase_def has_epoch_link_def flds previous_balance_def)
      next
        case False
        with nrec State ge have "st_link s = 0"
          by (auto simp: is_receive_def old_balance_def flds split: option.splits)
        then have "amount_received v = 0"
          using ok [folded v_def] State
          by (simp add: validation_checks_def ensure_no_receive_balance_change_without_link_def flds)
        then show ?thesis
          using State prev by (auto simp: amount_received_def flds Let_def split: if_splits)
      qed
      with ge bal False State show ?thesis
        by (auto simp: new_pending_info_def flds)
    qed
  next
    case (LegacyChange g)
    then show ?thesis
      by (simp add: new_pending_info_def flds new_balance_def amount_received_def amount_sent_def
          split: option.splits)
  next
    case (LegacyReceive r)
    with nrec show ?thesis by (simp add: is_receive_def flds)
  next
    case (LegacyOpen r)
    with nrec show ?thesis by (simp add: is_receive_def flds)
  qed
qed

lemma open_has_rep: "is_open b \<Longrightarrow> \<exists>r. representative_field b = Some r"
  by (cases b) auto

lemma validated_placeable:
  assumes val: "validate_block cr c L b now = Inr ins"
    and inv: "ledger_inv cr mw L" and nz: "block_hash_of cr b \<noteq> 0"
  shows "placeable cr L b ins"
proof -
  define v where "v = create_validator cr c L b now"
  have ok: "first_error (validation_checks cr v) = Ok" and ins: "ins = create_instructions cr v"
    using val by (simp_all add: validate_block_def validate_Inr v_def)
  note ok' = ok [unfolded v_def]
  have flds: "bv_block v = b" "bv_account v = account_for L b" "bv_old_account_info v = account_get L (account_for L b)"
    by (simp_all add: v_def)
  note side = validated_sideband [OF ok' inv, folded v_def]
  have position: "case account_get L (account_for L b) of
        None \<Rightarrow> is_open b \<and> block_previous b = 0 \<and> new_block_count v = 1 \<and> validator_open_block cr v = block_hash_of cr b \<and>
          representative_field b = Some (new_representative v)
      | Some i \<Rightarrow> block_previous b = ai_head i \<and> new_block_count v = ai_block_count i + 1 \<and>
          validator_open_block cr v = ai_open_block i \<and>
          (representative_field b = None \<longrightarrow> new_representative v = ai_representative i) \<and>
          (representative_field b \<noteq> None \<longrightarrow> representative_field b = Some (new_representative v))"
  proof (cases "account_get L (account_for L b)")
    case None
    with validated_new_account [OF ok' None] open_has_rep [of b] show ?thesis
      by (auto simp: new_block_count_def validator_open_block_def new_representative_def flds)
  next
    case (Some i)
    have "block_previous b = ai_head i"
      using validated_old_account [OF ok' Some inv] by metis
    with Some show ?thesis
      by (auto simp: new_block_count_def validator_open_block_def new_representative_def
          old_representative_def flds)
  qed
  show ?thesis
    using position validated_common [OF ok' inv nz] nz side
    by (auto simp: placeable_def position_ok_def Let_def ins create_instructions_def
        new_account_info_def flds split: option.splits)
qed

lemma validated_insertable:
  assumes val: "validate_block cr c L b now = Inr ins"
    and inv: "ledger_inv cr mw L" and no_inc: "\<not> epoch_link_increase c L b"
    and nz: "block_hash_of cr b \<noteq> 0"
  shows "insertable cr L b ins"
proof -
  define v where "v = create_validator cr c L b now"
  have ok: "first_error (validation_checks cr v) = Ok" and ins: "ins = create_instructions cr v"
    using val by (simp_all add: validate_block_def validate_Inr v_def)
  note ok' = ok [unfolded v_def]
  have flds: "bv_block v = b" "bv_account v = account_for L b" "bv_old_account_info v = account_get L (account_for L b)"
    by (simp_all add: v_def)
  note bal = validated_balance [OF ok' inv no_inc, folded v_def]
  have send: "is_send v \<Longrightarrow> sv_is_send (new_saved_block b (new_sideband v))"
    by (auto simp: is_send_def flds sv_is_send_def new_saved_block_def new_sideband_def
        validator_details_def new_details_def split: block.splits)
  have old: "ai_balance (case account_get L (account_for L b) of None \<Rightarrow> default_account_info | Some i \<Rightarrow> i)
      = old_balance v"
    by (simp add: old_balance_def flds default_account_info_def split: option.splits)
  have delta: "case (in_delete_pending ins, in_insert_pending ins) of
        (None, None) \<Rightarrow> new_balance v = old_balance v
      | (Some k, None) \<Rightarrow> receiving_account k = account_for L b \<and>
          (\<exists>p. pending_get L k = Some p \<and>
            unat (new_balance v) = unat (old_balance v) + unat (pi_amount p))
      | (None, Some (k, p)) \<Rightarrow> send_block_hash k = block_hash_of cr b \<and> pi_source p = account_for L b \<and>
          sv_is_send (new_saved_block b (new_sideband v)) \<and>
          unat (new_balance v) + unat (pi_amount p) = unat (old_balance v)
      | (Some _, Some _) \<Rightarrow> False"
    using bal send by (cases "is_receive v")
      (auto simp: ins create_instructions_def delete_received_pending_info_def flds split: option.splits)
  show ?thesis
    using delta old validated_placeable [OF val inv nz]
    by (auto simp: insertable_def balance_ok_def Let_def ins create_instructions_def
        new_account_info_def flds split: option.splits)
qed

section \<open>The invariant after an insertion\<close>

text \<open>Facts about the ledger before: a fresh hash has no successor, and heads have none.\<close>

lemma fresh_no_successor:
  assumes inv: "ledger_inv cr mw L" and fresh: "block_get L h = None" "h \<noteq> 0"
  shows "successor_get L h = None"
proof (cases "successor_get L h")
  case (Some s)
  then obtain b where b: "block_get L s = Some b" "sv_previous b = h"
    using inv_successor [OF inv] by blast
  with inv_block [OF inv b(1)] fresh show ?thesis
    by (auto simp: block_ok_def)
qed

lemma previous_block_position:
  assumes "ledger_inv cr mw L" "insertable cr L b ins"
  shows "(account_get L (in_account ins) = None \<and> block_previous b = 0) \<or>
    (\<exists>i p. account_get L (in_account ins) = Some i \<and> block_previous b = ai_head i \<and> ai_head i \<noteq> 0 \<and>
      block_get L (ai_head i) = Some p \<and> sv_account p = in_account ins \<and>
      sv_height p = ai_block_count i \<and> successor_get L (ai_head i) = None)"
proof (cases "account_get L (in_account ins)")
  case None
  with insertable_position [OF assms(2)] show ?thesis by (simp add: position_ok_def Let_def)
next
  case (Some i)
  with insertable_position [OF assms(2)] inv_account [OF assms(1) Some] account_head_nonzero [OF assms(1) Some]
  show ?thesis by (auto simp: position_ok_def Let_def account_ok_def)
qed

lemma unat_succ_height:
  fixes x n :: u64
  assumes "unat x \<le> unat n" "n < - 1"
  shows "unat (x + 1) = unat x + 1" "unat x + 1 \<le> unat (n + 1)"
proof -
  have "unat n < 2 ^ 64 - 1"
    using assms(2) by (simp add: word_less_nat_alt unsigned_minus_1_eq_mask mask_eq_exp_minus_1)
  with assms(1) show "unat (x + 1) = unat x + 1" "unat x + 1 \<le> unat (n + 1)"
    by (simp_all add: unat_plus_if')
qed

lemma inserted_new_block_ok:
  assumes inv: "ledger_inv cr mw L" and ins: "insertable cr L b ins" and room: "lg_next_id L < - 1"
    and eff: "inserted cr L b ins L'"
  shows "block_ok cr L' (block_hash_of cr b) (new_saved_block b (in_set_sideband ins))"
proof -
  let ?sv = "new_saved_block b (in_set_sideband ins)" and ?h = "block_hash_of cr b"
  note basic = insertable_basic [OF ins]
  have sv: "sv_block ?sv = b" by (simp add: new_saved_block_def)
  consider (new) "account_get L (in_account ins) = None" "block_previous b = 0"
    | (old) i p where "account_get L (in_account ins) = Some i" "block_previous b = ai_head i"
      "ai_head i \<noteq> 0" "block_get L (ai_head i) = Some p" "sv_account p = in_account ins"
      "sv_height p = ai_block_count i"
    using previous_block_position [OF inv ins] by auto
  then show ?thesis
  proof cases
    case new
    have "sv_height ?sv = 1" "ai_open_block (in_set_account_info ins) = ?h" "is_open b"
      using insertable_position [OF ins] new basic(8) by (simp_all add: position_ok_def Let_def)
    moreover have "1 \<le> unat (lg_next_id L + 1)"
      using unat_succ_height(2) [of 0 "lg_next_id L"] room by simp
    ultimately show ?thesis
      using new basic eff sv by (simp add: block_ok_def inserted_def)
  next
    case old
    have "sv_height ?sv = ai_block_count i + 1"
      using insertable_position [OF ins] old basic(8) by (simp add: position_ok_def Let_def)
    moreover have "unat (ai_block_count i) \<le> unat (lg_next_id L)"
      using inv_block [OF inv old(4)] old(6) by (simp add: block_ok_def)
    moreover have "ai_head i \<noteq> ?h"
      using basic(3) old(4) by auto
    ultimately show ?thesis
      using old basic eff sv unat_succ_height [of "ai_block_count i" "lg_next_id L"] room
      by (auto simp: block_ok_def inserted_def)
  qed
qed

lemma inserted_old_block_ok:
  assumes inv: "ledger_inv cr mw L" and ins: "insertable cr L b ins" and room: "lg_next_id L < - 1"
    and eff: "inserted cr L b ins L'" and old: "block_get L h' = Some b'"
  shows "block_ok cr L' h' b'"
proof -
  let ?h = "block_hash_of cr b"
  note basic = insertable_basic [OF ins]
  note ok = inv_block [OF inv old, unfolded block_ok_def]
  have "unat (sv_height b') \<le> unat (lg_next_id L + 1)"
    using ok unat_succ_height(2) [of "lg_next_id L" "lg_next_id L"] room by simp
  moreover have "sv_previous b' \<noteq> ?h"
    using ok basic(2,3) by auto
  moreover have "sv_previous b' \<noteq> 0 \<Longrightarrow> block_previous b \<noteq> 0 \<Longrightarrow> sv_previous b' \<noteq> block_previous b"
    using ok previous_block_position [OF inv ins] by auto
  moreover have "ai_open_block (in_set_account_info ins) = ai_open_block i"
    if "account_get L (in_account ins) = Some i" for i
    using insertable_position [OF ins] that by (simp add: position_ok_def Let_def)
  ultimately show ?thesis
    using ok eff by (auto simp: block_ok_def inserted_def)
qed

lemma inserted_chain:
  assumes inv: "ledger_inv cr mw L" and ins: "insertable cr L b ins" and room: "lg_next_id L < - 1"
    and eff: "inserted cr L b ins L'"
  shows "chain_inv cr L'"
proof -
  let ?h = "block_hash_of cr b" and ?sv = "new_saved_block b (in_set_sideband ins)"
  have "block_ok cr L' h b'" if "block_get L' h = Some b'" for h b'
    using that eff inserted_new_block_ok [OF assms] inserted_old_block_ok [OF assms]
    by (auto simp: inserted_def split: if_splits)
  moreover have "\<exists>b. block_get L' s = Some b \<and> sv_previous b = h" if "successor_get L' h = Some s" for h s
  proof (cases "block_previous b \<noteq> 0 \<and> h = block_previous b")
    case True
    with that eff show ?thesis by (auto simp: inserted_def new_saved_block_def)
  next
    case False
    with that eff have "successor_get L h = Some s"
      by (auto simp: inserted_def split: if_splits)
    then obtain b' where b': "block_get L s = Some b'" "sv_previous b' = h"
      using inv_successor [OF inv] by blast
    moreover have "s \<noteq> ?h"
      using b' insertable_basic(3) [OF ins] by auto
    ultimately show ?thesis using eff by (auto simp: inserted_def)
  qed
  ultimately show ?thesis by (simp add: chain_inv_def)
qed

lemma inserted_has_rep:
  assumes ins: "insertable cr L b ins" and eff: "inserted cr L b ins L'" and rep: "has_rep (block_get L) h r"
  shows "has_rep (block_get L') h r"
proof (rule has_rep_mono [OF rep])
  show "block_get L \<subseteq>\<^sub>m block_get L'"
    using eff insertable_basic(3) [OF ins] by (auto simp: inserted_def map_le_def)
qed

lemma inserted_own_account:
  assumes inv: "ledger_inv cr mw L" and ins: "insertable cr L b ins" and eff: "inserted cr L b ins L'"
  shows "account_ok L' (in_account ins) (in_set_account_info ins)"
proof -
  let ?h = "block_hash_of cr b" and ?sv = "new_saved_block b (in_set_sideband ins)"
  let ?new = "in_set_account_info ins"
  note basic = insertable_basic [OF ins]
  have sv: "sv_block ?sv = b" by (simp add: new_saved_block_def)
  have get: "block_get L' ?h = Some ?sv"
    using eff by (simp add: inserted_def)
  have succ: "successor_get L' ?h = None"
    using eff fresh_no_successor [OF inv basic(3,2)] previous_block_position [OF inv ins] basic(3)
    by (auto simp: inserted_def)
  have "(\<exists>b. block_get L' (ai_open_block ?new) = Some b \<and> sv_account b = in_account ins \<and> sv_previous b = 0) \<and>
      has_rep (block_get L') ?h (ai_representative ?new)"
  proof (cases "account_get L (in_account ins)")
    case None
    with insertable_position [OF ins] show ?thesis
      using get basic(5) sv by (auto simp: position_ok_def Let_def intro: has_rep.named)
  next
    case (Some i)
    note ok = inv_account [OF inv Some, unfolded account_ok_def]
    have pos: "block_previous b = ai_head i" "ai_open_block ?new = ai_open_block i"
      "representative_field b = None \<longrightarrow> ai_representative ?new = ai_representative i"
      "representative_field b \<noteq> None \<longrightarrow> representative_field b = Some (ai_representative ?new)"
      using insertable_position [OF ins] Some by (simp_all add: position_ok_def Let_def)
    obtain ob where ob: "block_get L (ai_open_block i) = Some ob" "sv_account ob = in_account ins" "sv_previous ob = 0"
      using ok by blast
    then have "block_get L' (ai_open_block ?new) = Some ob"
      using eff pos basic(3) by (auto simp: inserted_def)
    moreover have "has_rep (block_get L') (ai_head i) (ai_representative i)"
      using inserted_has_rep [OF ins eff] ok by blast
    ultimately show ?thesis
      using ob get pos sv has_rep.named [of "block_get L'" ?h ?sv] has_rep.inherited [of "block_get L'" ?h ?sv]
      by (cases "representative_field b") auto
  qed
  with get succ basic show ?thesis by (simp add: account_ok_def)
qed

lemma inserted_other_account:
  assumes inv: "ledger_inv cr mw L" and ins: "insertable cr L b ins" and eff: "inserted cr L b ins L'"
    and a: "a \<noteq> in_account ins" "account_get L a = Some i"
  shows "account_ok L' a i"
proof -
  note ok = inv_account [OF inv a(2), unfolded account_ok_def]
  have stored: "block_get L h = Some x \<Longrightarrow> block_get L' h = Some x" for h x
    using eff insertable_basic(3) [OF ins] by (auto simp: inserted_def)
  have "successor_get L' (ai_head i) = None"
    using eff ok a previous_block_position [OF inv ins] by (auto simp: inserted_def)
  moreover have "has_rep (block_get L') (ai_head i) (ai_representative i)"
    using inserted_has_rep [OF ins eff] ok by blast
  ultimately show ?thesis
    using ok stored unfolding account_ok_def by blast
qed

lemma inserted_pending:
  assumes inv: "ledger_inv cr mw L" and ins: "insertable cr L b ins" and eff: "inserted cr L b ins L'"
  shows "pending_inv L'"
proof -
  let ?sv = "new_saved_block b (in_set_sideband ins)"
  have stored: "block_get L h = Some x \<Longrightarrow> block_get L' h = Some x" for h x
    using eff insertable_basic(3) [OF ins] by (auto simp: inserted_def)
  have "\<exists>b. block_get L' (send_block_hash k) = Some b \<and> sv_account b = pi_source p \<and> sv_is_send b"
    if kp: "pending_get L' k = Some p" for k p
  proof (cases "in_insert_pending ins = Some (k, p)")
    case True
    with insertable_delta(3) [OF ins True] insertable_basic(5) [OF ins] eff show ?thesis
      by (auto simp: inserted_def)
  next
    case False
    with kp eff have "pending_get L k = Some p"
      by (auto simp: inserted_def pending_after_def Let_def split: option.splits if_splits prod.splits)
    with inv stored show ?thesis
      unfolding ledger_inv_def pending_inv_def by blast
  qed
  then show ?thesis by (simp add: pending_inv_def)
qed

lemma finite_blocks [simp]: "finite (dom (block_get L))"
proof (rule finite_subset)
  show "dom (block_get L) \<subseteq> dom (RBT.lookup (lg_index L))"
    by (auto simp: block_get_def block_raw_get_def bind_eq_Some_conv)
qed (simp add: RBT.lookup_keys)

theorem inserted_ledger_inv:
  assumes inv: "ledger_inv cr mw L" and ins: "insertable cr L b ins" and room: "lg_next_id L < - 1"
    and eff: "inserted cr L b ins L'" and "block_store_inv L'" "weight_inv mw L'" "supply_inv L'"
  shows "ledger_inv cr mw L'"
proof -
  note basic = insertable_basic [OF ins]
  have "account_inv L'"
    unfolding account_inv_def
    using eff inserted_own_account [OF inv ins eff] inserted_other_account [OF inv ins eff]
    by (auto simp: inserted_def)
  moreover have "count_inv L'"
    using inv eff basic(3)
    by (auto simp: count_inv_def inserted_def ledger_inv_def card_insert_if dom_def insert_absorb
        simp flip: dom_def)
  moreover have "conf_inv L'"
  proof -
    have "block_get L h = Some x \<Longrightarrow> block_get L' h = Some x" for h x
      using eff basic(3) by (auto simp: inserted_def)
    then show ?thesis
      using inv eff unfolding ledger_inv_def conf_inv_def inserted_def by metis
  qed
  moreover have "unpruned L'"
    using inv eff by (simp add: ledger_inv_def unpruned_def inserted_def)
  ultimately show ?thesis
    using assms inserted_chain [OF inv ins room eff] inserted_pending [OF inv ins eff]
    by (simp add: ledger_inv_def)
qed

end
