(* ===== verification/Epoch_Mint.thy ===== *)
theory Epoch_Mint
  imports Insertion_Correct
begin

text \<open>
  The gap in the validation rules: a block for which \<open>epoch_link_increase\<close> holds is not a receive
  (its link is an epoch link), not a send, and not an epoch block (its balance changes), so no rule
  ties the increase of its balance to a pending entry. When it is valid it is inserted, and the
  supply grows.
\<close>

lemma update_representative_returns:
  assumes "\<forall>r. rep_weight_get L r \<noteq> Some 0"
  shows "\<exists>t c. update_representative_cache mw L ins = Some (L\<lparr> lg_rep_weight := t, lg_rep_cache := c \<rparr>)"
proof -
  let ?old = "in_old_account_info ins" and ?new = "in_set_account_info ins"
  let ?r1 = "ai_representative ?old" and ?r2 = "ai_representative ?new"
  have add: "\<exists>t c. representation_add mw L r a = Some (L\<lparr> lg_rep_weight := t, lg_rep_cache := c \<rparr>)" for r a
    using representation_add_view [OF assms, of mw r a] by blast
  have dual: "\<exists>t c. representation_add_dual mw L ?r1 a ?r2 b = Some (L\<lparr> lg_rep_weight := t, lg_rep_cache := c \<rparr>)" for a b
  proof (cases "?r1 = ?r2")
    case True
    with add show ?thesis by (simp add: representation_add_dual_def)
  next
    case False
    then show ?thesis using representation_add_dual_view [OF assms False, of mw a b] by blast
  qed
  show ?thesis
    using add dual by (simp add: update_representative_cache_def)
qed

text \<open>An insertion that touches no pending entry.\<close>

lemma insert_without_pending:
  assumes inv: "ledger_inv cr mw L" and ins: "placeable cr L b ins" and room: "lg_next_id L < - 1"
    and none: "in_delete_pending ins = None" "in_insert_pending ins = None"
  obtains L' where "insert_block cr mw L b ins = Some (L', Some (new_saved_block b (in_set_sideband ins)))"
    "account_get L' = (account_get L)(in_account ins \<mapsto> in_set_account_info ins)"
    "pending_get L' = pending_get L"
proof -
  let ?sv = "new_saved_block b (in_set_sideband ins)"
  obtain i d s t where 1:
    "(do { L \<leftarrow> block_put cr L ?sv;
       let L = (if sv_previous ?sv \<noteq> 0 then successor_put L (sv_previous ?sv) (sv_hash cr ?sv) else L);
       update_account L (in_account ins) (in_old_account_info ins) (in_set_account_info ins) })
     = Some (L\<lparr> lg_index := i, lg_block_data := d, lg_next_id := lg_next_id L + 1, lg_successors := s,
         lg_account := t, lg_account_count :=
           lg_account_count L + (if account_get L (in_account ins) = None then 1 else 0) \<rparr>)"
    and t: "store_get deserialize_account_info t = (account_get L)(in_account ins \<mapsto> in_set_account_info ins)"
    by (rule insert_block_and_account [OF inv ins room])
  let ?L1 = "L\<lparr> lg_index := i, lg_block_data := d, lg_next_id := lg_next_id L + 1, lg_successors := s,
    lg_account := t, lg_account_count :=
      lg_account_count L + (if account_get L (in_account ins) = None then 1 else 0) \<rparr>"
  have "\<forall>r. rep_weight_get ?L1 r \<noteq> Some 0"
    using inv by (simp add: ledger_inv_def weight_inv_def rep_weight_get_def)
  then obtain w c where w: "update_representative_cache mw ?L1 ins = Some (?L1\<lparr> lg_rep_weight := w, lg_rep_cache := c \<rparr>)"
    using update_representative_returns by blast
  have 2: "(do { L \<leftarrow> delete_old_pending_info ?L1 ins;
       let L = insert_new_pending_info L ins;
       update_representative_cache mw L ins }) = Some (?L1\<lparr> lg_rep_weight := w, lg_rep_cache := c \<rparr>)"
    using w none by (simp add: delete_old_pending_info_def insert_new_pending_info_def)
  have ins': "insert_block cr mw L b ins = Some (?L1\<lparr> lg_rep_weight := w, lg_rep_cache := c,
      lg_block_count := lg_block_count L + 1 \<rparr>, Some ?sv)"
    unfolding insert_block_split [OF not_changed [OF ins]] 1 Option.bind.bind_lunit 2 by simp
  show thesis
    by (rule that [OF ins']) (simp_all add: account_get_def pending_get_def t [unfolded account_get_def])
qed

text \<open>The instructions of such a block touch no pending entry and record the increased balance.\<close>

lemma epoch_link_increase_instructions:
  assumes val: "validate_block cr c L b now = Inr ins" and inv: "ledger_inv cr mw L"
    and inc: "epoch_link_increase c L b"
  obtains s where "b = State s" "in_delete_pending ins = None" "in_insert_pending ins = None"
    "ai_balance (in_set_account_info ins) = st_balance s"
    "(case account_get L (in_account ins) of None \<Rightarrow> 0 | Some i \<Rightarrow> ai_balance i) < st_balance s"
proof -
  define v where "v = create_validator cr c L b now"
  have ok: "first_error (validation_checks cr (create_validator cr c L b now)) = Ok"
    and ins: "ins = create_instructions cr v"
    using val by (simp_all add: validate_block_def validate_Inr v_def)
  obtain s where s: "b = State s" "is_epoch_link (lc_epochs c) (st_link s)"
    "(case load_previous_block L b of Some p \<Rightarrow> sv_balance p | None \<Rightarrow> 0) < st_balance s"
    using inc by (auto simp: epoch_link_increase_def split: block.splits)
  have lt: "(case account_get L (account_for L b) of None \<Rightarrow> 0 | Some i \<Rightarrow> ai_balance i) < st_balance s"
  proof (cases "account_get L (account_for L b)")
    case None
    then show ?thesis using s validated_new_account [OF ok None] by simp
  next
    case (Some i)
    obtain p where "load_previous_block L b = Some p" "sv_balance p = ai_balance i"
      using validated_old_account [OF ok Some inv] by metis
    with Some s show ?thesis by simp
  qed
  have "\<not> is_receive v"
    using s by (simp add: is_receive_def v_def has_epoch_link_def)
  moreover have "\<not> is_send v"
    using s lt by (auto simp: is_send_def v_def split: option.splits)
  moreover have "new_balance v = st_balance s"
    using validated_new_balance [OF ok inv] s by (simp add: v_def)
  ultimately show thesis
    using s lt
    by (intro that [of s])
      (auto simp: ins create_instructions_def delete_received_pending_info_def new_pending_info_def
        new_account_info_def v_def)
qed

lemma epoch_link_increase_mints:
  assumes val: "validate_block cr c L b now = Inr ins" and inv: "ledger_inv cr mw L"
    and inc: "epoch_link_increase c L b" and nz: "block_hash_of cr b \<noteq> 0" and room: "lg_next_id L < - 1"
  shows "\<exists>L' sv. process_one cr c mw L b now = Some (L', Inr sv) \<and> sv_block sv = b \<and>
    total_supply L' = total_supply L + unat (sv_balance sv) -
      unat (case account_get L (in_account ins) of None \<Rightarrow> 0 | Some i \<Rightarrow> ai_balance i) \<and>
    total_supply L < total_supply L'"
proof -
  obtain s where s: "b = State s" and none: "in_delete_pending ins = None" "in_insert_pending ins = None"
    and bal: "ai_balance (in_set_account_info ins) = st_balance s"
      "(case account_get L (in_account ins) of None \<Rightarrow> 0 | Some i \<Rightarrow> ai_balance i) < st_balance s"
    by (rule epoch_link_increase_instructions [OF val inv inc])
  have pl: "placeable cr L b ins"
    by (rule validated_placeable [OF val inv nz])
  obtain L' where L': "insert_block cr mw L b ins = Some (L', Some (new_saved_block b (in_set_sideband ins)))"
    and A: "account_get L' = (account_get L)(in_account ins \<mapsto> in_set_account_info ins)"
    and P: "pending_get L' = pending_get L"
    by (rule insert_without_pending [OF inv pl room none])
  have "map_sum (unat \<circ> ai_balance) (account_get L') + unat (case account_get L (in_account ins) of None \<Rightarrow> 0 | Some i \<Rightarrow> ai_balance i)
      = map_sum (unat \<circ> ai_balance) (account_get L) + unat (st_balance s)"
    using map_sum_split [of "account_get L" "unat \<circ> ai_balance" "in_account ins"]
      map_sum_split [of "account_get L'" "unat \<circ> ai_balance" "in_account ins"] bal(1)
    by (simp add: A split: option.splits)
  then have "total_supply L' + unat (case account_get L (in_account ins) of None \<Rightarrow> 0 | Some i \<Rightarrow> ai_balance i)
      = total_supply L + unat (st_balance s)"
    by (simp add: total_supply_def P)
  moreover have "sv_balance (new_saved_block b (in_set_sideband ins)) = st_balance s"
    using placeable_basic(7) [OF pl] bal by simp
  moreover have "process_one cr c mw L b now = Some (L', Inr (new_saved_block b (in_set_sideband ins)))"
    by (simp add: process_one_def process_batch_def val L')
  ultimately show ?thesis
    using bal(2) by (intro exI [of _ L'] exI [of _ "new_saved_block b (in_set_sideband ins)"])
      (simp add: new_saved_block_def word_less_nat_alt)
qed

end
