(* ===== verification/Genesis.thy ===== *)
theory Genesis
  imports Insertion_Effects
begin

text \<open>
  The ledger right after start-up: \<open>initialize_ledger\<close> on an empty database adds the genesis block,
  computes the caches, and establishes the ledger invariant. The genesis sideband of the constants
  is not marked as a receive, but the database format does not keep that flag: read back, the
  genesis block is marked as a receive, like every legacy open block.
\<close>

text \<open>The genesis block as it is read back from the database.\<close>

definition stored_genesis :: "open_block \<Rightarrow> saved_block" where
  "stored_genesis g =
    new_saved_block (LegacyOpen g)
      ((genesis_sideband (opn_account g))\<lparr> sb_details := new_details Epoch0 False True False \<rparr>)"

lemma stored_genesis_ok: "saved_ok (stored_genesis g)"
  by (simp add: saved_ok_def stored_genesis_def new_saved_block_def genesis_sideband_def)

lemma stored_genesis_bytes:
  "serialize_with_sideband (new_saved_block (LegacyOpen g) (genesis_sideband (opn_account g)))
    = serialize_with_sideband (stored_genesis g)"
  by (simp add: serialize_with_sideband_def stored_genesis_def new_saved_block_def serialize_sideband_def)

lemma empty_block_store: "block_store_inv empty_ledger" "block_get empty_ledger = Map.empty"
  by (auto simp: block_store_inv_def block_id_def empty_ledger_def block_get_def block_raw_get_def)

definition genesis_info :: "crypto \<Rightarrow> open_block \<Rightarrow> account_info" where
  "genesis_info cr g =
    \<lparr> ai_head = block_hash_of cr (LegacyOpen g), ai_representative = opn_account g,
      ai_open_block = block_hash_of cr (LegacyOpen g), ai_balance = amount_max, ai_modified = 0,
      ai_block_count = 1, ai_epoch = Epoch0 \<rparr>"

lemma add_genesis_effects:
  assumes c: "c = new_ledger_constants wt g signer"
  obtains i d where
    "add_genesis_block cr c empty_ledger = Some (empty_ledger\<lparr> lg_index := i, lg_block_data := d, lg_next_id := 1,
       lg_conf_height := RBT.insert (opn_account g)
         (serialize_confirmation_height_info \<lparr> ch_height = 1, ch_frontier = block_hash_of cr (LegacyOpen g) \<rparr>) RBT.empty,
       lg_account := RBT.insert (opn_account g) (serialize_account_info (genesis_info cr g)) RBT.empty,
       lg_rep_weight := RBT.insert (opn_account g) (be_bytes 16 amount_max) RBT.empty \<rparr>)"
    "block_get (empty_ledger\<lparr> lg_index := i, lg_block_data := d \<rparr>) = [block_hash_of cr (LegacyOpen g) \<mapsto> stored_genesis g]"
    "block_store_inv (empty_ledger\<lparr> lg_index := i, lg_block_data := d, lg_next_id := 1 \<rparr>)"
proof -
  let ?h = "block_hash_of cr (LegacyOpen g)"
  define i where "i = RBT.insert ?h (be_bytes 8 (0 :: u64)) (lg_index empty_ledger)"
  define d where "d = RBT.insert (0 :: u64) (serialize_with_sideband (stored_genesis g)) (lg_block_data empty_ledger)"
  have nid: "lg_next_id empty_ledger = 0" and none: "block_get empty_ledger ?h = None"
    by (simp add: empty_ledger_def) (simp add: empty_block_store)
  have room: "lg_next_id empty_ledger < - 1"
    by (simp add: nid word_less_nat_alt unsigned_minus_1_eq_mask mask_eq_exp_minus_1)
  have p: "raw_put empty_ledger (serialize_with_sideband (stored_genesis g)) ?h
      = Some (empty_ledger\<lparr> lg_index := i, lg_block_data := d, lg_next_id := 1 \<rparr>)"
    using raw_put_fresh [OF empty_block_store(1) none] by (simp add: nid i_def d_def)
  have get: "block_get (empty_ledger\<lparr> lg_index := i, lg_block_data := d, lg_next_id := 1 \<rparr>) = [?h \<mapsto> stored_genesis g]"
    and inv: "block_store_inv (empty_ledger\<lparr> lg_index := i, lg_block_data := d, lg_next_id := 1 \<rparr>)"
    using block_map.get_put [OF empty_block_store(1) room stored_genesis_ok none p]
      block_map.put_inv [OF empty_block_store(1) room stored_genesis_ok none p]
    by (simp_all add: empty_block_store)
  have "block_put cr empty_ledger (lc_genesis_block c) = Some (empty_ledger\<lparr> lg_index := i, lg_block_data := d, lg_next_id := 1 \<rparr>)"
    using p by (simp add: block_put_def c new_ledger_constants_def Let_def stored_genesis_bytes)
       (simp add: new_saved_block_def)
  then show thesis
    using that [where i = i and d = d] get inv
      block_get_frame [of "empty_ledger\<lparr> lg_index := i, lg_block_data := d, lg_next_id := 1 \<rparr>"
        "empty_ledger\<lparr> lg_index := i, lg_block_data := d \<rparr>"]
    by (simp add: add_genesis_block_def c new_ledger_constants_def Let_def conf_height_put_def account_put_def
        rep_weight_put_def store_put_def genesis_info_def new_saved_block_def)
      (simp add: empty_ledger_def)
qed

definition genesis_ledger :: "crypto \<Rightarrow> amount \<Rightarrow> open_block \<Rightarrow> (block_hash, bytes) rbt \<Rightarrow> (u64, bytes) rbt \<Rightarrow> ledger" where
  "genesis_ledger cr mw g i d = empty_ledger\<lparr> lg_index := i, lg_block_data := d, lg_next_id := 1,
     lg_conf_height := RBT.insert (opn_account g)
       (serialize_confirmation_height_info \<lparr> ch_height = 1, ch_frontier = block_hash_of cr (LegacyOpen g) \<rparr>) RBT.empty,
     lg_account := RBT.insert (opn_account g) (serialize_account_info (genesis_info cr g)) RBT.empty,
     lg_rep_weight := RBT.insert (opn_account g) (be_bytes 16 amount_max) RBT.empty,
     lg_block_count := 1, lg_account_count := 1,
     lg_rep_cache := put_cache mw RBT.empty (opn_account g) amount_max, lg_confirmed_count := 1 \<rparr>"

lemma genesis_views:
  fixes i :: "(block_hash, bytes) rbt" and d :: "(u64, bytes) rbt" and mw :: amount
    and cr :: crypto and g :: open_block
  defines "L \<equiv> genesis_ledger cr mw g i d"
  shows "account_get L = [opn_account g \<mapsto> genesis_info cr g]"
    and "conf_height_get L = [opn_account g \<mapsto> \<lparr> ch_height = 1, ch_frontier = block_hash_of cr (LegacyOpen g) \<rparr>]"
    and "rep_weight_get L = [opn_account g \<mapsto> amount_max]"
    and "pending_get L = Map.empty" "successor_get L = Map.empty"
  using account_info_codec.store_get_put [of "RBT.empty" "opn_account g" "genesis_info cr g"]
    confirmation_height_codec.store_get_put [of "RBT.empty" "opn_account g"
      "\<lparr> ch_height = 1, ch_frontier = block_hash_of cr (LegacyOpen g) \<rparr>"]
    u128_be.store_get_put [of RBT.empty "opn_account g" amount_max]
  by (simp_all add: L_def genesis_ledger_def table_defs store_put_def store_get_empty empty_ledger_def)

lemma genesis_fields [simp]:
  "lg_next_id (genesis_ledger cr mw g i d) = 1"
  "lg_rep_cache (genesis_ledger cr mw g i d) = put_cache mw RBT.empty (opn_account g) amount_max"
  "lg_account_count (genesis_ledger cr mw g i d) = 1"
  "lg_block_count (genesis_ledger cr mw g i d) = 1"
  "lg_confirmed_count (genesis_ledger cr mw g i d) = 1"
  "lg_pruned (genesis_ledger cr mw g i d) = RBT.empty"
  by (simp_all add: genesis_ledger_def empty_ledger_def)

lemma initialize_effects:
  assumes c: "c = new_ledger_constants wt g signer"
  obtains i d where "initialize_ledger cr c mw empty_ledger = Some (genesis_ledger cr mw g i d)"
    "block_get (genesis_ledger cr mw g i d) = [block_hash_of cr (LegacyOpen g) \<mapsto> stored_genesis g]"
    "block_store_inv (genesis_ledger cr mw g i d)"
proof -
  obtain i d where gen: "add_genesis_block cr c empty_ledger = Some (empty_ledger\<lparr> lg_index := i, lg_block_data := d, lg_next_id := 1,
       lg_conf_height := RBT.insert (opn_account g)
         (serialize_confirmation_height_info \<lparr> ch_height = 1, ch_frontier = block_hash_of cr (LegacyOpen g) \<rparr>) RBT.empty,
       lg_account := RBT.insert (opn_account g) (serialize_account_info (genesis_info cr g)) RBT.empty,
       lg_rep_weight := RBT.insert (opn_account g) (be_bytes 16 amount_max) RBT.empty \<rparr>)"
    and get: "block_get (empty_ledger\<lparr> lg_index := i, lg_block_data := d \<rparr>) = [block_hash_of cr (LegacyOpen g) \<mapsto> stored_genesis g]"
    and inv: "block_store_inv (empty_ledger\<lparr> lg_index := i, lg_block_data := d, lg_next_id := 1 \<rparr>)"
    by (rule add_genesis_effects [OF c])
  have max: "amount_max \<noteq> 0" by (simp add: amount_max_def)
  have "account_iter empty_ledger = []"
    by (simp add: account_iter_def empty_ledger_def List.map_filter_def)
  then have "initialize_ledger cr c mw empty_ledger = Some (genesis_ledger cr mw g i d)"
    by (simp add: initialize_ledger_def gen Let_def account_iter_def conf_height_iter_def List.map_filter_def
        account_info_codec.dec_enc_whole confirmation_height_codec.dec_enc_whole copy_from_def genesis_info_def
        max genesis_ledger_def)
      (simp add: empty_ledger_def)
  moreover have "block_get (genesis_ledger cr mw g i d) = [block_hash_of cr (LegacyOpen g) \<mapsto> stored_genesis g]"
    using get block_get_frame [of "genesis_ledger cr mw g i d" "empty_ledger\<lparr> lg_index := i, lg_block_data := d \<rparr>"]
    by (simp add: genesis_ledger_def)
  moreover have "block_store_inv (genesis_ledger cr mw g i d)"
    using block_store_inv_frame [OF inv, of "genesis_ledger cr mw g i d"] by (simp add: genesis_ledger_def)
  ultimately show thesis by (rule that)
qed

lemma genesis_ledger_inv:
  assumes get: "block_get (genesis_ledger cr mw g i d) = [block_hash_of cr (LegacyOpen g) \<mapsto> stored_genesis g]"
    and "block_store_inv (genesis_ledger cr mw g i d)"
    and acc: "opn_account g \<noteq> 0" and rep: "opn_representative g = opn_account g"
    and hash: "block_hash_of cr (LegacyOpen g) \<noteq> 0"
  shows "ledger_inv cr mw (genesis_ledger cr mw g i d)"
proof -
  let ?L = "genesis_ledger cr mw g i d" and ?h = "block_hash_of cr (LegacyOpen g)"
  note views = genesis_views [of cr mw g i d]
  have sg: "sv_block (stored_genesis g) = LegacyOpen g" "sv_account (stored_genesis g) = opn_account g"
    "sv_height (stored_genesis g) = 1" "sv_balance (stored_genesis g) = amount_max"
    "sv_epoch (stored_genesis g) = Epoch0"
    by (simp_all add: stored_genesis_def new_saved_block_def sv_account_def sv_height_def sv_balance_def
        sv_epoch_def genesis_sideband_def new_details_def)
  have "has_rep (block_get ?L) ?h (opn_account g)"
    using get sg rep by (intro has_rep.named [of _ _ "stored_genesis g"]) simp_all
  then have "account_inv ?L"
    using acc get sg by (auto simp: account_inv_def account_ok_def views genesis_info_def)
  moreover have "chain_inv cr ?L"
    using hash get sg by (auto simp: chain_inv_def block_ok_def views genesis_info_def)
  moreover have "supply_inv ?L"
    by (simp add: supply_inv_def total_supply_def views genesis_info_def unat_amount_max)
  moreover have "weight_inv mw ?L"
  proof -
    have "amount_max \<noteq> 0" by (simp add: amount_max_def)
    then show ?thesis
      by (auto simp: weight_inv_def weight_exact_def delegated_def views genesis_info_def put_cache_def)
  qed
  moreover have "count_inv ?L" "conf_inv ?L" "unpruned ?L" "pending_inv ?L"
    using get sg by (auto simp: count_inv_def conf_inv_def unpruned_def pending_inv_def views)
  ultimately show ?thesis
    using assms by (simp add: ledger_inv_def)
qed

end
