(* ===== verification/Ledger_Processing.thy ===== *)
theory Ledger_Processing
  imports Insertion_Correct Genesis
begin

text \<open>
  Processing of whole batches: the contract of a validated block survives the insertion of blocks
  of other accounts, and a block whose account has moved on is reported as a conflict. From this
  follow the invariant of every reachable ledger and the conservation of the supply.
\<close>

section \<open>Instructions that are still good, and stale ones\<close>

definition stale :: "ledger \<Rightarrow> block_insert_instructions \<Rightarrow> bool" where
  "stale L ins \<longleftrightarrow> account_changed_since_validation L ins \<and>
    (ai_head (in_old_account_info ins) = 0 \<or> block_get L (ai_head (in_old_account_info ins)) \<noteq> None)"

lemma stale_insert: "stale L ins \<Longrightarrow> insert_block cr mw L b ins = Some (L, None)"
  by (simp add: stale_def insert_block_def)

lemma insertable_old_head:
  assumes "ledger_inv cr mw L" "insertable cr L b ins"
  shows "ai_head (in_old_account_info ins) = 0 \<or> block_get L (ai_head (in_old_account_info ins)) \<noteq> None"
  using previous_block_position [OF assms] insertable_old [OF assms(2)]
  by (auto simp: default_account_info_def)

lemma inserted_makes_stale:
  assumes "insertable cr L b ins" "inserted cr L b ins L'" "in_account ins' = in_account ins"
    and old: "ai_head (in_old_account_info ins') = 0 \<or> block_get L (ai_head (in_old_account_info ins')) \<noteq> None"
  shows "stale L' ins'"
  using assms insertable_basic(2,3,6) [OF assms(1)]
  by (auto simp: stale_def account_changed_since_validation_def inserted_def)

lemma inserted_keeps_insertable:
  assumes inv: "ledger_inv cr mw L" and ins: "insertable cr L b ins" and eff: "inserted cr L b ins L'"
    and ins': "insertable cr L b' ins'" and acc: "in_account ins' \<noteq> in_account ins"
    and hash: "block_hash_of cr b' \<noteq> block_hash_of cr b"
  shows "insertable cr L' b' ins'"
proof -
  have A: "account_get L' (in_account ins') = account_get L (in_account ins')"
    using eff acc by (simp add: inserted_def)
  have P: "pending_get L' k = pending_get L k"
    if "receiving_account k = in_account ins'" "pending_get L k = Some p" for k p
  proof -
    have "send_block_hash k \<noteq> block_hash_of cr b"
      using that inv insertable_basic(3) [OF ins] pending_fresh [of L k] by (auto simp: ledger_inv_def)
    then show ?thesis
      using that eff acc insertable_delta(2,3) [OF ins]
      by (auto simp: inserted_def pending_after_def Let_def split: option.splits)
  qed
  have "balance_ok cr L' b' ins'"
    using ins' P by (auto simp: insertable_def balance_ok_def Let_def split: option.splits)
  moreover have "position_ok cr L' b' ins'"
    using insertable_position [OF ins'] A by (simp add: position_ok_def)
  moreover have "block_get L' (block_hash_of cr b') = None"
    using insertable_basic(3) [OF ins'] eff hash by (simp add: inserted_def)
  ultimately show ?thesis
    using ins' by (simp add: insertable_def placeable_def Let_def)
qed

lemma inserted_keeps_stale:
  assumes ins: "insertable cr L b ins" and eff: "inserted cr L b ins L'" and st: "stale L ins'"
  shows "stale L' ins'"
proof (cases "in_account ins' = in_account ins")
  case True
  with inserted_makes_stale [OF ins eff] st show ?thesis by (simp add: stale_def)
next
  case False
  with eff st show ?thesis
    by (auto simp: stale_def account_changed_since_validation_def inserted_def)
qed

section \<open>Inserting a validated batch\<close>

definition ready :: "crypto \<Rightarrow> ledger \<Rightarrow> (block_error + block_insert_instructions) \<times> block \<Rightarrow> bool" where
  "ready cr L r \<longleftrightarrow> (case r of (Inl _, _) \<Rightarrow> True | (Inr ins, b) \<Rightarrow> insertable cr L b ins \<or> stale L ins)"

text \<open>Equal hashes only for blocks of one account: a consequence of collision resistance.\<close>

definition hashes_distinct :: "crypto \<Rightarrow> ((block_error + block_insert_instructions) \<times> block) list \<Rightarrow> bool" where
  "hashes_distinct cr rs \<longleftrightarrow>
    (\<forall>ins b ins' b'. (Inr ins, b) \<in> set rs \<longrightarrow> (Inr ins', b') \<in> set rs \<longrightarrow>
      block_hash_of cr b = block_hash_of cr b' \<longrightarrow> in_account ins = in_account ins')"

lemma inserted_ready:
  assumes inv: "ledger_inv cr mw L" and ins: "insertable cr L b ins" and eff: "inserted cr L b ins L'"
    and r: "ready cr L (Inr ins', b')"
    and hash: "block_hash_of cr b = block_hash_of cr b' \<longrightarrow> in_account ins = in_account ins'"
  shows "ready cr L' (Inr ins', b')"
  using r hash inserted_keeps_stale [OF ins eff] inserted_keeps_insertable [OF inv ins eff, of b' ins']
    inserted_makes_stale [OF ins eff, of ins'] insertable_old_head [OF inv, of b' ins']
  by (cases "in_account ins' = in_account ins") (auto simp: ready_def)

lemma inserted_all_ready:
  assumes inv: "ledger_inv cr mw L" and ins: "insertable cr L b ins" and eff: "inserted cr L b ins L'"
    and all: "\<forall>r \<in> set rs. ready cr L r" and dist: "hashes_distinct cr ((Inr ins, b) # rs)"
  shows "\<forall>r \<in> set rs. ready cr L' r"
proof
  fix r assume r: "r \<in> set rs"
  obtain x b' where rx: "r = (x, b')" by (cases r)
  show "ready cr L' r"
  proof (cases x)
    case (Inl e)
    with rx show ?thesis by (simp add: ready_def)
  next
    case (Inr ins')
    have "block_hash_of cr b = block_hash_of cr b' \<longrightarrow> in_account ins = in_account ins'"
      using dist r rx Inr unfolding hashes_distinct_def by (meson list.set_intros)
    with inserted_ready [OF inv ins eff, of ins' b'] all r rx Inr show ?thesis by simp
  qed
qed

text \<open>
  A batch of instructions that are ready is inserted without a panic, and whatever every single
  insertion keeps is kept by the batch. \<open>V\<close> is what is known of a block besides its contract; it
  has to survive the addition of blocks.
\<close>

lemma inserted_extends: "insertable cr L b ins \<Longrightarrow> inserted cr L b ins L' \<Longrightarrow> block_get L \<subseteq>\<^sub>m block_get L'"
  using insertable_basic(3) by (auto simp: inserted_def map_le_def)

lemma insert_batch_keeps:
  assumes "ledger_inv cr mw L" "\<forall>r \<in> set rs. ready cr L r" "hashes_distinct cr rs"
    and "unat (lg_next_id L) + length rs < 2 ^ 64 - 1" "K L" "\<forall>ins b. (Inr ins, b) \<in> set rs \<longrightarrow> V L b ins"
    and mono: "\<And>L L' b ins. V L b ins \<Longrightarrow> block_get L \<subseteq>\<^sub>m block_get L' \<Longrightarrow> V L' b ins"
    and step: "\<And>L b ins L'. ledger_inv cr mw L \<Longrightarrow> insertable cr L b ins \<Longrightarrow> V L b ins \<Longrightarrow>
      inserted cr L b ins L' \<Longrightarrow> ledger_inv cr mw L' \<Longrightarrow> K L \<Longrightarrow> K L'"
  shows "\<exists>L' out. insert_batch cr mw L rs = Some (L', out) \<and> ledger_inv cr mw L' \<and> K L' \<and>
    length out = length rs"
  using assms(1-6)
proof (induction rs arbitrary: L)
  case Nil
  then show ?case by simp
next
  case (Cons r rs)
  obtain x b where r: "r = (x, b)" by (cases r)
  have dist: "hashes_distinct cr rs"
    using Cons.prems(3) unfolding hashes_distinct_def by (meson list.set_intros(2))
  have rest: "\<forall>r \<in> set rs. ready cr L r" "unat (lg_next_id L) + length rs < 2 ^ 64 - 1"
    "\<forall>ins b. (Inr ins, b) \<in> set rs \<longrightarrow> V L b ins"
    using Cons.prems by auto
  show ?case
  proof (cases "\<exists>ins. x = Inr ins \<and> \<not> stale L ins")
    case False
    then show ?thesis
      using Cons.IH [OF Cons.prems(1) rest(1) dist rest(2) Cons.prems(5) rest(3)] r
      by (cases x) (auto simp: stale_insert)
  next
    case True
    then obtain ins where x: "x = Inr ins" and ins: "insertable cr L b ins"
      using Cons.prems(2) r by (auto simp: ready_def)
    have V: "V L b ins" using Cons.prems(6) r x by auto
    have room: "lg_next_id L < - 1"
      using Cons.prems(4) by (simp add: word_less_nat_alt unsigned_minus_1_eq_mask mask_eq_exp_minus_1)
    obtain L1 where L1: "insert_block cr mw L b ins = Some (L1, Some (new_saved_block b (in_set_sideband ins)))"
      and eff: "inserted cr L b ins L1" "block_store_inv L1" "weight_inv mw L1" "supply_inv L1"
      by (rule insert_effects [OF Cons.prems(1) ins room])
    have inv1: "ledger_inv cr mw L1"
      by (rule inserted_ledger_inv [OF Cons.prems(1) ins room eff])
    have "\<forall>r' \<in> set rs. ready cr L1 r'"
      using Cons.prems(1,2,3) r x by (intro inserted_all_ready [OF _ ins eff(1)]) auto
    moreover have "unat (lg_next_id L1) + length rs < 2 ^ 64 - 1"
      using Cons.prems(4) eff(1) unat_succ_height(1) [of "lg_next_id L" "lg_next_id L"] room
      by (simp add: inserted_def)
    moreover have "\<forall>ins b. (Inr ins, b) \<in> set rs \<longrightarrow> V L1 b ins"
      using rest(3) mono inserted_extends [OF ins eff(1)] by blast
    ultimately have "\<exists>L' out. insert_batch cr mw L1 rs = Some (L', out) \<and> ledger_inv cr mw L' \<and> K L' \<and>
        length out = length rs"
      using step [OF Cons.prems(1) ins V eff(1) inv1 Cons.prems(5)] by (intro Cons.IH [OF inv1 _ dist]) auto
    with L1 r x show ?thesis by auto
  qed
qed

text \<open>No account gets two blocks in one batch.\<close>

abbreviation saved_blocks :: "process_result list \<Rightarrow> saved_block list" where
  "saved_blocks out \<equiv> List.map_filter snd out"

lemma not_both: "insertable cr L b ins \<Longrightarrow> \<not> stale L ins"
  using not_changed [OF insertable_placeable] by (auto simp: stale_def)

lemma saved_blocks_simps [simp]:
  "saved_blocks [] = []"
  "saved_blocks ((x, None) # out) = saved_blocks out"
  "saved_blocks ((x, Some sv) # out) = sv # saved_blocks out"
  by (simp_all add: List.map_filter_def)

lemma insert_batch_accounts:
  assumes "ledger_inv cr mw L" "\<forall>r \<in> set rs. ready cr L r" "hashes_distinct cr rs"
    and "unat (lg_next_id L) + length rs < 2 ^ 64 - 1"
  shows "\<exists>L' out. insert_batch cr mw L rs = Some (L', out) \<and> distinct (map sv_account (saved_blocks out)) \<and>
    (\<forall>a. (\<forall>ins b. (Inr ins, b) \<in> set rs \<longrightarrow> in_account ins = a \<longrightarrow> stale L ins) \<longrightarrow>
      a \<notin> sv_account ` set (saved_blocks out))"
  using assms
proof (induction rs arbitrary: L)
  case Nil
  then show ?case by simp
next
  case (Cons r rs)
  obtain x b where r: "r = (x, b)" by (cases r)
  have dist: "hashes_distinct cr rs"
    using Cons.prems(3) unfolding hashes_distinct_def by (meson list.set_intros(2))
  have rest: "\<forall>r \<in> set rs. ready cr L r" "unat (lg_next_id L) + length rs < 2 ^ 64 - 1"
    using Cons.prems by auto
  show ?case
  proof (cases "\<exists>ins. x = Inr ins \<and> \<not> stale L ins")
    case False
    then show ?thesis
      using Cons.IH [OF Cons.prems(1) rest(1) dist rest(2)] r
      by (cases x) (auto simp: stale_insert)
  next
    case True
    then obtain ins where x: "x = Inr ins" and ins: "insertable cr L b ins"
      using Cons.prems(2) r by (auto simp: ready_def)
    have room: "lg_next_id L < - 1"
      using Cons.prems(4) by (simp add: word_less_nat_alt unsigned_minus_1_eq_mask mask_eq_exp_minus_1)
    obtain L1 where L1: "insert_block cr mw L b ins = Some (L1, Some (new_saved_block b (in_set_sideband ins)))"
      and eff: "inserted cr L b ins L1" "block_store_inv L1" "weight_inv mw L1" "supply_inv L1"
      by (rule insert_effects [OF Cons.prems(1) ins room])
    have inv1: "ledger_inv cr mw L1"
      by (rule inserted_ledger_inv [OF Cons.prems(1) ins room eff])
    have "\<forall>r' \<in> set rs. ready cr L1 r'"
      using Cons.prems(1,2,3) r x by (intro inserted_all_ready [OF _ ins eff(1)]) auto
    moreover have "unat (lg_next_id L1) + length rs < 2 ^ 64 - 1"
      using Cons.prems(4) eff(1) unat_succ_height(1) [of "lg_next_id L" "lg_next_id L"] room
      by (simp add: inserted_def)
    ultimately obtain L' out where out: "insert_batch cr mw L1 rs = Some (L', out)"
      "distinct (map sv_account (saved_blocks out))"
      and no: "\<And>a. (\<forall>ins b. (Inr ins, b) \<in> set rs \<longrightarrow> in_account ins = a \<longrightarrow> stale L1 ins) \<Longrightarrow>
        a \<notin> sv_account ` set (saved_blocks out)"
      using Cons.IH [OF inv1 _ dist] by auto
    have "stale L1 ins'" if m: "(Inr ins', b') \<in> set rs" "in_account ins' = in_account ins" for ins' b'
    proof -
      have "ready cr L (Inr ins', b')"
        using rest(1) m(1) by blast
      then show ?thesis
        using m(2) insertable_old_head [OF Cons.prems(1), of b' ins']
        by (intro inserted_makes_stale [OF ins eff(1)]) (auto simp: ready_def stale_def)
    qed
    then have "in_account ins \<notin> sv_account ` set (saved_blocks out)"
      by (intro no) blast
    moreover have "a \<notin> sv_account ` set (saved_blocks out)"
      if "\<forall>ins b. (Inr ins, b) \<in> set (r # rs) \<longrightarrow> in_account ins = a \<longrightarrow> stale L ins" for a
      using that inserted_keeps_stale [OF ins eff(1)] by (intro no) auto
    ultimately show ?thesis
      using L1 r x out insertable_basic(5) [OF ins] not_both [OF ins] by auto
  qed
qed

section \<open>Reachable ledgers\<close>

text \<open>
  The side conditions of a batch: no block hashes to zero (the code treats the zero hash as
  \<open>no block\<close>), none has an epoch link together with an increased balance, equal hashes belong to one
  account, and the 64-bit block ids do not run out.
\<close>

definition batch_ok :: "crypto \<Rightarrow> ledger_constants \<Rightarrow> ledger \<Rightarrow> (block \<times> timestamp) list \<Rightarrow> bool" where
  "batch_ok cr c L batch \<longleftrightarrow>
    (\<forall>b \<in> fst ` set batch. block_hash_of cr b \<noteq> 0 \<and> \<not> epoch_link_increase c L b) \<and>
    (\<forall>b \<in> fst ` set batch. \<forall>b' \<in> fst ` set batch.
      block_hash_of cr b = block_hash_of cr b' \<longrightarrow> account_for L b = account_for L b') \<and>
    unat (lg_next_id L) + length batch < 2 ^ 64 - 1"

lemma validated_account: "validate_block cr c L b now = Inr ins \<Longrightarrow> in_account ins = account_for L b"
  by (simp add: validate_block_def validate_Inr create_instructions_def)

lemma batch_ready:
  assumes inv: "ledger_inv cr mw L" and ok: "batch_ok cr c L batch"
  defines "rs \<equiv> map (\<lambda>(b, now). (validate_block cr c L b now, b)) batch"
  shows "\<forall>r \<in> set rs. ready cr L r" "hashes_distinct cr rs" "unat (lg_next_id L) + length rs < 2 ^ 64 - 1"
proof -
  show "\<forall>r \<in> set rs. ready cr L r"
    using ok validated_insertable [OF _ inv]
    by (fastforce simp: rs_def ready_def batch_ok_def split: sum.splits)
  show "hashes_distinct cr rs"
    using ok unfolding hashes_distinct_def batch_ok_def rs_def
    by (fastforce dest!: validated_account [OF sym])
  show "unat (lg_next_id L) + length rs < 2 ^ 64 - 1"
    using ok by (simp add: batch_ok_def rs_def)
qed

lemma process_batch_keeps:
  assumes inv: "ledger_inv cr mw L" and ok: "batch_ok cr c L batch" and "K L"
    and val: "\<And>b now ins. validate_block cr c L b now = Inr ins \<Longrightarrow> V L b ins"
    and mono: "\<And>L L' b ins. V L b ins \<Longrightarrow> block_get L \<subseteq>\<^sub>m block_get L' \<Longrightarrow> V L' b ins"
    and step: "\<And>L b ins L'. ledger_inv cr mw L \<Longrightarrow> insertable cr L b ins \<Longrightarrow> V L b ins \<Longrightarrow>
      inserted cr L b ins L' \<Longrightarrow> ledger_inv cr mw L' \<Longrightarrow> K L \<Longrightarrow> K L'"
  shows "\<exists>L' out. process_batch cr c mw L batch = Some (L', out) \<and> ledger_inv cr mw L' \<and> K L' \<and>
    length out = length batch"
proof -
  let ?rs = "map (\<lambda>(b, now). (validate_block cr c L b now, b)) batch"
  have V: "\<forall>ins b. (Inr ins, b) \<in> set ?rs \<longrightarrow> V L b ins"
    using val by (auto dest!: sym [of "Inr _"])
  have "\<exists>L' out. insert_batch cr mw L ?rs = Some (L', out) \<and> ledger_inv cr mw L' \<and> K L' \<and>
      length out = length ?rs"
    by (rule insert_batch_keeps [where V = V and K = K, OF inv batch_ready [OF inv ok] assms(3) V]) (fact mono, fact step)
  then show ?thesis by (simp add: process_batch_def)
qed

lemma process_batch_accounts:
  assumes inv: "ledger_inv cr mw L" and ok: "batch_ok cr c L batch"
  shows "\<exists>L' out. process_batch cr c mw L batch = Some (L', out) \<and> distinct (map sv_account (saved_blocks out))"
  using insert_batch_accounts [OF inv batch_ready [OF assms]] by (auto simp: process_batch_def)

text \<open>A single block.\<close>

lemma process_one_rejected:
  "validate_block cr c L b now = Inl e \<Longrightarrow> process_one cr c mw L b now = Some (L, Inl e)"
  by (simp add: process_one_def process_batch_def)

lemma process_one_accepted:
  assumes inv: "ledger_inv cr mw L" and ok: "batch_ok cr c L [(b, now)]" and val: "validate_block cr c L b now = Inr ins"
  shows "\<exists>L'. process_one cr c mw L b now = Some (L', Inr (new_saved_block b (in_set_sideband ins))) \<and>
    insertable cr L b ins \<and> inserted cr L b ins L' \<and> ledger_inv cr mw L'"
proof -
  have ins: "insertable cr L b ins"
    using ok by (intro validated_insertable [OF val inv]) (auto simp: batch_ok_def)
  have room: "lg_next_id L < - 1"
    using ok by (simp add: batch_ok_def word_less_nat_alt unsigned_minus_1_eq_mask mask_eq_exp_minus_1)
  obtain L' where L': "insert_block cr mw L b ins = Some (L', Some (new_saved_block b (in_set_sideband ins)))"
    and eff: "inserted cr L b ins L'" "block_store_inv L'" "weight_inv mw L'" "supply_inv L'"
    by (rule insert_effects [OF inv ins room])
  have "process_one cr c mw L b now = Some (L', Inr (new_saved_block b (in_set_sideband ins)))"
    by (simp add: process_one_def process_batch_def val L')
  with ins eff(1) inserted_ledger_inv [OF inv ins room eff] show ?thesis by blast
qed

lemmas process_batch_keeps_inv = process_batch_keeps [where K = "\<lambda>_. True" and V = "\<lambda>_ _ _. True", simplified]

text \<open>One round of processing, and what a later ledger is.\<close>

inductive batch_step :: "crypto \<Rightarrow> ledger_constants \<Rightarrow> amount \<Rightarrow> ledger \<Rightarrow> ledger \<Rightarrow> bool"
  for cr :: crypto and c :: ledger_constants and mw :: amount where
  "batch_ok cr c L bs \<Longrightarrow> process_batch cr c mw L bs = Some (L', out) \<Longrightarrow> batch_step cr c mw L L'"

inductive_cases batch_stepE: "batch_step cr c mw L L'"

lemma later_keeps:
  assumes "(batch_step cr c mw)\<^sup>*\<^sup>* L L'" and inv: "ledger_inv cr mw L" and "K L"
    and step: "\<And>L b ins L'. ledger_inv cr mw L \<Longrightarrow> insertable cr L b ins \<Longrightarrow>
      inserted cr L b ins L' \<Longrightarrow> ledger_inv cr mw L' \<Longrightarrow> K L \<Longrightarrow> K L'"
  shows "ledger_inv cr mw L' \<and> K L'"
  using assms(1)
proof (induction rule: rtranclp_induct)
  case base
  with assms show ?case by simp
next
  case (step L1 L2)
  from step.hyps(2) obtain bs out where "batch_ok cr c L1 bs" "process_batch cr c mw L1 bs = Some (L2, out)"
    by (rule batch_stepE)
  with process_batch_keeps [of cr mw L1 c bs K "\<lambda>_ _ _. True"] step.IH assms(4) show ?case by auto
qed

inductive reachable :: "crypto \<Rightarrow> ledger_constants \<Rightarrow> amount \<Rightarrow> ledger \<Rightarrow> bool"
  for cr :: crypto and c :: ledger_constants and mw :: amount where
  start: "initialize_ledger cr c mw empty_ledger = Some L \<Longrightarrow> reachable cr c mw L"
| batch: "reachable cr c mw L \<Longrightarrow> batch_ok cr c L bs \<Longrightarrow>
    process_batch cr c mw L bs = Some (L', out) \<Longrightarrow> reachable cr c mw L'"

definition genesis_ok :: "crypto \<Rightarrow> ledger_constants \<Rightarrow> bool" where
  "genesis_ok cr c \<longleftrightarrow> (\<exists>wt g signer. c = new_ledger_constants wt g signer \<and> opn_account g \<noteq> 0 \<and>
    opn_representative g = opn_account g \<and> block_hash_of cr (LegacyOpen g) \<noteq> 0)"

lemma initialize_inv:
  assumes "genesis_ok cr c"
  shows "\<exists>L. initialize_ledger cr c mw empty_ledger = Some L \<and> ledger_inv cr mw L"
proof -
  obtain wt g signer where c: "c = new_ledger_constants wt g signer" and "opn_account g \<noteq> 0"
    "opn_representative g = opn_account g" "block_hash_of cr (LegacyOpen g) \<noteq> 0"
    using assms by (auto simp: genesis_ok_def)
  moreover obtain i d where "initialize_ledger cr c mw empty_ledger = Some (genesis_ledger cr mw g i d)"
    "block_get (genesis_ledger cr mw g i d) = [block_hash_of cr (LegacyOpen g) \<mapsto> stored_genesis g]"
    "block_store_inv (genesis_ledger cr mw g i d)"
    by (rule initialize_effects [OF c])
  ultimately show ?thesis using genesis_ledger_inv by blast
qed

lemma reachable_ledger_inv:
  "reachable cr c mw L \<Longrightarrow> genesis_ok cr c \<Longrightarrow> ledger_inv cr mw L"
proof (induction rule: reachable.induct)
  case (start L)
  then show ?case using initialize_inv [of cr c mw] by auto
next
  case (batch L bs L' out)
  then show ?case using process_batch_keeps_inv by fastforce
qed

end
