(* ===== verification/Rollback.thy ===== *)
theory Rollback
  imports Ledger_Processing
begin

text \<open>
  Rolling back blocks (\<open>ledger/src/block_rollback\<close> and the rollback operations of
  \<open>ledger/src/ledger.rs\<close>). \<open>create_planner\<close> loads what is needed for the head block of an account,
  \<open>plan_head_block\<close> decides between an error, a request to roll back a dependency first, and the
  instructions for this block; \<open>execute_rollback\<close> carries them out. The outer \<open>None\<close> stands for a
  panic (or, for the loop, for not returning).
\<close>

section \<open>Planning\<close>

datatype rollback_error =
    BlockNotFound | BlockConfirmed | PreviousBlockMissing | RepresentativeBlockMissing | Rejected

record rollback_instructions =
  ri_block_hash :: block_hash
  ri_block_sub_type :: block_sub_type
  ri_account :: account
  ri_remove_pending :: "pending_key option"
  ri_add_pending :: "(pending_key \<times> pending_info) option"
  ri_set_account_info :: account_info
  ri_old_account_info :: account_info
  ri_clear_successor :: "block_hash option"
  ri_new_balance :: amount
  ri_new_representative :: "public_key option"

datatype rollback_step =
    RollBackBlock rollback_instructions
  | RequestDependencyRollback block_hash

record rollback_planner =
  rp_epochs :: epochs
  rp_head_block :: saved_block
  rp_account :: account
  rp_current_account_info :: account_info
  rp_previous_representative :: "public_key option"
  rp_previous :: "saved_block option"
  rp_linked_account :: account
  rp_pending_receive :: "pending_info option"
  rp_latest_block_for_destination :: "block_hash option"
  rp_confirmation_height :: confirmation_height_info
  rp_now :: timestamp

definition get_previous_representative :: "crypto \<Rightarrow> ledger \<Rightarrow> saved_block \<Rightarrow> public_key option option" where
  "get_previous_representative cr L head_block = do {
    rep_block_hash \<leftarrow> (if sv_previous head_block \<noteq> 0
      then find_rep_block cr L (sv_previous head_block) else Some 0);
    (if rep_block_hash \<noteq> 0 then do {
       rep_block \<leftarrow> any_get_block L rep_block_hash;
       Some (Some (unwrap_or_zero (representative_field (sv_block rep_block)))) }
     else Some None) }"

definition load_previous :: "ledger \<Rightarrow> saved_block \<Rightarrow> rollback_error + saved_block option" where
  "load_previous L head_block =
    (if sv_previous head_block = 0 then Inr None
     else case any_get_block L (sv_previous head_block) of
       None \<Rightarrow> Inl PreviousBlockMissing
     | Some p \<Rightarrow> Inr (Some p))"

definition load_linked_account :: "ledger \<Rightarrow> saved_block \<Rightarrow> account" where
  "load_linked_account L head_block =
    unwrap_or_zero (any_block_account L (source_or_link (sv_block head_block)))"

definition load_pending_receive :: "crypto \<Rightarrow> ledger \<Rightarrow> saved_block \<Rightarrow> pending_info option" where
  "load_pending_receive cr L head_block =
    pending_get L (PendingKey (destination_or_link (sv_block head_block)) (sv_hash cr head_block))"

definition latest_block_for_destination :: "ledger \<Rightarrow> saved_block \<Rightarrow> block_hash option" where
  "latest_block_for_destination L head_block =
    any_account_head L (destination_or_link (sv_block head_block))"

definition account_confirmation_height :: "ledger \<Rightarrow> saved_block \<Rightarrow> confirmation_height_info" where
  "account_confirmation_height L head_block =
    (case conf_height_get L (sv_account head_block) of
      Some i \<Rightarrow> i | None \<Rightarrow> default_confirmation_height_info)"

text \<open>\<open>now\<close> is the wall-clock time in seconds.\<close>

definition create_planner ::
  "crypto \<Rightarrow> ledger_constants \<Rightarrow> ledger \<Rightarrow> saved_block \<Rightarrow> timestamp \<Rightarrow>
    (rollback_error + rollback_planner) option" where
  "create_planner cr c L head_block now = do {
    acc \<leftarrow> any_block_account L (sv_hash cr head_block);
    let info = (case account_get L acc of Some i \<Rightarrow> i | None \<Rightarrow> default_account_info);
    previous_rep \<leftarrow> get_previous_representative cr L head_block;
    Some (case load_previous L head_block of
      Inl e \<Rightarrow> Inl e
    | Inr previous \<Rightarrow> Inr
        \<lparr> rp_epochs = lc_epochs c, rp_head_block = head_block, rp_account = acc,
          rp_current_account_info = info, rp_previous_representative = previous_rep,
          rp_previous = previous, rp_linked_account = load_linked_account L head_block,
          rp_pending_receive = load_pending_receive cr L head_block,
          rp_latest_block_for_destination = latest_block_for_destination L head_block,
          rp_confirmation_height = account_confirmation_height L head_block, rp_now = now \<rparr>) }"

definition rp_previous_balance :: "rollback_planner \<Rightarrow> amount" where
  "rp_previous_balance p = (case rp_previous p of Some b \<Rightarrow> sv_balance b | None \<Rightarrow> 0)"

definition rp_previous_epoch :: "rollback_planner \<Rightarrow> epoch" where
  "rp_previous_epoch p = (case rp_previous p of Some b \<Rightarrow> sv_epoch b | None \<Rightarrow> Epoch0)"

definition rp_old_representative :: "rollback_planner \<Rightarrow> public_key" where
  "rp_old_representative p =
    (case rp_previous_representative p of Some r \<Rightarrow> r
     | None \<Rightarrow> ai_representative (rp_current_account_info p))"

definition rollback_sub_type :: "rollback_planner \<Rightarrow> block_sub_type" where
  "rollback_sub_type p =
    (let current = ai_balance (rp_current_account_info p) in
     if current < rp_previous_balance p then SubSend
     else if rp_previous_balance p < current
     then (if is_open (sv_block (rp_head_block p)) then SubOpen else SubReceive)
     else if is_epoch_link (rp_epochs p) (unwrap_or_zero (link_field (sv_block (rp_head_block p)))) then SubEpoch
     else SubChange)"

definition rp_add_pending :: "rollback_planner \<Rightarrow> (pending_key \<times> pending_info) option" where
  "rp_add_pending p =
    (if rollback_sub_type p \<in> {SubOpen, SubReceive}
     then Some (PendingKey (rp_account p) (source_or_link (sv_block (rp_head_block p))),
       \<lparr> pi_source = rp_linked_account p,
         pi_amount = ai_balance (rp_current_account_info p) - rp_previous_balance p,
         pi_epoch = sv_source_epoch (rp_head_block p) \<rparr>)
     else None)"

definition rp_remove_pending :: "crypto \<Rightarrow> rollback_planner \<Rightarrow> pending_key option" where
  "rp_remove_pending cr p =
    (if rollback_sub_type p = SubSend
     then Some (PendingKey (destination_or_link (sv_block (rp_head_block p))) (sv_hash cr (rp_head_block p)))
     else None)"

definition previous_account_info :: "rollback_planner \<Rightarrow> account_info" where
  "previous_account_info p =
    (if sv_previous (rp_head_block p) = 0 then default_account_info
     else \<lparr> ai_head = sv_previous (rp_head_block p), ai_representative = rp_old_representative p,
            ai_open_block = ai_open_block (rp_current_account_info p),
            ai_balance = rp_previous_balance p, ai_modified = rp_now p,
            ai_block_count = ai_block_count (rp_current_account_info p) - 1,
            ai_epoch = rp_previous_epoch p \<rparr>)"

definition rollback_instructions_for :: "crypto \<Rightarrow> rollback_planner \<Rightarrow> rollback_instructions" where
  "rollback_instructions_for cr p =
    \<lparr> ri_block_hash = sv_hash cr (rp_head_block p), ri_block_sub_type = rollback_sub_type p,
      ri_account = rp_account p, ri_remove_pending = rp_remove_pending cr p,
      ri_add_pending = rp_add_pending p, ri_set_account_info = previous_account_info p,
      ri_old_account_info = rp_current_account_info p,
      ri_clear_successor = map_option (sv_hash cr) (rp_previous p),
      ri_new_balance = rp_previous_balance p,
      ri_new_representative = rp_previous_representative p \<rparr>"

definition plan_head_block :: "crypto \<Rightarrow> rollback_planner \<Rightarrow> (rollback_error + rollback_step) option" where
  "plan_head_block cr p =
    (if sv_height (rp_head_block p) \<le> ch_height (rp_confirmation_height p) then Some (Inl BlockConfirmed)
     else if rollback_sub_type p = SubSend \<and> rp_pending_receive p = None
     then (case rp_latest_block_for_destination p of
             Some h \<Rightarrow> Some (Inr (RequestDependencyRollback h))
           | None \<Rightarrow> None)
     else if rp_previous_representative p = None \<and>
         block_type_of (sv_block (rp_head_block p)) \<in> {BT_LegacyChange, BT_State} \<and>
         \<not> is_open (sv_block (rp_head_block p))
     then Some (Inl RepresentativeBlockMissing)
     else Some (Inr (RollBackBlock (rollback_instructions_for cr p))))"

definition roll_back_head_block ::
  "crypto \<Rightarrow> ledger_constants \<Rightarrow> ledger \<Rightarrow> saved_block \<Rightarrow> timestamp \<Rightarrow> (rollback_error + rollback_step) option" where
  "roll_back_head_block cr c L head_block now = do {
    planner \<leftarrow> create_planner cr c L head_block now;
    (case planner of Inl e \<Rightarrow> Some (Inl e) | Inr p \<Rightarrow> plan_head_block cr p) }"

section \<open>Executing\<close>

definition update_pending_table :: "ledger \<Rightarrow> rollback_instructions \<Rightarrow> ledger option" where
  "update_pending_table L ins = do {
    L \<leftarrow> (case ri_remove_pending ins of Some k \<Rightarrow> pending_del L k | None \<Rightarrow> Some L);
    Some (case ri_add_pending ins of Some (k, i) \<Rightarrow> pending_put L k i | None \<Rightarrow> L) }"

definition update_account_table :: "ledger \<Rightarrow> rollback_instructions \<Rightarrow> ledger option" where
  "update_account_table L ins =
    update_account L (ri_account ins) (ri_old_account_info ins) (ri_set_account_info ins)"

definition update_block_table :: "ledger \<Rightarrow> rollback_instructions \<Rightarrow> ledger option" where
  "update_block_table L ins = do {
    L \<leftarrow> block_del L (ri_block_hash ins);
    (case ri_clear_successor ins of Some h \<Rightarrow> successor_del L h | None \<Rightarrow> Some L) }"

definition roll_back_representative_cache :: "amount \<Rightarrow> ledger \<Rightarrow> rollback_instructions \<Rightarrow> ledger option" where
  "roll_back_representative_cache min_weight L ins =
    (case ri_new_representative ins of
      Some previous_rep \<Rightarrow>
        representation_add_dual min_weight L (ai_representative (ri_old_account_info ins))
          (0 - ai_balance (ri_old_account_info ins)) previous_rep (ri_new_balance ins)
    | None \<Rightarrow>
        representation_add min_weight L (ai_representative (ri_old_account_info ins))
          (0 - ai_balance (ri_old_account_info ins)))"

definition execute_rollback :: "amount \<Rightarrow> ledger \<Rightarrow> rollback_instructions \<Rightarrow> ledger option" where
  "execute_rollback min_weight L ins = do {
    L \<leftarrow> update_pending_table L ins;
    L \<leftarrow> update_account_table L ins;
    L \<leftarrow> update_block_table L ins;
    L \<leftarrow> roll_back_representative_cache min_weight L ins;
    Some (L\<lparr> lg_block_count := lg_block_count L - 1 \<rparr>) }"

section \<open>The work list\<close>

definition load_block :: "ledger \<Rightarrow> block_hash \<Rightarrow> rollback_error + saved_block" where
  "load_block L h = (case any_get_block L h of Some b \<Rightarrow> Inr b | None \<Rightarrow> Inl BlockNotFound)"

text \<open>\<open>load_account_head\<close> panics when the account is missing.\<close>

definition load_account_head :: "ledger \<Rightarrow> saved_block \<Rightarrow> (rollback_error + saved_block) option" where
  "load_account_head L b = do {
    info \<leftarrow> account_get L (sv_account b);
    Some (load_block L (ai_head info)) }"

text \<open>
  The stack of targets, each with the current head of its account; the top of the stack is the head
  of the list. \<open>clock n\<close> is the time read in the \<open>n\<close>-th round. The result is the ledger, the blocks
  rolled back so far and the outcome.
\<close>

type_synonym rollback_result = "ledger \<times> saved_block list \<times> (rollback_error + unit)"

partial_function (option) roll_back_impl ::
  "crypto \<Rightarrow> ledger_constants \<Rightarrow> amount \<Rightarrow> (nat \<Rightarrow> timestamp) \<Rightarrow> nat \<Rightarrow> ledger \<Rightarrow>
    (saved_block \<times> saved_block) list \<Rightarrow> saved_block list \<Rightarrow> rollback_result option" where
  "roll_back_impl cr c mw clock n L targets rolled_back =
    (case targets of
      [] \<Rightarrow> Some (L, rolled_back, Inr ())
    | (target_block, head_block) # rest \<Rightarrow>
        if \<not> any_block_exists L (sv_hash cr target_block)
        then roll_back_impl cr c mw clock n L rest rolled_back
        else do {
          step \<leftarrow> roll_back_head_block cr c L head_block (clock n);
          (case step of
            Inl e \<Rightarrow> Some (L, rolled_back, Inl e)
          | Inr (RollBackBlock ins) \<Rightarrow> do {
              L \<leftarrow> execute_rollback mw L ins;
              let rolled_back = rolled_back @ [head_block];
              (if sv_hash cr head_block \<noteq> sv_hash cr target_block then do {
                 head \<leftarrow> load_account_head L target_block;
                 (case head of
                   Inl e \<Rightarrow> Some (L, rolled_back, Inl e)
                 | Inr head_block \<Rightarrow>
                     roll_back_impl cr c mw clock (n + 1) L ((target_block, head_block) # rest) rolled_back) }
               else roll_back_impl cr c mw clock (n + 1) L ((target_block, head_block) # rest) rolled_back) }
          | Inr (RequestDependencyRollback dependency_hash) \<Rightarrow>
              (case load_block L dependency_hash of
                Inl e \<Rightarrow> Some (L, rolled_back, Inl e)
              | Inr dep_block \<Rightarrow> do {
                  dep_head \<leftarrow> load_account_head L target_block;
                  (case dep_head of
                    Inl e \<Rightarrow> Some (L, rolled_back, Inl e)
                  | Inr dep_head \<Rightarrow>
                      roll_back_impl cr c mw clock (n + 1) L
                        ((dep_block, dep_head) # (target_block, head_block) # rest) rolled_back) })) })"

definition roll_back_performer ::
  "crypto \<Rightarrow> ledger_constants \<Rightarrow> amount \<Rightarrow> (nat \<Rightarrow> timestamp) \<Rightarrow> ledger \<Rightarrow> block_hash \<Rightarrow> rollback_result option" where
  "roll_back_performer cr c mw clock L h =
    (case load_block L h of
      Inl e \<Rightarrow> Some (L, [], Inl e)
    | Inr target_block \<Rightarrow> do {
        head \<leftarrow> load_account_head L target_block;
        (case head of
          Inl e \<Rightarrow> Some (L, [], Inl e)
        | Inr head_block \<Rightarrow> roll_back_impl cr c mw clock 0 L [(target_block, head_block)] []) })"

section \<open>The ledger's operations\<close>

text \<open>\<open>roll_back_with_tx\<close>: the blocks rolled back, and the error if there was one.\<close>

definition roll_back_with_tx ::
  "crypto \<Rightarrow> ledger_constants \<Rightarrow> amount \<Rightarrow> (nat \<Rightarrow> timestamp) \<Rightarrow> ledger \<Rightarrow> block_hash \<Rightarrow>
    (ledger \<times> saved_block list \<times> rollback_error option) option" where
  "roll_back_with_tx cr c mw clock L h = do {
    (L, rolled_back, result) \<leftarrow> roll_back_performer cr c mw clock L h;
    Some (L, rolled_back, case result of Inr _ \<Rightarrow> None | Inl e \<Rightarrow> Some e) }"

text \<open>\<open>clock i n\<close> is the time read in round \<open>n\<close> of the rollback of the \<open>i\<close>-th target.\<close>

record rollback_batch_result =
  rr_target_hash :: block_hash
  rr_target_root :: qualified_root
  rr_rolled_back :: "saved_block list"
  rr_error :: "rollback_error option"

fun roll_back_batch_from ::
  "crypto \<Rightarrow> ledger_constants \<Rightarrow> amount \<Rightarrow> (nat \<Rightarrow> nat \<Rightarrow> timestamp) \<Rightarrow> nat \<Rightarrow> (block_hash \<Rightarrow> bool) \<Rightarrow> nat \<Rightarrow> nat \<Rightarrow>
    ledger \<Rightarrow> block_hash list \<Rightarrow> (ledger \<times> rollback_batch_result list) option" where
  "roll_back_batch_from cr c mw clock max_rollbacks can_roll_back i count L [] = Some (L, [])"
| "roll_back_batch_from cr c mw clock max_rollbacks can_roll_back i count L (h # targets) =
    (if \<not> can_roll_back h then do {
       (L, results) \<leftarrow> roll_back_batch_from cr c mw clock max_rollbacks can_roll_back (i + 1) count L targets;
       Some (L, \<lparr> rr_target_hash = h, rr_target_root = QualifiedRoot 0 0, rr_rolled_back = [],
         rr_error = Some Rejected \<rparr> # results) }
     else case block_get L h of
       Some b \<Rightarrow> do {
         (L, rollback_list, err) \<leftarrow> roll_back_with_tx cr c mw (clock i) L (sv_hash cr b);
         let count = count + length rollback_list;
         let result = \<lparr> rr_target_hash = h, rr_target_root = block_qualified_root (sv_block b),
           rr_rolled_back = rollback_list, rr_error = err \<rparr>;
         (if max_rollbacks \<le> count then Some (L, [result])
          else do {
            (L, results) \<leftarrow> roll_back_batch_from cr c mw clock max_rollbacks can_roll_back (i + 1) count L targets;
            Some (L, result # results) }) }
     | None \<Rightarrow> do {
         (L, results) \<leftarrow> roll_back_batch_from cr c mw clock max_rollbacks can_roll_back (i + 1) (count + 1) L targets;
         Some (L, \<lparr> rr_target_hash = h, rr_target_root = QualifiedRoot 0 0, rr_rolled_back = [],
           rr_error = Some BlockNotFound \<rparr> # results) })"

definition roll_back_batch ::
  "crypto \<Rightarrow> ledger_constants \<Rightarrow> amount \<Rightarrow> (nat \<Rightarrow> nat \<Rightarrow> timestamp) \<Rightarrow> ledger \<Rightarrow> block_hash list \<Rightarrow> nat \<Rightarrow>
    (block_hash \<Rightarrow> bool) \<Rightarrow> (ledger \<times> rollback_batch_result list) option" where
  "roll_back_batch cr c mw clock L targets max_rollbacks can_roll_back =
    roll_back_batch_from cr c mw clock max_rollbacks can_roll_back 0 0 L targets"

definition roll_back ::
  "crypto \<Rightarrow> ledger_constants \<Rightarrow> amount \<Rightarrow> (nat \<Rightarrow> timestamp) \<Rightarrow> ledger \<Rightarrow> block_hash \<Rightarrow>
    (ledger \<times> (rollback_error + nat)) option" where
  "roll_back cr c mw clock L h = do {
    (L, results) \<leftarrow> roll_back_batch cr c mw (\<lambda>_. clock) L [h] (2 ^ 64 - 1) (\<lambda>_. True);
    (case results of
      [] \<Rightarrow> None
    | r # _ \<Rightarrow> Some (L, case rr_error r of None \<Rightarrow> Inr (length (rr_rolled_back r)) | Some e \<Rightarrow> Inl e)) }"

definition rollback_competitor ::
  "crypto \<Rightarrow> ledger_constants \<Rightarrow> amount \<Rightarrow> (nat \<Rightarrow> timestamp) \<Rightarrow> ledger \<Rightarrow> block \<Rightarrow>
    (ledger \<times> saved_block list) option" where
  "rollback_competitor cr c mw clock L fork_block =
    (case block_successor_by_qualified_root L (block_qualified_root fork_block) of
      Some successor \<Rightarrow>
        if successor \<noteq> block_hash_of cr fork_block then do {
          (L, rollback_list, _) \<leftarrow> roll_back_with_tx cr c mw clock L successor;
          Some (L, rollback_list) }
        else Some (L, [])
    | None \<Rightarrow> Some (L, []))"

text \<open>
  \<open>roll_back_competitors\<close>: the results handed to the callback, in order. (When the transaction is
  refreshed on the way, the results so far are handed over earlier.)
\<close>

fun roll_back_competitors ::
  "crypto \<Rightarrow> ledger_constants \<Rightarrow> amount \<Rightarrow> (nat \<Rightarrow> nat \<Rightarrow> timestamp) \<Rightarrow> nat \<Rightarrow> ledger \<Rightarrow> block list \<Rightarrow>
    (ledger \<times> rollback_batch_result list) option" where
  "roll_back_competitors cr c mw clock i L [] = Some (L, [])"
| "roll_back_competitors cr c mw clock i L (b # blocks) = do {
    (L, rolled_back_blocks) \<leftarrow> rollback_competitor cr c mw (clock i) L b;
    (L, results) \<leftarrow> roll_back_competitors cr c mw clock (i + 1) L blocks;
    Some (L, if rolled_back_blocks = [] then results
      else \<lparr> rr_target_hash = block_hash_of cr b, rr_target_root = block_qualified_root b,
        rr_rolled_back = rolled_back_blocks, rr_error = None \<rparr> # results) }"

end
