(* ===== verification/Account_Chain.thy ===== *)
theory Account_Chain
  imports Insertion_Correct
begin

text \<open>
  What the invariant says about the blocks of one account: they form a single chain from the open
  block to the head, with heights \<open>1\<close> to \<open>block_count\<close>, no two blocks compete for one root, and the
  search for the representative block returns.
\<close>

lemma open_block_unique:
  assumes "ledger_inv cr mw L" "block_get L h = Some b" "sv_previous b = 0"
  shows "is_open (sv_block b)" "sv_height b = 1"
    "map_option ai_open_block (account_get L (sv_account b)) = Some h"
  using inv_block [OF assms(1,2)] assms(3) by (simp_all add: block_ok_def)

lemma previous_block_stored:
  assumes "ledger_inv cr mw L" "block_get L h = Some b" "sv_previous b \<noteq> 0"
  obtains p where "block_get L (sv_previous b) = Some p" "sv_account p = sv_account b"
    "unat (sv_height b) = unat (sv_height p) + 1" "successor_get L (sv_previous b) = Some h"
  using inv_block [OF assms(1,2)] assms(3) by (auto simp: block_ok_def)

lemma height_positive: "ledger_inv cr mw L \<Longrightarrow> block_get L h = Some b \<Longrightarrow> 1 \<le> unat (sv_height b)"
  by (cases "sv_previous b = 0") (auto simp: open_block_unique elim: previous_block_stored)

lemma opened_at_height_1:
  assumes "ledger_inv cr mw L" "block_get L h = Some b"
  shows "sv_previous b = 0 \<longleftrightarrow> unat (sv_height b) = 1"
proof (cases "sv_previous b = 0")
  case False
  then obtain p where "block_get L (sv_previous b) = Some p" "unat (sv_height b) = unat (sv_height p) + 1"
    by (rule previous_block_stored [OF assms])
  with False height_positive [OF assms(1)] show ?thesis by force
qed (simp add: open_block_unique(2) [OF assms])

lemma block_at_height_unique:
  assumes inv: "ledger_inv cr mw L"
  shows "unat (sv_height b) = n \<Longrightarrow> unat (sv_height b') = n \<Longrightarrow> block_get L h = Some b \<Longrightarrow>
    block_get L h' = Some b' \<Longrightarrow> sv_account b = sv_account b' \<Longrightarrow> h = h'"
proof (induction n arbitrary: b b' h h')
  case 0
  then show ?case using height_positive [OF inv 0(3)] by simp
next
  case (Suc n)
  show ?case
  proof (cases "sv_previous b = 0 \<or> sv_previous b' = 0")
    case True
    with Suc.prems have "sv_previous b = 0" "sv_previous b' = 0"
      using opened_at_height_1 [OF inv Suc.prems(3)] opened_at_height_1 [OF inv Suc.prems(4)] by auto
    then show ?thesis
      using open_block_unique(3) [OF inv Suc.prems(3)] open_block_unique(3) [OF inv Suc.prems(4)] Suc.prems(5)
      by simp
  next
    case False
    obtain p where p: "block_get L (sv_previous b) = Some p" "sv_account p = sv_account b"
      "unat (sv_height b) = unat (sv_height p) + 1" "successor_get L (sv_previous b) = Some h"
      using previous_block_stored [OF inv Suc.prems(3)] False by blast
    obtain p' where p': "block_get L (sv_previous b') = Some p'" "sv_account p' = sv_account b'"
      "unat (sv_height b') = unat (sv_height p') + 1" "successor_get L (sv_previous b') = Some h'"
      using previous_block_stored [OF inv Suc.prems(4)] False by blast
    have "sv_previous b = sv_previous b'"
      using Suc.IH [of p p'] Suc.prems p p' by simp
    with p p' show ?thesis by simp
  qed
qed

lemma block_below:
  assumes inv: "ledger_inv cr mw L"
  shows "block_get L h = Some b \<Longrightarrow> 1 \<le> k \<Longrightarrow> k \<le> unat (sv_height b) \<Longrightarrow>
    \<exists>h' b'. block_get L h' = Some b' \<and> sv_account b' = sv_account b \<and> unat (sv_height b') = k"
proof (induction "unat (sv_height b)" arbitrary: h b rule: less_induct)
  case less
  show ?case
  proof (cases "k = unat (sv_height b)")
    case True
    with less.prems show ?thesis by blast
  next
    case False
    then have "sv_previous b \<noteq> 0"
      using less.prems open_block_unique(2) [OF inv less.prems(1)] by auto
    then obtain p where p: "block_get L (sv_previous b) = Some p" "sv_account p = sv_account b"
      "unat (sv_height b) = unat (sv_height p) + 1"
      using previous_block_stored [OF inv less.prems(1)] by blast
    then show ?thesis
      using less.hyps [of p "sv_previous b"] less.prems False by auto
  qed
qed

lemma height_le_block_count:
  assumes inv: "ledger_inv cr mw L" and b: "block_get L h = Some b" and i: "account_get L (sv_account b) = Some i"
  shows "unat (sv_height b) \<le> unat (ai_block_count i)"
proof (rule ccontr)
  assume gt: "\<not> ?thesis"
  obtain hd where hd: "block_get L (ai_head i) = Some hd" "sv_account hd = sv_account b"
    "sv_height hd = ai_block_count i" and none: "successor_get L (ai_head i) = None"
    using inv_account [OF inv i] by (auto simp: account_ok_def)
  obtain h' b' where b': "block_get L h' = Some b'" "sv_account b' = sv_account b"
    "unat (sv_height b') = unat (ai_block_count i) + 1"
    using block_below [OF inv b, of "unat (ai_block_count i) + 1"] gt by auto
  have "sv_previous b' \<noteq> 0"
    using open_block_unique(2) [OF inv b'(1)] b'(3) height_positive [OF inv hd(1)] hd(3) by auto
  then obtain p where p: "block_get L (sv_previous b') = Some p" "sv_account p = sv_account b'"
    "unat (sv_height b') = unat (sv_height p) + 1" "successor_get L (sv_previous b') = Some h'"
    using previous_block_stored [OF inv b'(1)] by blast
  have "sv_previous b' = ai_head i"
    using block_at_height_unique [OF inv, of p _ hd] p hd b' by simp
  with p none show False by simp
qed

text \<open>The representative search returns a block that names the representative in force.\<close>

lemma find_rep_block_returns:
  assumes rep: "has_rep (block_get L) h r" and inv: "ledger_inv cr mw L"
  shows "\<exists>rh rb. find_rep_block cr L h = Some rh \<and> rh \<noteq> 0 \<and> block_get L rh = Some rb \<and>
    representative_field (sv_block rb) = Some r"
  using rep
proof (induction rule: has_rep.induct)
  case (named h b r)
  have "sv_hash cr b = h" "h \<noteq> 0"
    using inv_block [OF inv named(1)] by (simp_all add: block_ok_def)
  with named show ?case
    by (cases "sv_block b") (auto simp: find_rep_block.simps [of cr L h])
next
  case (inherited h b r)
  then show ?case
    by (cases "sv_block b") (auto simp: find_rep_block.simps [of cr L h])
qed

text \<open>Heights number the blocks of an account from \<open>1\<close> to its block count.\<close>

definition account_blocks :: "ledger \<Rightarrow> account \<Rightarrow> block_hash set" where
  "account_blocks L a = {h. \<exists>b. block_get L h = Some b \<and> sv_account b = a}"

lemma account_blocks_heights:
  assumes inv: "ledger_inv cr mw L" and i: "account_get L a = Some i"
  shows "bij_betw (\<lambda>h. unat (sv_height (the (block_get L h)))) (account_blocks L a) {1..unat (ai_block_count i)}"
proof (rule bij_betwI')
  show "unat (sv_height (the (block_get L h))) = unat (sv_height (the (block_get L h'))) \<longleftrightarrow> h = h'"
    if "h \<in> account_blocks L a" "h' \<in> account_blocks L a" for h h'
    using that block_at_height_unique [OF inv] by (auto simp: account_blocks_def)
next
  show "unat (sv_height (the (block_get L h))) \<in> {1..unat (ai_block_count i)}" if "h \<in> account_blocks L a" for h
    using that height_positive [OF inv] height_le_block_count [OF inv] i by (auto simp: account_blocks_def)
next
  fix n assume n: "n \<in> {1..unat (ai_block_count i)}"
  obtain hd where hd: "block_get L (ai_head i) = Some hd" "sv_account hd = a" "sv_height hd = ai_block_count i"
    using inv_account [OF inv i] by (auto simp: account_ok_def)
  then obtain h b where "block_get L h = Some b" "sv_account b = a" "unat (sv_height b) = n"
    using block_below [OF inv hd(1), of n] n by auto
  then show "\<exists>h \<in> account_blocks L a. n = unat (sv_height (the (block_get L h)))"
    by (force simp: account_blocks_def)
qed

text \<open>Qualified roots: a stored block is the only one with its root.\<close>

lemma open_root:
  assumes "ledger_inv cr mw L" "block_get L h = Some b" "sv_previous b = 0"
  shows "block_root (sv_block b) = sv_account b"
  using open_block_unique(1) [OF assms] block_get_saved_ok [OF assms(2)] assms(3)
  by (cases "sv_block b") (auto simp: sv_account_def saved_ok_def)

lemma root_unique:
  assumes inv: "ledger_inv cr mw L" and b: "block_get L h = Some b" and b': "block_get L h' = Some b'"
    and eq: "block_qualified_root (sv_block b) = block_qualified_root (sv_block b')"
  shows "h = h'"
proof (cases "sv_previous b = 0")
  case True
  then have z: "sv_previous b' = 0" and "sv_account b = sv_account b'"
    using eq open_root [OF inv b] open_root [OF inv b'] by (simp_all add: block_qualified_root_def)
  with open_block_unique(3) [OF inv b True] open_block_unique(3) [OF inv b' z] show ?thesis by simp
next
  case False
  then have "sv_previous b' = sv_previous b"
    using eq by (simp add: block_qualified_root_def)
  then show ?thesis
    using previous_block_stored [OF inv b False] previous_block_stored [OF inv b'] False
    by (metis option.inject)
qed

lemma stored_root_rejected:
  assumes inv: "ledger_inv cr mw L" and b: "block_get L h = Some b"
    and eq: "block_qualified_root b' = block_qualified_root (sv_block b)"
  shows "\<exists>e. validate_block cr c L b' now = Inl e"
proof (rule ccontr)
  assume "\<not> ?thesis"
  then have ok: "first_error (validation_checks cr (create_validator cr c L b' now)) = Ok"
    by (cases "validate_block cr c L b' now") (auto simp: validate_block_def validate_Inr)
  have prev: "block_previous b' = sv_previous b" and root: "block_root b' = block_root (sv_block b)"
    using eq by (simp_all add: block_qualified_root_def)
  show False
  proof (cases "account_get L (account_for L b')")
    case None
    have "is_open b'" "block_previous b' = 0"
      using validated_new_account [OF ok None] by simp_all
    then have "account_for L b' = sv_account b"
      using root open_root [OF inv b] prev by (cases b') (auto simp: validator_account_def)
    then show False
      using None inv_block [OF inv b] by (simp add: block_ok_def)
  next
    case (Some i)
    obtain p where "block_previous b' = ai_head i" "ai_head i \<noteq> 0"
      using validated_old_account [OF ok Some inv] by metis
    then have "successor_get L (ai_head i) = Some h"
      using previous_block_stored [OF inv b] prev by metis
    then show False
      using inv_account [OF inv Some] by (simp add: account_ok_def)
  qed
qed

end
