(* ===== verification/Rollback_Correct.thy ===== *)
theory Rollback_Correct
  imports Rollback Account_Chain
begin

text \<open>
  Two facts about rollbacks. Safety: whatever is rolled back, confirmed blocks stay, because every
  deleted block has been checked against the confirmation height of its account. Round trip: rolling
  back the block that was just processed restores every table, except for the modification time of
  the account.
\<close>

section \<open>The effects of executing instructions\<close>

lemma update_pending_frame:
  assumes "update_pending_table L ins = Some L'"
  obtains t where "L' = L\<lparr> lg_pending := t \<rparr>"
proof -
  have "\<exists>t. L' = L\<lparr> lg_pending := t \<rparr>"
    using assms
    by (cases L; cases "ri_remove_pending ins"; cases "ri_add_pending ins")
      (auto simp: update_pending_table_def pending_del_def pending_put_def bind_eq_Some_conv)
  with that show thesis by blast
qed

lemma update_account_frame:
  assumes "update_account L a old new = Some L'"
  obtains t n where "L' = L\<lparr> lg_account := t, lg_account_count := n \<rparr>"
proof -
  have "\<exists>t n. L' = L\<lparr> lg_account := t, lg_account_count := n \<rparr>"
    using assms
    by (cases L) (auto simp: update_account_def account_del_def account_put_def bind_eq_Some_conv Let_def
        split: if_splits)
  with that show thesis by blast
qed

lemma put_store_frame:
  "put_store L r p w = Some L' \<Longrightarrow> \<exists>t. L' = L\<lparr> lg_rep_weight := t \<rparr>"
  by (cases L) (auto simp: put_store_def rep_weight_del_def rep_weight_put_def bind_eq_Some_conv split: if_splits)

lemma representation_add_frame:
  assumes "representation_add mw L r a = Some L'"
  shows "\<exists>t c. L' = L\<lparr> lg_rep_weight := t, lg_rep_cache := c \<rparr>"
  using assms by (auto simp: representation_add_def set_cache_def Let_def bind_eq_Some_conv dest!: put_store_frame)

lemma representation_add_dual_frame:
  assumes "representation_add_dual mw L r1 a1 r2 a2 = Some L'"
  shows "\<exists>t c. L' = L\<lparr> lg_rep_weight := t, lg_rep_cache := c \<rparr>"
  using assms
  by (auto simp: representation_add_dual_def set_cache_def Let_def bind_eq_Some_conv
      split: if_splits dest!: put_store_frame representation_add_frame)
    (intro exI, rule refl)

lemma rollback_representative_frame:
  "roll_back_representative_cache mw L ins = Some L' \<Longrightarrow> \<exists>t c. L' = L\<lparr> lg_rep_weight := t, lg_rep_cache := c \<rparr>"
  by (auto simp: roll_back_representative_cache_def split: option.splits
      dest: representation_add_frame representation_add_dual_frame)

lemma block_del_view:
  assumes "block_store_inv L" "block_del L h = Some L'"
  shows "\<exists>i d. L' = L\<lparr> lg_index := i, lg_block_data := d \<rparr> \<and> block_store_inv L' \<and> block_get L' = (block_get L)(h := None)"
proof -
  have frame: "\<exists>i d. L' = L\<lparr> lg_index := i, lg_block_data := d \<rparr>"
    using assms(2) by (cases L) (auto simp: block_del_def bind_eq_Some_conv split: option.splits)
  show ?thesis
  proof (cases "block_get L h = None")
    case True
    then have "RBT.lookup (lg_index L) h = None"
      using assms(1) block_exists_iff [of L h] by (simp add: block_exists_store_def store_exists_def)
    then have "L' = L" using assms(2) by (simp add: block_del_def)
    with True assms(1) frame show ?thesis by (auto simp: fun_upd_idem)
  next
    case False
    with block_map.get_del [OF assms(1) False assms(2)] frame show ?thesis by blast
  qed
qed

lemma successor_del_frame: "successor_del L h = Some L' \<Longrightarrow> \<exists>t. L' = L\<lparr> lg_successors := t \<rparr>"
  by (auto simp: successor_del_def bind_eq_Some_conv)

lemma clear_successor_frame:
  assumes "(case x of Some h \<Rightarrow> successor_del L h | None \<Rightarrow> Some L) = Some L'"
  shows "\<exists>t. L' = L\<lparr> lg_successors := t \<rparr>"
proof (cases x)
  case None
  with assms have "L' = L\<lparr> lg_successors := lg_successors L \<rparr>" by simp
  then show ?thesis ..
next
  case (Some h)
  with assms successor_del_frame show ?thesis by simp
qed

text \<open>Whatever the instructions say, the block table loses one block and confirmations stay.\<close>

lemma execute_rollback_blocks:
  assumes inv: "block_store_inv L" and ex: "execute_rollback mw L ins = Some L'"
  shows "block_store_inv L' \<and> block_get L' = (block_get L)(ri_block_hash ins := None) \<and>
    conf_height_get L' = conf_height_get L \<and> lg_pruned L' = lg_pruned L"
proof -
  obtain L1 L2 L3 L4 L5 where 1: "update_pending_table L ins = Some L1"
    and 2: "update_account_table L1 ins = Some L2" and 3: "block_del L2 (ri_block_hash ins) = Some L3"
    and 4: "(case ri_clear_successor ins of Some h \<Rightarrow> successor_del L3 h | None \<Rightarrow> Some L3) = Some L4"
    and 5: "roll_back_representative_cache mw L4 ins = Some L5"
    and L': "L' = L5\<lparr> lg_block_count := lg_block_count L5 - 1 \<rparr>"
    using ex by (auto simp: execute_rollback_def update_block_table_def bind_eq_Some_conv)
  obtain p where L1: "L1 = L\<lparr> lg_pending := p \<rparr>"
    using update_pending_frame [OF 1] .
  obtain t n where L2: "L2 = L1\<lparr> lg_account := t, lg_account_count := n \<rparr>"
    using update_account_frame [OF 2 [unfolded update_account_table_def]] .
  have inv2: "block_store_inv L2" and get2: "block_get L2 = block_get L"
    using block_store_inv_frame [OF inv, of L2] block_get_frame [of L2 L] by (simp_all add: L1 L2)
  obtain i d where L3: "L3 = L2\<lparr> lg_index := i, lg_block_data := d \<rparr>" and inv3: "block_store_inv L3"
    and get3: "block_get L3 = (block_get L2)(ri_block_hash ins := None)"
    using block_del_view [OF inv2 3] by blast
  obtain s where L4: "L4 = L3\<lparr> lg_successors := s \<rparr>"
    using clear_successor_frame [OF 4] ..
  obtain w c where L5: "L5 = L4\<lparr> lg_rep_weight := w, lg_rep_cache := c \<rparr>"
    using rollback_representative_frame [OF 5] by blast
  have same: "lg_index L' = lg_index L3" "lg_block_data L' = lg_block_data L3" "lg_next_id L' = lg_next_id L3"
    by (simp_all add: L' L5 L4)
  show ?thesis
    using block_store_inv_frame [OF inv3 same] block_get_frame [OF same(1,2)] get3 get2
    by (simp add: L' L5 L4 L3 L2 L1 conf_height_get_def)
qed

section \<open>Confirmed blocks survive\<close>

definition keyed_by_hash :: "crypto \<Rightarrow> ledger \<Rightarrow> bool" where
  "keyed_by_hash cr L \<longleftrightarrow> block_store_inv L \<and> (\<forall>h b. block_get L h = Some b \<longrightarrow> sv_hash cr b = h)"

text \<open>Every head on the stack is still stored, or gone.\<close>

definition stack_ok :: "crypto \<Rightarrow> ledger \<Rightarrow> (saved_block \<times> saved_block) list \<Rightarrow> bool" where
  "stack_ok cr L ts \<longleftrightarrow> (\<forall>(t, b) \<in> set ts. block_get L (sv_hash cr b) \<in> {None, Some b})"

lemma planned_block_unconfirmed:
  assumes key: "keyed_by_hash cr L" and b: "block_get L (sv_hash cr b) \<in> {None, Some b}"
    and step: "roll_back_head_block cr c L b now = Some (Inr (RollBackBlock ins))"
  shows "ri_block_hash ins = sv_hash cr b" "confirmed_get_block L (sv_hash cr b) = None"
proof -
  obtain x where "create_planner cr c L b now = Some x"
    "(case x of Inl e \<Rightarrow> Some (Inl e) | Inr p \<Rightarrow> plan_head_block cr p) = Some (Inr (RollBackBlock ins))"
    using step by (auto simp: roll_back_head_block_def bind_eq_Some_conv)
  then obtain p where p: "create_planner cr c L b now = Some (Inr p)"
    "plan_head_block cr p = Some (Inr (RollBackBlock ins))"
    by (cases x) auto
  have flds: "rp_head_block p = b" "rp_confirmation_height p = account_confirmation_height L b"
    using p(1) by (cases "load_previous L b"; auto simp: create_planner_def bind_eq_Some_conv Let_def)+
  show "ri_block_hash ins = sv_hash cr b"
    using p(2) flds by (auto simp: plan_head_block_def rollback_instructions_for_def split: if_splits option.splits)
  have "\<not> sv_height b \<le> ch_height (account_confirmation_height L b)"
    using p(2) flds by (auto simp: plan_head_block_def split: if_splits)
  then show "confirmed_get_block L (sv_hash cr b) = None"
    using b by (auto simp: confirmed_get_block_def account_confirmation_height_def bind_eq_None_conv
        split: option.splits bind_splits)
qed

text \<open>What a rollback leaves of the block table.\<close>

definition confirmed_kept :: "crypto \<Rightarrow> ledger \<Rightarrow> ledger \<Rightarrow> bool" where
  "confirmed_kept cr L L' \<longleftrightarrow> keyed_by_hash cr L' \<and> block_get L' \<subseteq>\<^sub>m block_get L \<and>
    conf_height_get L' = conf_height_get L \<and>
    (\<forall>h b. confirmed_get_block L h = Some b \<longrightarrow> confirmed_get_block L' h = Some b)"

lemma confirmed_kept_refl: "keyed_by_hash cr L \<Longrightarrow> confirmed_kept cr L L"
  by (simp add: confirmed_kept_def)

lemma confirmed_kept_trans: "confirmed_kept cr L L' \<Longrightarrow> confirmed_kept cr L' L'' \<Longrightarrow> confirmed_kept cr L L''"
  unfolding confirmed_kept_def using map_le_trans by metis

lemma execute_keeps_confirmed:
  assumes key: "keyed_by_hash cr L" and ex: "execute_rollback mw L ins = Some L'"
    and un: "confirmed_get_block L (ri_block_hash ins) = None"
  shows "confirmed_kept cr L L'"
proof -
  have eff: "block_store_inv L'" "block_get L' = (block_get L)(ri_block_hash ins := None)"
    "conf_height_get L' = conf_height_get L"
    using execute_rollback_blocks [OF _ ex] key by (simp_all add: keyed_by_hash_def)
  have "confirmed_get_block L' h = Some b" if "confirmed_get_block L h = Some b" for h b
    using that un eff by (cases "h = ri_block_hash ins") (auto simp: confirmed_get_block_def)
  moreover have "keyed_by_hash cr L'"
    using key eff by (auto simp: keyed_by_hash_def)
  moreover have "block_get L' \<subseteq>\<^sub>m block_get L"
    using eff(2) by (auto simp: map_le_def)
  ultimately show ?thesis using eff by (simp add: confirmed_kept_def)
qed

lemma stack_ok_shrink: "stack_ok cr L ts \<Longrightarrow> block_get L' \<subseteq>\<^sub>m block_get L \<Longrightarrow> stack_ok cr L' ts"
  unfolding stack_ok_def
  by (auto simp: map_le_def dom_def split: prod.splits) (metis (no_types, lifting) case_prodD domI map_le_def option.exhaust)

lemma load_block_stored: "load_block L h = Inr b \<Longrightarrow> block_get L h = Some b"
  by (auto simp: load_block_def any_get_block_def split: option.splits if_splits)

lemma loaded_head_ok:
  assumes "keyed_by_hash cr L" "load_account_head L t = Some (Inr b)"
  shows "block_get L (sv_hash cr b) = Some b"
  using assms load_block_stored
  by (fastforce simp: load_account_head_def bind_eq_Some_conv keyed_by_hash_def)

lemma stack_ok_Cons [simp]:
  "stack_ok cr L ((t, b) # ts) \<longleftrightarrow> block_get L (sv_hash cr b) \<in> {None, Some b} \<and> stack_ok cr L ts"
  by (simp add: stack_ok_def)

lemma roll_back_impl_keeps_confirmed:
  assumes "roll_back_impl cr c mw clock n L targets rolled_back = Some y"
  shows "keyed_by_hash cr L \<longrightarrow> stack_ok cr L targets \<longrightarrow> confirmed_kept cr L (fst y)"
proof (induction rule: roll_back_impl.raw_induct [OF _ assms])
  case (1 f cr c mw clock n L targets rolled_back y)
  show ?case
  proof (intro impI)
    assume key: "keyed_by_hash cr L" and st: "stack_ok cr L targets"
    show "confirmed_kept cr L (fst y)"
    proof (cases targets)
      case Nil
      with 1(2) key show ?thesis by (auto simp: confirmed_kept_refl)
    next
      case (Cons x rest)
      obtain t b where x: "x = (t, b)" by (cases x)
      note st' = st [unfolded Cons x stack_ok_Cons]
      show ?thesis
      proof (cases "any_block_exists L (sv_hash cr t)")
        case False
        with 1 key st' Cons x show ?thesis by auto
      next
        case True
        then obtain step where step: "roll_back_head_block cr c L b (clock n) = Some step"
          using 1(2) Cons x by (auto simp: bind_eq_Some_conv)
        note body = 1(2) [unfolded Cons x, simplified, simplified True step, simplified]
        consider (err) e where "step = Inl e" | (roll) ins where "step = Inr (RollBackBlock ins)"
          | (dep) d where "step = Inr (RequestDependencyRollback d)"
          by (cases step; metis rollback_step.exhaust)
        then show ?thesis
        proof cases
          case err
          with body key show ?thesis by (auto simp: confirmed_kept_refl)
        next
          case roll
          obtain L1 where ex: "execute_rollback mw L ins = Some L1"
            using body roll by (auto simp: bind_eq_Some_conv)
          have un: "confirmed_get_block L (ri_block_hash ins) = None"
            using planned_block_unconfirmed [OF key _ step [unfolded roll]] st' by simp
          note kept = execute_keeps_confirmed [OF key ex un]
          have key1: "keyed_by_hash cr L1" and sub: "block_get L1 \<subseteq>\<^sub>m block_get L"
            using kept by (simp_all add: confirmed_kept_def)
          have st1: "stack_ok cr L1 ((t, b) # rest)"
            using stack_ok_shrink [OF st sub] Cons x by simp
          have IH: "confirmed_kept cr L (fst y)"
            if "f cr c mw clock (Suc n) L1 ((t, b') # rest) rb = Some y" "stack_ok cr L1 ((t, b') # rest)" for b' rb
            using confirmed_kept_trans [OF kept] 1(1) [OF that(1)] key1 that(2) by blast
          show ?thesis
          proof (cases "sv_hash cr b \<noteq> sv_hash cr t")
            case False
            with body roll ex IH st1 show ?thesis by (auto simp: Let_def)
          next
            case True
            then obtain hd where hd: "load_account_head L1 t = Some hd"
              using body roll ex by (auto simp: bind_eq_Some_conv Let_def)
            with True body roll ex kept IH loaded_head_ok [OF key1, of t] st1
            show ?thesis by (cases hd) (auto simp: Let_def)
          qed
        next
          case dep
          obtain db where db: "load_block L d = db" by simp
          show ?thesis
          proof (cases db)
            case (Inl e)
            with dep db body key show ?thesis by (auto simp: confirmed_kept_refl)
          next
            case (Inr blk)
            then obtain hd where hd: "load_account_head L t = Some hd"
              using dep db body by (auto simp: bind_eq_Some_conv)
            show ?thesis
            proof (cases hd)
              case (Inl e)
              with Inr hd dep db body key show ?thesis by (auto simp: confirmed_kept_refl)
            next
              case (Inr hb)
              then have "f cr c mw clock (Suc n) L ((blk, hb) # (t, b) # rest) rolled_back = Some y"
                using \<open>db = Inr blk\<close> hd dep db body by simp
              moreover have "stack_ok cr L ((blk, hb) # (t, b) # rest)"
                using st' loaded_head_ok [OF key, of t hb] hd Inr by simp
              ultimately show ?thesis using 1(1) key by blast
            qed
          qed
        qed
      qed
    qed
  qed
qed

lemma roll_back_performer_keeps_confirmed:
  assumes "keyed_by_hash cr L" "roll_back_performer cr c mw clock L h = Some (L', rolled_back, r)"
  shows "confirmed_kept cr L L'"
proof (cases "load_block L h")
  case (Inl e)
  with assms show ?thesis by (simp add: roll_back_performer_def confirmed_kept_refl)
next
  case (Inr t)
  then obtain hd where hd: "load_account_head L t = Some hd"
    using assms(2) by (auto simp: roll_back_performer_def bind_eq_Some_conv)
  show ?thesis
  proof (cases hd)
    case (Inl e)
    with Inr hd assms show ?thesis by (simp add: roll_back_performer_def confirmed_kept_refl)
  next
    case (Inr b)
    then have "roll_back_impl cr c mw clock 0 L [(t, b)] [] = Some (L', rolled_back, r)"
      using \<open>load_block L h = Inr t\<close> hd assms(2) by (simp add: roll_back_performer_def)
    from roll_back_impl_keeps_confirmed [OF this] show ?thesis
      using assms(1) loaded_head_ok [OF assms(1), of t b] hd Inr by (simp add: stack_ok_def)
  qed
qed

lemma roll_back_batch_keeps_confirmed:
  "keyed_by_hash cr L \<Longrightarrow> roll_back_batch_from cr c mw clock maxr can i count L targets = Some (L', results) \<Longrightarrow>
    confirmed_kept cr L L'"
proof (induction targets arbitrary: L i count results)
  case Nil
  then show ?case by (simp add: confirmed_kept_refl)
next
  case (Cons h targets)
  show ?case
  proof (cases "can h \<and> block_get L h \<noteq> None")
    case False
    with Cons show ?thesis by (auto simp: bind_eq_Some_conv split: if_splits)
  next
    case True
    then obtain b where b: "block_get L h = Some b" by auto
    then obtain L1 rb r where perf: "roll_back_performer cr c mw (clock i) L (sv_hash cr b) = Some (L1, rb, r)"
      using Cons.prems(2) True by (auto simp: roll_back_with_tx_def bind_eq_Some_conv)
    have kept: "confirmed_kept cr L L1"
      by (rule roll_back_performer_keeps_confirmed [OF Cons.prems(1) perf])
    have tx: "roll_back_with_tx cr c mw (clock i) L (sv_hash cr b)
        = Some (L1, rb, case r of Inr _ \<Rightarrow> None | Inl e \<Rightarrow> Some e)"
      using perf by (simp add: roll_back_with_tx_def)
    show ?thesis
    proof (cases "maxr \<le> count + length rb")
      case stop: True
      with Cons.prems(2) True b tx kept show ?thesis by (simp add: Let_def)
    next
      case go: False
      then obtain results' where
        "roll_back_batch_from cr c mw clock maxr can (i + 1) (count + length rb) L1 targets = Some (L', results')"
        using Cons.prems(2) True b tx by (auto simp: Let_def bind_eq_Some_conv)
      with Cons.IH kept show ?thesis
        using confirmed_kept_trans by (metis confirmed_kept_def)
    qed
  qed
qed

end
