(* ===== verification/Rollback_Roundtrip.thy ===== *)
theory Rollback_Roundtrip
  imports Rollback_Correct
begin

text \<open>
  Processing a block and rolling it back again: the planner finds the block unconfirmed and not yet
  received, reverses the instructions of the insertion, and every table is as before, except for the
  modification time of the account. The block has to move a non-zero amount or touch no pending
  entry: the planner derives the kind of a block from the change of the balance alone, so a legacy
  send of zero is treated as a change and its pending entry stays behind.
\<close>

section \<open>The pending entries of a validated block\<close>

lemma destination_or_link_simps [simp]:
  "destination_or_link (LegacySend s) = snd_destination s"
  "destination_or_link (State t) = st_link t"
  by (simp_all add: destination_or_link_def)

lemma validated_insert_key:
  assumes "validate_block cr c L b now = Inr ins" "in_insert_pending ins = Some (k, p)"
  shows "k = PendingKey (destination_or_link b) (block_hash_of cr b)"
  using assms
  by (cases b) (auto simp: validate_block_def validate_Inr create_instructions_def new_pending_info_def
      pending_key_for_send_block_def split: if_splits)

lemma validated_delete_key:
  assumes "validate_block cr c L b now = Inr ins" "in_delete_pending ins = Some k"
  shows "k = PendingKey (in_account ins) (source_or_link b)"
    and "\<exists>p. pending_get L k = Some p \<and> sb_source_epoch (in_set_sideband ins) = pi_epoch p"
    and "source_or_link b \<noteq> 0"
proof -
  let ?v = "create_validator cr c L b now"
  have ok: "first_error (validation_checks cr ?v) = Ok" and ins: "ins = create_instructions cr ?v"
    using assms(1) by (simp_all add: validate_block_def validate_Inr)
  have rcv: "is_receive ?v" and k: "k = PendingKey (bv_account ?v) (source_or_link b)"
    using assms(2) by (auto simp: ins create_instructions_def delete_received_pending_info_def split: if_splits)
  then show "k = PendingKey (in_account ins) (source_or_link b)"
    by (simp add: ins create_instructions_def)
  obtain p where p: "bv_pending_receive_info ?v = Some p"
    using validated_receive [OF ok rcv] .
  then have get: "source_or_link b \<noteq> 0" "pending_get L k = Some p"
    using k by (auto split: if_splits)
  then show "source_or_link b \<noteq> 0" by simp
  have "source_epoch ?v = pi_epoch p"
    using p by (simp add: source_epoch_def)
  with get show "\<exists>p. pending_get L k = Some p \<and> sb_source_epoch (in_set_sideband ins) = pi_epoch p"
    by (simp add: ins create_instructions_def new_sideband_def)
qed

section \<open>Undoing the weights\<close>

lemma rollback_weights_view:
  fixes D :: "public_key \<Rightarrow> nat"
  assumes ok: "weights_ok mw (rep_weight_get L) (lg_rep_cache L) D"
    and head: "ai_head (ri_old_account_info ins) \<noteq> 0"
    and le: "unat (ai_balance (ri_old_account_info ins)) \<le> D (ai_representative (ri_old_account_info ins))"
    and bound: "\<And>r. D r - (if ai_representative (ri_old_account_info ins) = r
        then unat (ai_balance (ri_old_account_info ins)) else 0)
      + (if ri_new_representative ins = Some r then unat (ri_new_balance ins) else 0) < 2 ^ 128"
  shows "\<exists>t c. roll_back_representative_cache mw L ins = Some (L\<lparr> lg_rep_weight := t, lg_rep_cache := c \<rparr>) \<and>
    weights_ok mw (store_get (read_be 16) t) c
      (\<lambda>r. D r - (if ai_representative (ri_old_account_info ins) = r
          then unat (ai_balance (ri_old_account_info ins)) else 0)
        + (if ri_new_representative ins = Some r then unat (ri_new_balance ins) else 0))"
proof -
  let ?old = "ri_old_account_info ins"
  have nz: "\<forall>r. rep_weight_get L r \<noteq> Some 0"
    using ok by (simp add: weights_ok_def)
  show ?thesis
  proof (cases "ri_new_representative ins")
    case (Some r)
    define ii where "ii = \<lparr> in_account = 0, in_old_account_info = ?old,
      in_set_account_info = default_account_info\<lparr> ai_representative := r, ai_balance := ri_new_balance ins \<rparr>,
      in_delete_pending = None, in_insert_pending = None, in_set_sideband = undefined, in_is_epoch_block = False \<rparr>"
    have flds: "in_old_account_info ii = ?old" "ai_representative (in_set_account_info ii) = r"
      "ai_balance (in_set_account_info ii) = ri_new_balance ins"
      by (simp_all add: ii_def)
    have eq: "roll_back_representative_cache mw L ins = update_representative_cache mw L ii"
      using Some head by (simp add: roll_back_representative_cache_def update_representative_cache_def flds)
    show ?thesis
      using update_representative_view [OF nz, of ii mw D, unfolded flds] head ok le bound Some
      by (simp add: eq)
  next
    case None
    let ?r = "ai_representative ?old"
    let ?w = "weight_exact L ?r + (0 - ai_balance ?old)"
    have w: "unat (weight_exact L ?r) = D ?r"
      using ok by (simp add: weights_ok_def weight_exact_def)
    have uw: "unat ?w = D ?r - unat (ai_balance ?old)"
      using unat_move [of "ai_balance ?old" "weight_exact L ?r" 0] le w bound [of ?r] None by simp
    moreover have "D(?r := D ?r - unat (ai_balance ?old)) =
        (\<lambda>r. D r - (if ?r = r then unat (ai_balance ?old) else 0)
          + (if ri_new_representative ins = Some r then unat (ri_new_balance ins) else 0))"
      using None by auto
    ultimately show ?thesis
      using representation_add_view [OF nz, of mw ?r "0 - ai_balance ?old"] None
        weights_ok_set [OF ok uw, of ?r]
      by (force simp: roll_back_representative_cache_def)
  qed
qed

section \<open>The instructions succeed\<close>

lemma update_pending_view:
  assumes "\<And>k. ri_remove_pending ins = Some k \<Longrightarrow> pending_get L k \<noteq> None"
  shows "\<exists>t. update_pending_table L ins = Some (L\<lparr> lg_pending := t \<rparr>) \<and>
    store_get deserialize_pending_info t =
      (let P = (case ri_remove_pending ins of None \<Rightarrow> pending_get L | Some k \<Rightarrow> (pending_get L)(k := None))
       in case ri_add_pending ins of None \<Rightarrow> P | Some (k, p) \<Rightarrow> P(k \<mapsto> p))"
  using assms
  by (cases L; cases "ri_remove_pending ins"; cases "ri_add_pending ins")
    (auto simp: update_pending_table_def pending_del_def pending_put_def pending_get_def del_existing_get
      store_get_del pending_info_codec.store_get_put)

lemma account_rollback_view:
  assumes "account_get L a \<noteq> None" "ai_head old \<noteq> 0"
  shows "\<exists>t. update_account L a old new =
      Some (L\<lparr> lg_account := t, lg_account_count := lg_account_count L - (if ai_head new = 0 then 1 else 0) \<rparr>) \<and>
    store_get deserialize_account_info t = (account_get L)(a := (if ai_head new = 0 then None else Some new))"
proof (cases "ai_head new = 0")
  case True
  with assms show ?thesis
    by (cases L) (auto simp: update_account_def account_del_def account_get_def del_existing_get store_get_del)
next
  case False
  with update_account_view [OF False, of old L a] assms show ?thesis by (cases L) auto
qed

lemma successor_rollback_view:
  assumes "\<And>h. x = Some h \<Longrightarrow> successor_get L h \<noteq> None"
  shows "\<exists>t. (case x of Some h \<Rightarrow> successor_del L h | None \<Rightarrow> Some L) = Some (L\<lparr> lg_successors := t \<rparr>) \<and>
    store_get (read_be 32) t = (case x of None \<Rightarrow> successor_get L | Some h \<Rightarrow> (successor_get L)(h := None))"
  using assms
  by (cases L; cases x) (auto simp: successor_del_def successor_get_def del_existing_get store_get_del)

text \<open>What an executed rollback does to the tables.\<close>

definition rolled_back_views :: "ledger \<Rightarrow> rollback_instructions \<Rightarrow> ledger \<Rightarrow> bool" where
  "rolled_back_views L ins L' \<longleftrightarrow>
    block_get L' = (block_get L)(ri_block_hash ins := None) \<and>
    account_get L' = (account_get L)(ri_account ins :=
      (if ai_head (ri_set_account_info ins) = 0 then None else Some (ri_set_account_info ins))) \<and>
    pending_get L' =
      (let P = (case ri_remove_pending ins of None \<Rightarrow> pending_get L | Some k \<Rightarrow> (pending_get L)(k := None))
       in case ri_add_pending ins of None \<Rightarrow> P | Some (k, p) \<Rightarrow> P(k \<mapsto> p)) \<and>
    successor_get L' =
      (case ri_clear_successor ins of None \<Rightarrow> successor_get L | Some h \<Rightarrow> (successor_get L)(h := None)) \<and>
    conf_height_get L' = conf_height_get L \<and> lg_pruned L' = lg_pruned L \<and> lg_final_vote L' = lg_final_vote L \<and>
    lg_confirmed_count L' = lg_confirmed_count L \<and> lg_next_id L' = lg_next_id L \<and>
    lg_block_count L' = lg_block_count L - 1 \<and>
    lg_account_count L' = lg_account_count L - (if ai_head (ri_set_account_info ins) = 0 then 1 else 0)"

lemma execute_rollback_effects:
  fixes D :: "public_key \<Rightarrow> nat"
  assumes inv: "block_store_inv L" and stored: "block_get L (ri_block_hash ins) \<noteq> None"
    and acc: "account_get L (ri_account ins) \<noteq> None"
    and pend: "\<And>k. ri_remove_pending ins = Some k \<Longrightarrow> pending_get L k \<noteq> None"
    and succ: "\<And>h. ri_clear_successor ins = Some h \<Longrightarrow> successor_get L h \<noteq> None"
    and ok: "weights_ok mw (rep_weight_get L) (lg_rep_cache L) D"
    and head: "ai_head (ri_old_account_info ins) \<noteq> 0"
    and le: "unat (ai_balance (ri_old_account_info ins)) \<le> D (ai_representative (ri_old_account_info ins))"
    and bound: "\<And>r. D r - (if ai_representative (ri_old_account_info ins) = r
        then unat (ai_balance (ri_old_account_info ins)) else 0)
      + (if ri_new_representative ins = Some r then unat (ri_new_balance ins) else 0) < 2 ^ 128"
  obtains L' where "execute_rollback mw L ins = Some L'" "rolled_back_views L ins L'" "block_store_inv L'"
    "weights_ok mw (rep_weight_get L') (lg_rep_cache L')
      (\<lambda>r. D r - (if ai_representative (ri_old_account_info ins) = r
          then unat (ai_balance (ri_old_account_info ins)) else 0)
        + (if ri_new_representative ins = Some r then unat (ri_new_balance ins) else 0))"
proof -
  obtain p where 1: "update_pending_table L ins = Some (L\<lparr> lg_pending := p \<rparr>)"
    and p: "store_get deserialize_pending_info p =
      (let P = (case ri_remove_pending ins of None \<Rightarrow> pending_get L | Some k \<Rightarrow> (pending_get L)(k := None))
       in case ri_add_pending ins of None \<Rightarrow> P | Some (k, p) \<Rightarrow> P(k \<mapsto> p))"
    using update_pending_view [of ins L] pend by blast
  let ?L1 = "L\<lparr> lg_pending := p \<rparr>"
  have acc1: "account_get ?L1 = account_get L" by (simp add: account_get_def)
  obtain t where 2: "update_account_table ?L1 ins = Some (?L1\<lparr> lg_account := t, lg_account_count :=
      lg_account_count L - (if ai_head (ri_set_account_info ins) = 0 then 1 else 0) \<rparr>)"
    and t: "store_get deserialize_account_info t = (account_get L)(ri_account ins :=
      (if ai_head (ri_set_account_info ins) = 0 then None else Some (ri_set_account_info ins)))"
    using account_rollback_view [of ?L1 "ri_account ins" _ "ri_set_account_info ins", OF _ head] acc
    by (auto simp: acc1 update_account_table_def)
  let ?L2 = "?L1\<lparr> lg_account := t, lg_account_count :=
      lg_account_count L - (if ai_head (ri_set_account_info ins) = 0 then 1 else 0) \<rparr>"
  have inv2: "block_store_inv ?L2" and get2: "block_get ?L2 = block_get L"
    using block_store_inv_frame [OF inv, of ?L2] block_get_frame [of ?L2 L] by simp_all
  obtain L3 where 3: "block_del ?L2 (ri_block_hash ins) = Some L3"
    using block_map.del_present [OF inv2] stored get2 by metis
  obtain i d where L3: "L3 = ?L2\<lparr> lg_index := i, lg_block_data := d \<rparr>" and inv3: "block_store_inv L3"
    and get3: "block_get L3 = (block_get L)(ri_block_hash ins := None)"
    using block_del_view [OF inv2 3] get2 by auto
  have succ3: "successor_get L3 = successor_get L" by (simp add: L3 successor_get_def)
  obtain s where 4: "(case ri_clear_successor ins of Some h \<Rightarrow> successor_del L3 h | None \<Rightarrow> Some L3)
      = Some (L3\<lparr> lg_successors := s \<rparr>)"
    and s: "store_get (read_be 32) s =
      (case ri_clear_successor ins of None \<Rightarrow> successor_get L | Some h \<Rightarrow> (successor_get L)(h := None))"
    using successor_rollback_view [of "ri_clear_successor ins" L3] succ unfolding succ3 by blast
  let ?L4 = "L3\<lparr> lg_successors := s \<rparr>"
  have "weights_ok mw (rep_weight_get ?L4) (lg_rep_cache ?L4) D"
    using ok by (simp add: L3 rep_weight_get_def)
  from rollback_weights_view [OF this head le bound] obtain w c where
    5: "roll_back_representative_cache mw ?L4 ins = Some (?L4\<lparr> lg_rep_weight := w, lg_rep_cache := c \<rparr>)"
    and w: "weights_ok mw (store_get (read_be 16) w) c
      (\<lambda>r. D r - (if ai_representative (ri_old_account_info ins) = r
          then unat (ai_balance (ri_old_account_info ins)) else 0)
        + (if ri_new_representative ins = Some r then unat (ri_new_balance ins) else 0))"
    by blast
  let ?L' = "?L4\<lparr> lg_rep_weight := w, lg_rep_cache := c, lg_block_count := lg_block_count L - 1 \<rparr>"
  have "execute_rollback mw L ins = Some ?L'"
    by (simp add: execute_rollback_def update_block_table_def 1 2 3 4 5) (simp add: L3)
  moreover have "rolled_back_views L ins ?L'"
    using p t s get3 block_get_frame [of ?L' L3]
    by (simp add: rolled_back_views_def account_get_def pending_get_def successor_get_def conf_height_get_def)
      (simp add: L3)
  moreover have "block_store_inv ?L'"
    using block_store_inv_frame [OF inv3, of ?L'] by simp
  ultimately show thesis
    using that [of ?L'] w by (simp add: rep_weight_get_def)
qed

section \<open>The planner after an insertion\<close>

lemma confirmation_below_head:
  assumes inv: "ledger_inv cr mw L" and i: "account_get L a = Some i" and ci: "conf_height_get L a = Some ci"
  shows "unat (ch_height ci) \<le> unat (ai_block_count i)"
proof -
  obtain b where "block_get L (ch_frontier ci) = Some b" "sv_account b = a" "sv_height b = ch_height ci"
    using inv ci by (auto simp: ledger_inv_def conf_inv_def)
  with height_le_block_count [OF inv, of "ch_frontier ci" b i] i show ?thesis by simp
qed

lemma inserted_unconfirmed:
  assumes inv: "ledger_inv cr mw L" and ins: "insertable cr L b ins" and eff: "inserted cr L b ins L'"
    and inv': "ledger_inv cr mw L'"
  defines "sv \<equiv> new_saved_block b (in_set_sideband ins)"
  shows "\<not> sv_height sv \<le> ch_height (account_confirmation_height L' sv)"
proof (cases "conf_height_get L (in_account ins)")
  case None
  have "block_get L' (block_hash_of cr b) = Some sv"
    using eff by (simp add: inserted_def sv_def)
  then have "1 \<le> unat (sv_height sv)"
    using height_positive [OF inv'] by blast
  then show ?thesis
    using None eff insertable_basic(5) [OF ins]
    by (auto simp: sv_def account_confirmation_height_def inserted_def default_confirmation_height_info_def
        word_le_nat_alt)
next
  case (Some ci)
  obtain f where f: "block_get L (ch_frontier ci) = Some f" "sv_account f = in_account ins" "sv_height f = ch_height ci"
    using inv Some by (auto simp: ledger_inv_def conf_inv_def)
  obtain i where i: "account_get L (in_account ins) = Some i"
    using inv_block [OF inv f(1)] f(2) by (auto simp: block_ok_def)
  obtain p where p: "block_previous b = ai_head i" "ai_head i \<noteq> 0" "block_get L (ai_head i) = Some p"
    "sv_height p = ai_block_count i"
    using previous_block_position [OF inv ins] i by auto
  have "block_get L' (block_hash_of cr b) = Some sv" "sv_previous sv = ai_head i"
    using eff p by (simp_all add: inserted_def sv_def new_saved_block_def)
  then obtain p' where "block_get L' (ai_head i) = Some p'" "unat (sv_height sv) = unat (sv_height p') + 1"
    using previous_block_stored [OF inv', of "block_hash_of cr b" sv] p(2) by auto
  moreover have "block_get L' (ai_head i) = Some p"
    using eff p(3) insertable_basic(3) [OF ins] by (auto simp: inserted_def)
  ultimately have "unat (sv_height sv) = unat (ai_block_count i) + 1"
    using p(4) by simp
  then show ?thesis
    using confirmation_below_head [OF inv i Some] Some eff insertable_basic(5) [OF ins]
    by (simp add: sv_def account_confirmation_height_def inserted_def word_le_nat_alt)
qed

text \<open>The planner sees the account as it was before the insertion.\<close>

lemma inserted_planner:
  assumes inv: "ledger_inv cr mw L" and ins: "insertable cr L b ins" and eff: "inserted cr L b ins L'"
    and inv': "ledger_inv cr mw L'"
  defines "sv \<equiv> new_saved_block b (in_set_sideband ins)" and "old \<equiv> in_old_account_info ins"
  obtains p where "create_planner cr c L' sv now = Some (Inr p)" "rp_epochs p = lc_epochs c"
    "rp_head_block p = sv" "rp_account p = in_account ins" "rp_current_account_info p = in_set_account_info ins"
    "rp_previous_representative p = (if block_previous b = 0 then None else Some (ai_representative old))"
    "map_option (sv_hash cr) (rp_previous p) = (if block_previous b = 0 then None else Some (block_previous b))"
    "rp_previous_balance p = ai_balance old" "block_previous b \<noteq> 0 \<longrightarrow> rp_previous_epoch p = ai_epoch old"
    "rp_linked_account p = load_linked_account L' sv"
    "rp_pending_receive p = pending_get L' (PendingKey (destination_or_link b) (block_hash_of cr b))"
    "rp_confirmation_height p = account_confirmation_height L' sv" "rp_now p = now"
proof -
  let ?h = "block_hash_of cr b"
  have svb: "sv_block sv = b" and acc: "sv_account sv = in_account ins"
    using insertable_basic(5) [OF ins] by (simp_all add: sv_def new_saved_block_def)
  have stored: "any_get_block L' ?h = Some sv"
    using eff insertable_basic(2) [OF ins] by (simp add: inserted_def sv_def any_get_block_def)
  have info: "account_get L' (in_account ins) = Some (in_set_account_info ins)"
    using eff by (simp add: inserted_def)
  have shape: "create_planner cr c L' sv now = Some (Inr
        \<lparr> rp_epochs = lc_epochs c, rp_head_block = sv, rp_account = in_account ins,
          rp_current_account_info = in_set_account_info ins, rp_previous_representative = r,
          rp_previous = pb, rp_linked_account = load_linked_account L' sv,
          rp_pending_receive = load_pending_receive cr L' sv,
          rp_latest_block_for_destination = latest_block_for_destination L' sv,
          rp_confirmation_height = account_confirmation_height L' sv, rp_now = now \<rparr>)"
    if "get_previous_representative cr L' sv = Some r" "load_previous L' sv = Inr pb" for r pb
    using that stored info acc by (simp add: create_planner_def any_block_account_def svb)
  from previous_block_position [OF inv ins] show thesis
  proof
    assume n: "account_get L (in_account ins) = None \<and> block_previous b = 0"
    then have "old = default_account_info"
      using insertable_old [OF ins] by (simp add: old_def)
    then show thesis
      using n by (intro that [OF shape [of None None]])
        (simp_all add: get_previous_representative_def load_previous_def svb rp_previous_balance_def
          load_pending_receive_def default_account_info_def)
  next
    assume "\<exists>i p. account_get L (in_account ins) = Some i \<and> block_previous b = ai_head i \<and> ai_head i \<noteq> 0 \<and>
      block_get L (ai_head i) = Some p \<and> sv_account p = in_account ins \<and>
      sv_height p = ai_block_count i \<and> successor_get L (ai_head i) = None"
    then obtain i p where i: "account_get L (in_account ins) = Some i" "block_previous b = ai_head i" "ai_head i \<noteq> 0"
      "block_get L (ai_head i) = Some p" by blast
    have old: "old = i" using insertable_old [OF ins] i by (simp add: old_def)
    have ok: "sv_balance p = ai_balance i" "sv_epoch p = ai_epoch i" "has_rep (block_get L) (ai_head i) (ai_representative i)"
      using inv_account [OF inv i(1)] i(4) by (auto simp: account_ok_def)
    have sub: "block_get L \<subseteq>\<^sub>m block_get L'"
      using eff insertable_basic(3) [OF ins] by (auto simp: inserted_def map_le_def)
    have p': "any_get_block L' (ai_head i) = Some p"
      using map_le_lookup [OF sub i(4)] i(3) by (simp add: any_get_block_def)
    obtain rh rb where "find_rep_block cr L' (ai_head i) = Some rh" "rh \<noteq> 0" "block_get L' rh = Some rb"
      "representative_field (sv_block rb) = Some (ai_representative i)"
      using find_rep_block_returns [OF has_rep_mono [OF ok(3) sub] inv'] by blast
    then have rep: "get_previous_representative cr L' sv = Some (Some (ai_representative i))"
      using i by (simp add: get_previous_representative_def svb any_get_block_def)
    have prev: "load_previous L' sv = Inr (Some p)"
      using i p' by (simp add: load_previous_def svb)
    have hash: "sv_hash cr p = ai_head i"
      using inv_block [OF inv i(4)] by (simp add: block_ok_def)
    show thesis
      using i ok hash
      by (intro that [OF shape [OF rep prev]])
        (simp_all add: old rp_previous_balance_def rp_previous_epoch_def load_pending_receive_def svb)
  qed
qed

section \<open>Restoring the ledger\<close>

definition restored_but_pending :: "account \<Rightarrow> timestamp \<Rightarrow> ledger \<Rightarrow> ledger \<Rightarrow> bool" where
  "restored_but_pending a now L L' \<longleftrightarrow>
    block_get L' = block_get L \<and>
    account_get L' = (account_get L)(a := map_option (\<lambda>i. i\<lparr> ai_modified := now \<rparr>) (account_get L a)) \<and>
    successor_get L' = successor_get L \<and>
    conf_height_get L' = conf_height_get L \<and> rep_weight_get L' = rep_weight_get L \<and>
    RBT.lookup (lg_rep_cache L') = RBT.lookup (lg_rep_cache L) \<and>
    lg_block_count L' = lg_block_count L \<and> lg_account_count L' = lg_account_count L \<and>
    lg_confirmed_count L' = lg_confirmed_count L"

definition restored :: "account \<Rightarrow> timestamp \<Rightarrow> ledger \<Rightarrow> ledger \<Rightarrow> bool" where
  "restored a now L L' \<longleftrightarrow> restored_but_pending a now L L' \<and> pending_get L' = pending_get L"

text \<open>The planner's view of the pending table after an insertion, and what it makes of it.\<close>

definition plans_pending ::
  "crypto \<Rightarrow> ledger \<Rightarrow> block \<Rightarrow> block_insert_instructions \<Rightarrow> (pending_key \<rightharpoonup> pending_info) \<Rightarrow> bool" where
  "plans_pending cr L' b ins Q \<longleftrightarrow> (\<forall>p.
    rp_head_block p = new_saved_block b (in_set_sideband ins) \<longrightarrow> rp_account p = in_account ins \<longrightarrow>
    rp_current_account_info p = in_set_account_info ins \<longrightarrow>
    rp_previous_balance p = ai_balance (in_old_account_info ins) \<longrightarrow>
    rp_linked_account p = load_linked_account L' (new_saved_block b (in_set_sideband ins)) \<longrightarrow>
    rp_pending_receive p = pending_get L' (PendingKey (destination_or_link b) (block_hash_of cr b)) \<longrightarrow>
    (rollback_sub_type p = SubSend \<longrightarrow> rp_pending_receive p \<noteq> None) \<and>
    (\<forall>k. rp_remove_pending cr p = Some k \<longrightarrow> pending_get L' k \<noteq> None) \<and>
    (let P = (case rp_remove_pending cr p of None \<Rightarrow> pending_get L' | Some k \<Rightarrow> (pending_get L')(k := None))
       in case rp_add_pending p of None \<Rightarrow> P | Some (k, p) \<Rightarrow> P(k \<mapsto> p)) = Q)"

text \<open>The pending changes of the plan reverse those of the insertion.\<close>

definition moves_amount :: "block_insert_instructions \<Rightarrow> bool" where
  "moves_amount ins \<longleftrightarrow>
    ai_balance (in_set_account_info ins) \<noteq> ai_balance (in_old_account_info ins) \<or>
    (in_delete_pending ins = None \<and> in_insert_pending ins = None)"

lemma plan_reverses_pending:
  assumes inv: "ledger_inv cr mw L" and val: "validate_block cr c L b now = Inr ins"
    and ins: "insertable cr L b ins" and eff: "inserted cr L b ins L'" and mv: "moves_amount ins"
  shows "plans_pending cr L' b ins (pending_get L)"
  unfolding plans_pending_def
proof (intro allI impI)
  fix p
  assume p: "rp_head_block p = new_saved_block b (in_set_sideband ins)" "rp_account p = in_account ins"
      "rp_current_account_info p = in_set_account_info ins" "rp_previous_balance p = ai_balance (in_old_account_info ins)"
      "rp_linked_account p = load_linked_account L' (new_saved_block b (in_set_sideband ins))"
      "rp_pending_receive p = pending_get L' (PendingKey (destination_or_link b) (block_hash_of cr b))"
  let ?ob = "ai_balance (in_old_account_info ins)" and ?nb = "ai_balance (in_set_account_info ins)"
  have svb: "sv_block (rp_head_block p) = b"
    by (simp add: p new_saved_block_def)
  have P': "pending_get L' = pending_after (pending_get L) ins"
    using eff by (simp add: inserted_def)
  consider (none) "in_delete_pending ins = None" "in_insert_pending ins = None"
    | (rcv) k where "in_delete_pending ins = Some k"
    | (snd) k q where "in_insert_pending ins = Some (k, q)" "in_delete_pending ins = None"
    by (cases "in_delete_pending ins"; cases "in_insert_pending ins") auto
  then show "(rollback_sub_type p = SubSend \<longrightarrow> rp_pending_receive p \<noteq> None) \<and>
    (\<forall>k. rp_remove_pending cr p = Some k \<longrightarrow> pending_get L' k \<noteq> None) \<and>
    (let P = (case rp_remove_pending cr p of None \<Rightarrow> pending_get L' | Some k \<Rightarrow> (pending_get L')(k := None))
       in case rp_add_pending p of None \<Rightarrow> P | Some (k, p) \<Rightarrow> P(k \<mapsto> p)) = pending_get L"
  proof cases
    case none
    then have "?nb = ?ob" using insertable_delta(1) [OF ins] by blast
    then have "rollback_sub_type p \<notin> {SubSend, SubOpen, SubReceive}"
      by (simp add: rollback_sub_type_def p Let_def)
    with none P' show ?thesis
      by (auto simp: rp_remove_pending_def rp_add_pending_def pending_after_def)
  next
    case rcv
    obtain q where q: "pending_get L k = Some q" "unat ?nb = unat ?ob + unat (pi_amount q)" and no: "in_insert_pending ins = None"
      using insertable_delta(2) [OF ins rcv] by blast
    have lt: "?ob < ?nb"
      using q mv rcv by (simp add: moves_amount_def word_less_nat_alt word_unat_eq_iff)
    have key: "k = PendingKey (in_account ins) (source_or_link b)" "source_or_link b \<noteq> 0"
      "sb_source_epoch (in_set_sideband ins) = pi_epoch q"
      using validated_delete_key [OF val rcv] q by auto
    obtain sb where sb: "block_get L (source_or_link b) = Some sb" "sv_account sb = pi_source q"
      using inv q(1) key(1) by (force simp: ledger_inv_def pending_inv_def)
    then have "rp_linked_account p = pi_source q"
      using eff key(2) insertable_basic(3) [OF ins]
      by (auto simp: p load_linked_account_def any_block_account_def any_get_block_def inserted_def new_saved_block_def)
    moreover have "?nb - ?ob = pi_amount q"
      using lt q(2) unat_sub_amount [of ?ob ?nb] by (simp add: word_unat_eq_iff word_less_nat_alt word_le_nat_alt)
    moreover have "sv_source_epoch (rp_head_block p) = pi_epoch q"
      using key by (simp add: p new_saved_block_def sv_source_epoch_def)
    ultimately have "rp_add_pending p = Some (k, q)"
      using lt key by (simp add: rp_add_pending_def rollback_sub_type_def Let_def p svb [unfolded p])
    moreover have "rp_remove_pending cr p = None" "rollback_sub_type p \<noteq> SubSend"
      using lt by (auto simp: rp_remove_pending_def rollback_sub_type_def Let_def p)
    ultimately show ?thesis
      using P' rcv no q by (simp add: pending_after_def fun_upd_idem)
  next
    case snd
    have amt: "unat ?nb + unat (pi_amount q) = unat ?ob"
      using insertable_delta(3) [OF ins snd(1)] by blast
    have lt: "?nb < ?ob"
      using amt mv snd by (simp add: moves_amount_def word_less_nat_alt word_unat_eq_iff)
    have key: "k = PendingKey (destination_or_link b) (block_hash_of cr b)"
      by (rule validated_insert_key [OF val snd(1)])
    have fresh: "pending_get L k = None"
      using inv insertable_basic(3) [OF ins] by (intro pending_fresh) (simp_all add: ledger_inv_def key)
    have "rollback_sub_type p = SubSend"
      using lt by (simp add: rollback_sub_type_def p)
    then show ?thesis
      using P' snd key fresh
      by (simp add: rp_remove_pending_def rp_add_pending_def pending_after_def p(6) svb fun_upd_idem)
  qed
qed

text \<open>The delegated balances determine both weight tables.\<close>

lemma weights_ok_unique:
  assumes "weights_ok mw W c D" "weights_ok mw W' c' D"
  shows "W = W'" "RBT.lookup c = RBT.lookup c'"
proof -
  have eq: "unwrap_or_zero (W r) = unwrap_or_zero (W' r)" for r
    using assms by (simp add: weights_ok_def word_unat_eq_iff)
  show "W = W'"
  proof
    fix r
    have "W r \<noteq> Some 0" "W' r \<noteq> Some 0" using assms by (simp_all add: weights_ok_def)
    with eq [of r] show "W r = W' r" by (cases "W r"; cases "W' r") auto
  qed
  with assms show "RBT.lookup c = RBT.lookup c'"
    by (simp add: weights_ok_def fun_eq_iff)
qed

lemma plan_after_insertion:
  assumes inv: "ledger_inv cr mw L" and val: "validate_block cr c L b now = Inr ins"
    and ins: "insertable cr L b ins" and eff: "inserted cr L b ins L'" and inv': "ledger_inv cr mw L'"
    and rev: "plans_pending cr L' b ins Q"
  obtains ri where "roll_back_head_block cr c L' (new_saved_block b (in_set_sideband ins)) t = Some (Inr (RollBackBlock ri))"
    "ri_block_hash ri = block_hash_of cr b" "ri_account ri = in_account ins"
    "ri_old_account_info ri = in_set_account_info ins"
    "ri_set_account_info ri = (case account_get L (in_account ins) of None \<Rightarrow> default_account_info | Some i \<Rightarrow> i\<lparr> ai_modified := t \<rparr>)"
    "ri_clear_successor ri = (if block_previous b = 0 then None else Some (block_previous b))"
    "ri_new_balance ri = ai_balance (in_old_account_info ins)"
    "ri_new_representative ri = (if block_previous b = 0 then None else Some (ai_representative (in_old_account_info ins)))"
    "\<forall>k. ri_remove_pending ri = Some k \<longrightarrow> pending_get L' k \<noteq> None"
    "(let P = (case ri_remove_pending ri of None \<Rightarrow> pending_get L' | Some k \<Rightarrow> (pending_get L')(k := None))
       in case ri_add_pending ri of None \<Rightarrow> P | Some (k, p) \<Rightarrow> P(k \<mapsto> p)) = Q"
proof -
  let ?sv = "new_saved_block b (in_set_sideband ins)"
  obtain p where p: "create_planner cr c L' ?sv t = Some (Inr p)" "rp_epochs p = lc_epochs c"
    "rp_head_block p = ?sv" "rp_account p = in_account ins" "rp_current_account_info p = in_set_account_info ins"
    "rp_previous_representative p = (if block_previous b = 0 then None else Some (ai_representative (in_old_account_info ins)))"
    "map_option (sv_hash cr) (rp_previous p) = (if block_previous b = 0 then None else Some (block_previous b))"
    "rp_previous_balance p = ai_balance (in_old_account_info ins)"
    "block_previous b \<noteq> 0 \<longrightarrow> rp_previous_epoch p = ai_epoch (in_old_account_info ins)"
    "rp_linked_account p = load_linked_account L' ?sv"
    "rp_pending_receive p = pending_get L' (PendingKey (destination_or_link b) (block_hash_of cr b))"
    "rp_confirmation_height p = account_confirmation_height L' ?sv" "rp_now p = t"
    by (rule inserted_planner [OF inv ins eff inv', where c = c and now = t])
  note rev = rev [unfolded plans_pending_def, rule_format, OF p(3,4,5,8,10,11)]
  have svb: "sv_block ?sv = b" by (simp add: new_saved_block_def)
  have opn: "block_previous b = 0 \<Longrightarrow> is_open b"
    using insertable_position [OF ins] previous_block_position [OF inv ins]
    by (auto simp: position_ok_def Let_def split: option.splits)
  have "plan_head_block cr p = Some (Inr (RollBackBlock (rollback_instructions_for cr p)))"
    using rev opn inserted_unconfirmed [OF inv ins eff inv']
    by (auto simp: plan_head_block_def p(3,6,12) svb)
  then have plan: "roll_back_head_block cr c L' ?sv t = Some (Inr (RollBackBlock (rollback_instructions_for cr p)))"
    by (simp add: roll_back_head_block_def p(1))
  have info: "previous_account_info p =
      (case account_get L (in_account ins) of None \<Rightarrow> default_account_info | Some i \<Rightarrow> i\<lparr> ai_modified := t \<rparr>)"
  proof (cases "account_get L (in_account ins)")
    case None
    then have "block_previous b = 0" using previous_block_position [OF inv ins] by auto
    with None show ?thesis by (simp add: previous_account_info_def p(3) svb)
  next
    case (Some i)
    then have nz: "block_previous b \<noteq> 0" and old: "in_old_account_info ins = i"
      and rest: "block_previous b = ai_head i" "ai_open_block (in_set_account_info ins) = ai_open_block i"
        "ai_block_count (in_set_account_info ins) = ai_block_count i + 1"
      using previous_block_position [OF inv ins] insertable_old [OF ins] insertable_position [OF ins]
      by (auto simp: position_ok_def Let_def)
    with Some show ?thesis
      by (simp add: previous_account_info_def p(3,5,6,8,13) p(9) [rule_format, OF nz] svb rp_old_representative_def)
  qed
  show thesis
    using rev by (intro that [OF plan])
      (simp_all add: rollback_instructions_for_def p(3-8) svb info)
qed

lemma rollback_undoes_insertion:
  assumes inv: "ledger_inv cr mw L" and val: "validate_block cr c L b now = Inr ins"
    and ins: "insertable cr L b ins" and eff: "inserted cr L b ins L'" and inv': "ledger_inv cr mw L'"
    and rev: "plans_pending cr L' b ins Q"
  obtains ri L'' where
    "roll_back_head_block cr c L' (new_saved_block b (in_set_sideband ins)) t = Some (Inr (RollBackBlock ri))"
    "execute_rollback mw L' ri = Some L''" "restored_but_pending (in_account ins) t L L''"
    "pending_get L'' = Q" "block_store_inv L''"
proof -
  let ?old = "in_old_account_info ins" and ?new = "in_set_account_info ins" and ?h = "block_hash_of cr b"
  obtain ri where plan: "roll_back_head_block cr c L' (new_saved_block b (in_set_sideband ins)) t = Some (Inr (RollBackBlock ri))"
    and ri: "ri_block_hash ri = ?h" "ri_account ri = in_account ins" "ri_old_account_info ri = ?new"
      "ri_set_account_info ri = (case account_get L (in_account ins) of None \<Rightarrow> default_account_info | Some i \<Rightarrow> i\<lparr> ai_modified := t \<rparr>)"
      "ri_clear_successor ri = (if block_previous b = 0 then None else Some (block_previous b))"
      "ri_new_balance ri = ai_balance ?old"
      "ri_new_representative ri = (if block_previous b = 0 then None else Some (ai_representative ?old))"
    and pend: "\<forall>k. ri_remove_pending ri = Some k \<longrightarrow> pending_get L' k \<noteq> None"
      "(let P = (case ri_remove_pending ri of None \<Rightarrow> pending_get L' | Some k \<Rightarrow> (pending_get L')(k := None))
       in case ri_add_pending ri of None \<Rightarrow> P | Some (k, p) \<Rightarrow> P(k \<mapsto> p)) = Q"
    by (rule plan_after_insertion [OF assms, where t = t])
  have views: "block_get L' ?h \<noteq> None" "account_get L' = (account_get L)(in_account ins \<mapsto> ?new)"
    using eff by (simp_all add: inserted_def)
  have D': "delegated L' r = delegated L r - (if ai_representative ?old = r then unat (ai_balance ?old) else 0)
      + (if ai_representative ?new = r then unat (ai_balance ?new) else 0)" for r
    using delegated_upd(1) [OF views(2) insertable_old [OF ins]] .
  have le: "(if ai_representative ?old = r then unat (ai_balance ?old) else 0) \<le> delegated L r" for r
    using delegated_upd(2) [OF views(2) insertable_old [OF ins]] by auto
  have zero: "block_previous b = 0 \<Longrightarrow> ai_balance ?old = 0"
    using previous_block_position [OF inv ins] insertable_old [OF ins] by (auto simp: default_account_info_def)
  have D: "delegated L' r - (if ai_representative ?new = r then unat (ai_balance ?new) else 0)
      + (if ri_new_representative ri = Some r then unat (ai_balance ?old) else 0) = delegated L r" for r
    using D' [of r] le [of r] zero by (auto simp: ri split: if_splits)
  have lt: "delegated L r < 2 ^ 128" for r
  proof -
    have "unat (weight_exact L r) = delegated L r"
      using inv by (simp add: ledger_inv_def weight_inv_def)
    with unat_amount_le [of "weight_exact L r"] show ?thesis by simp
  qed
  have w': "weights_ok mw (rep_weight_get L') (lg_rep_cache L') (delegated L')"
    and store': "block_store_inv L'"
    using inv' by (simp_all add: ledger_inv_def weight_inv_weights_ok)
  have head: "ai_head (ri_old_account_info ri) \<noteq> 0"
    using insertable_basic(2,6) [OF ins] by (simp add: ri)
  have succ: "successor_get L' h \<noteq> None" if "ri_clear_successor ri = Some h" for h
    using that eff by (auto simp: ri inserted_def split: if_splits)
  have le': "unat (ai_balance (ri_old_account_info ri)) \<le> delegated L' (ai_representative (ri_old_account_info ri))"
    by (simp add: ri D')
  have stored: "account_get L' (ri_account ri) \<noteq> None" "block_get L' (ri_block_hash ri) \<noteq> None"
    using views by (simp_all add: ri)
  have lt': "delegated L' r - (if ai_representative (ri_old_account_info ri) = r then unat (ai_balance (ri_old_account_info ri)) else 0)
      + (if ri_new_representative ri = Some r then unat (ri_new_balance ri) else 0) < 2 ^ 128" for r
    using lt [of r] D [of r] unfolding ri(3,6) by simp
  have rem: "pending_get L' k \<noteq> None" if "ri_remove_pending ri = Some k" for k
    using pend(1) that by blast
  obtain L'' where ex: "execute_rollback mw L' ri = Some L''" and v: "rolled_back_views L' ri L''"
    and st: "block_store_inv L''" and w0: "weights_ok mw (rep_weight_get L'') (lg_rep_cache L'')
      (\<lambda>r. delegated L' r - (if ai_representative (ri_old_account_info ri) = r
          then unat (ai_balance (ri_old_account_info ri)) else 0)
        + (if ri_new_representative ri = Some r then unat (ri_new_balance ri) else 0))"
    by (rule execute_rollback_effects [OF store' stored(2,1) rem succ w' head le' lt'])
  have w: "weights_ok mw (rep_weight_get L'') (lg_rep_cache L'') (delegated L)"
    using w0 unfolding ri(3,6) D .
  have "weights_ok mw (rep_weight_get L) (lg_rep_cache L) (delegated L)"
    using inv by (simp add: ledger_inv_def weight_inv_weights_ok)
  with w have wgt: "rep_weight_get L'' = rep_weight_get L" "RBT.lookup (lg_rep_cache L'') = RBT.lookup (lg_rep_cache L)"
    using weights_ok_unique by blast+
  have "restored_but_pending (in_account ins) t L L''"
    using v wgt eff previous_block_position [OF inv ins] insertable_basic(3) [OF ins]
    by (auto simp: restored_but_pending_def rolled_back_views_def inserted_def ri fun_upd_idem default_account_info_def)
  moreover have "pending_get L'' = Q"
    using v pend(2) by (simp add: rolled_back_views_def)
  ultimately show thesis by (rule that [OF plan ex _ _ st])
qed

text \<open>When the head is the target and its rollback deletes it, the work list is done after one round.\<close>

lemma roll_back_head_only:
  assumes inv: "block_store_inv L" and b: "block_get L (sv_hash cr b) = Some b" and nz: "sv_hash cr b \<noteq> 0"
    and i: "account_get L (sv_account b) = Some i" "ai_head i = sv_hash cr b"
    and plan: "roll_back_head_block cr c L b (clock 0) = Some (Inr (RollBackBlock ri))"
    and ex: "execute_rollback mw L ri = Some L'" and gone: "block_get L' (sv_hash cr b) = None" "block_store_inv L'"
  shows "roll_back cr c mw clock L (sv_hash cr b) = Some (L', Inr 1)"
proof -
  have here: "any_block_exists L (sv_hash cr b)" "\<not> any_block_exists L' (sv_hash cr b)"
    using inv b nz gone by (simp_all add: any_block_exists_def block_exists_iff)
  have "roll_back_impl cr c mw clock 0 L [(b, b)] [] = Some (L', [b], Inr ())"
    by (simp add: roll_back_impl.simps here plan ex)
  moreover have "load_block L (sv_hash cr b) = Inr b" "load_account_head L b = Some (Inr b)"
    using b nz i by (simp_all add: load_account_head_def load_block_def any_get_block_def)
  ultimately have "roll_back_performer cr c mw clock L (sv_hash cr b) = Some (L', [b], Inr ())"
    by (simp add: roll_back_performer_def)
  then show ?thesis
    by (simp add: roll_back_def roll_back_batch_def roll_back_with_tx_def b)
qed

lemma process_then_roll_back:
  assumes inv: "ledger_inv cr mw L" and ok: "batch_ok cr c L [(b, now)]" and val: "validate_block cr c L b now = Inr ins"
    and rev: "\<And>L'. inserted cr L b ins L' \<Longrightarrow> plans_pending cr L' b ins (Q L')"
  obtains L' L'' sv where "process_one cr c mw L b now = Some (L', Inr sv)" "inserted cr L b ins L'"
    "roll_back cr c mw clock L' (block_hash_of cr b) = Some (L'', Inr 1)"
    "restored_but_pending (in_account ins) (clock 0) L L''" "pending_get L'' = Q L'"
proof -
  let ?sv = "new_saved_block b (in_set_sideband ins)"
  obtain L' where one: "process_one cr c mw L b now = Some (L', Inr ?sv)" and ins: "insertable cr L b ins"
    and eff: "inserted cr L b ins L'" and inv': "ledger_inv cr mw L'"
    using process_one_accepted [OF inv ok val] by blast
  obtain ri L'' where plan: "roll_back_head_block cr c L' ?sv (clock 0) = Some (Inr (RollBackBlock ri))"
    and ex: "execute_rollback mw L' ri = Some L''" and res: "restored_but_pending (in_account ins) (clock 0) L L''"
    and Q: "pending_get L'' = Q L'"
    and st: "block_store_inv L''"
    by (rule rollback_undoes_insertion [OF inv val ins eff inv' rev [OF eff]])
  have svb: "sv_block ?sv = b" by (simp add: new_saved_block_def)
  have "roll_back cr c mw clock L' (sv_hash cr ?sv) = Some (L'', Inr 1)"
  proof (rule roll_back_head_only [where clock = clock, OF _ _ _ _ _ plan ex _ st])
    show "block_store_inv L'" using inv' by (simp add: ledger_inv_def)
    show "block_get L' (sv_hash cr ?sv) = Some ?sv" using eff by (simp add: inserted_def svb)
    show "sv_hash cr ?sv \<noteq> 0" using insertable_basic(2) [OF ins] by (simp add: svb)
    show "account_get L' (sv_account ?sv) = Some (in_set_account_info ins)"
      using eff insertable_basic(5) [OF ins] by (simp add: inserted_def)
    show "ai_head (in_set_account_info ins) = sv_hash cr ?sv"
      using insertable_basic(6) [OF ins] by (simp add: svb)
    show "block_get L'' (sv_hash cr ?sv) = None"
      using res insertable_basic(3) [OF ins] by (simp add: restored_but_pending_def svb)
  qed
  then show thesis using that one eff res Q by (simp add: svb)
qed

text \<open>A legacy send of zero is planned like a change: its pending entry is left alone.\<close>

lemma plan_ignores_zero_send:
  assumes "b = LegacySend s" "ai_balance (in_set_account_info ins) = ai_balance (in_old_account_info ins)"
  shows "plans_pending cr L' b ins (pending_get L')"
proof -
  have "rollback_sub_type p \<notin> {SubSend, SubOpen, SubReceive}"
    if "rp_current_account_info p = in_set_account_info ins"
      "rp_previous_balance p = ai_balance (in_old_account_info ins)" for p
    using that assms(2) by (simp add: rollback_sub_type_def)
  then show ?thesis
    by (auto simp: plans_pending_def rp_remove_pending_def rp_add_pending_def)
qed

end
