(* ===== verification/Votes.thy ===== *)
theory Votes
  imports Core_Types
begin

unbundle bit_operations_syntax

text \<open>
  Votes: the steady clock of the node (\<open>nullables/clock\<close>), the vote timestamp with its duration bits
  (\<open>core/src/vote_timestamp.rs\<close>), votes with their hash and wire format (\<open>core/src/vote.rs\<close>), and the
  view of a vote that is restricted to one block (\<open>consensus/filtered_vote.rs\<close>).
\<close>

section \<open>The steady clock\<close>

text \<open>
  A \<open>Timestamp\<close> counts nanoseconds in an \<open>i128\<close>, a \<open>Duration\<close> here is its number of nanoseconds.
  \<open>elapsed\<close> casts the difference to \<open>u64\<close>, so it wraps.
\<close>

type_synonym instant = int
type_synonym duration = nat

definition i128_checked :: "int \<Rightarrow> int option" where
  "i128_checked x = (if - (2 ^ 127) \<le> x \<and> x < 2 ^ 127 then Some x else None)"

definition elapsed :: "instant \<Rightarrow> instant \<Rightarrow> duration" where
  "elapsed t now = nat ((case i128_checked (now - t) of Some d \<Rightarrow> d | None \<Rightarrow> 0) mod 2 ^ 64)"

definition instant_add :: "instant \<Rightarrow> duration \<Rightarrow> instant" where
  "instant_add t d = t + int d"

definition from_millis :: "nat \<Rightarrow> duration" where
  "from_millis ms = ms * 1000000"

definition from_secs :: "nat \<Rightarrow> duration" where
  "from_secs s = s * 1000000000"

lemma elapsed_exact: "t \<le> now \<Longrightarrow> now - t < 2 ^ 64 \<Longrightarrow> elapsed t now = nat (now - t)"
  by (simp add: elapsed_def i128_checked_def)

lemma elapsed_lt: "elapsed t now < 2 ^ 64"
proof -
  have "x mod 2 ^ 64 < 2 ^ 64 \<and> 0 \<le> x mod 2 ^ 64" for x :: int by simp
  then show ?thesis unfolding elapsed_def by (subst nat_less_iff) simp_all
qed

section \<open>Vote timestamps\<close>

type_synonym vote_timestamp = u64

definition vt_final :: vote_timestamp where
  "vt_final = - 1"

definition vt_duration_max :: u8 where
  "vt_duration_max = 0x0F"

definition vt_timestamp_max :: u64 where
  "vt_timestamp_max = 0xFFFFFFFFFFFFFFF0"

definition vt_timestamp_mask :: u64 where
  "vt_timestamp_mask = 0xFFFFFFFFFFFFFFF0"

definition vt_new :: "u64 \<Rightarrow> u8 \<Rightarrow> vote_timestamp" where
  "vt_new ts d = (ts AND vt_timestamp_mask) OR ucast d"

definition vt_duration_bits :: "vote_timestamp \<Rightarrow> u8" where
  "vt_duration_bits vt = ucast (vt AND NOT vt_timestamp_mask)"

definition vt_is_final :: "vote_timestamp \<Rightarrow> bool" where
  "vt_is_final vt \<longleftrightarrow> vt = vt_final"

definition vt_unix_timestamp :: "vote_timestamp \<Rightarrow> u64" where
  "vt_unix_timestamp vt = (if vt_is_final vt then vt else vt AND vt_timestamp_mask)"

text \<open>\<open>1 << (duration_bits + 4)\<close> milliseconds.\<close>

definition vt_duration :: "vote_timestamp \<Rightarrow> nat" where
  "vt_duration vt = 2 ^ (unat (vt_duration_bits vt) + 4)"

section \<open>Votes\<close>

record vote =
  vo_timestamp :: vote_timestamp
  vo_voter :: public_key
  vo_signature :: signature
  vo_hashes :: "block_hash list"

datatype vote_source = Live | Rebroadcast | Cache

datatype vote_error = VoteInvalid | Replay | VoteOk | Late | Indeterminate | Ignored

definition max_hashes :: nat where
  "max_hashes = 255"

definition vo_time :: "vote \<Rightarrow> u64" where
  "vo_time v = vt_unix_timestamp (vo_timestamp v)"

definition vo_is_final :: "vote \<Rightarrow> bool" where
  "vo_is_final v = vt_is_final (vo_timestamp v)"

text \<open>\<open>to_ne_bytes\<close> is little-endian on the supported targets. The prefix is the string "vote ".\<close>

definition vote_hash_prefix :: bytes where
  "vote_hash_prefix = [0x76, 0x6F, 0x74, 0x65, 0x20]"

definition vote_hash :: "crypto \<Rightarrow> vote \<Rightarrow> block_hash" where
  "vote_hash cr v =
    build_hash cr (vote_hash_prefix @ concat (map (be_bytes 32) (vo_hashes v)) @ le_bytes 8 (vo_timestamp v))"

definition vote_validate :: "crypto \<Rightarrow> vote \<Rightarrow> bool" where
  "vote_validate cr v = verify_signature cr (vo_voter v) (vote_hash cr v) (vo_signature v)"

text \<open>\<open>Vote::new\<close>: \<open>sign\<close> is the signing function of the private key; \<open>None\<close> is the failing assertion.\<close>

definition vote_new ::
  "crypto \<Rightarrow> public_key \<Rightarrow> (bytes \<Rightarrow> signature) \<Rightarrow> u64 \<Rightarrow> u8 \<Rightarrow> block_hash list \<Rightarrow> vote option" where
  "vote_new cr key sign ts d hashes =
    (if length hashes \<le> max_hashes then
      (let v = \<lparr> vo_timestamp = vt_new ts d, vo_voter = key, vo_signature = 0, vo_hashes = hashes \<rparr>
       in Some (v\<lparr> vo_signature := sign (be_bytes 32 (vote_hash cr v)) \<rparr>))
     else None)"

definition vote_new_final ::
  "crypto \<Rightarrow> public_key \<Rightarrow> (bytes \<Rightarrow> signature) \<Rightarrow> block_hash list \<Rightarrow> vote option" where
  "vote_new_final cr key sign hashes =
    (if length hashes \<le> max_hashes then vote_new cr key sign vt_timestamp_max vt_duration_max hashes else None)"

definition vote_serialize :: "vote \<Rightarrow> bytes" where
  "vote_serialize v =
    be_bytes 32 (vo_voter v) @ be_bytes 64 (vo_signature v) @ le_bytes 8 (vo_timestamp v) @
    concat (map (be_bytes 32) (vo_hashes v))"

definition vote_serialized_size :: "nat \<Rightarrow> nat" where
  "vote_serialized_size count = 32 + 64 + 8 + 32 * count"

text \<open>The hashes fill the rest of the stream, at most \<open>max_hashes\<close> of them.\<close>

fun read_hashes :: "nat \<Rightarrow> block_hash list reader" where
  "read_hashes 0 bs = Some ([], bs)"
| "read_hashes (Suc n) bs =
    (if bs = [] then Some ([], [])
     else do { (h, bs) \<leftarrow> read_be 32 bs; (hs, bs) \<leftarrow> read_hashes n bs; Some (h # hs, bs) })"

definition vote_deserialize :: "vote reader" where
  "vote_deserialize bs = do {
    (voter, bs) \<leftarrow> read_be 32 bs;
    (sig, bs) \<leftarrow> read_be 64 bs;
    (ts, bs) \<leftarrow> read_le 8 bs;
    (hashes, bs) \<leftarrow> read_hashes max_hashes bs;
    Some (\<lparr> vo_timestamp = ts, vo_voter = voter, vo_signature = sig, vo_hashes = hashes \<rparr>, bs) }"

section \<open>Received votes\<close>

text \<open>The channel a vote came from plays no part in how it is counted.\<close>

record received_vote =
  rv_vote :: vote
  rv_source :: vote_source

record filtered_vote =
  fv_vote :: received_vote
  fv_filter :: block_hash

definition filtered_blocks :: "filtered_vote \<Rightarrow> block_hash list" where
  "filtered_blocks v = filter (\<lambda>h. if fv_filter v = 0 then True else h = fv_filter v) (vo_hashes (rv_vote (fv_vote v)))"

definition unfiltered :: "received_vote \<Rightarrow> filtered_vote" where
  "unfiltered v = \<lparr> fv_vote = v, fv_filter = 0 \<rparr>"

section \<open>Timestamps carry a time and a duration\<close>

lemma mask_bits: "vt_timestamp_mask = NOT (mask 4)"
  by (simp add: vt_timestamp_mask_def mask_eq_exp_minus_1)

lemma duration_bit:
  assumes "d \<le> vt_duration_max" "bit d n"
  shows "n < 4"
proof -
  have "d < 2 ^ 4" using assms(1) by (simp add: vt_duration_max_def word_le_nat_alt word_less_nat_alt)
  then have "d AND mask 4 = d" by (rule less_mask_eq)
  then have "bit (d AND mask 4) n" using assms(2) by simp
  then show ?thesis by (simp add: bit_simps)
qed

lemma vt_new_time: "d \<le> vt_duration_max \<Longrightarrow> vt_new ts d AND vt_timestamp_mask = ts AND vt_timestamp_mask"
  by (rule bit_word_eqI) (auto simp: vt_new_def mask_bits bit_simps dest: duration_bit)

lemma vt_new_duration: "d \<le> vt_duration_max \<Longrightarrow> vt_duration_bits (vt_new ts d) = d"
  by (rule bit_word_eqI) (auto simp: vt_duration_bits_def vt_new_def mask_bits bit_simps dest: duration_bit)

lemma vt_new_final [simp]: "vt_new vt_timestamp_max vt_duration_max = vt_final"
  by (simp add: vt_new_def vt_timestamp_max_def vt_timestamp_mask_def vt_duration_max_def vt_final_def)

lemma vt_final_parts: "vt_final AND vt_timestamp_mask = vt_timestamp_max" "vt_duration_bits vt_final = vt_duration_max"
  by (simp_all add: vt_final_def vt_timestamp_mask_def vt_timestamp_max_def vt_duration_bits_def vt_duration_max_def)

text \<open>Time and duration determine the vote timestamp, so only one pair gives a final vote.\<close>

lemma vt_new_is_final:
  assumes d: "d \<le> vt_duration_max"
  shows "vt_is_final (vt_new ts d) \<longleftrightarrow> ts AND vt_timestamp_mask = vt_timestamp_max \<and> d = vt_duration_max"
proof
  assume "vt_is_final (vt_new ts d)"
  then have "vt_new ts d = vt_final" by (simp add: vt_is_final_def)
  then show "ts AND vt_timestamp_mask = vt_timestamp_max \<and> d = vt_duration_max"
    using vt_new_time [OF d, of ts] vt_new_duration [OF d, of ts] by (simp add: vt_final_parts)
next
  assume *: "ts AND vt_timestamp_mask = vt_timestamp_max \<and> d = vt_duration_max"
  then have "vt_new ts d = vt_new vt_timestamp_max vt_duration_max"
    by (simp add: vt_new_def vt_timestamp_max_def vt_timestamp_mask_def)
  then show "vt_is_final (vt_new ts d)" by (simp add: vt_is_final_def)
qed

lemma vt_duration_bounds: "16 \<le> vt_duration vt \<and> vt_duration vt \<le> 524288"
proof -
  have "vt AND mask 4 < 2 ^ 4" by (rule and_mask_less') simp
  then have "unat (vt AND mask 4) < 16" by (simp add: word_less_nat_alt)
  then have "unat (vt_duration_bits vt) \<le> 15"
    by (simp add: vt_duration_bits_def mask_bits unsigned_ucast_eq take_bit_nat_def)
  then have "(2 :: nat) ^ (unat (vt_duration_bits vt) + 4) \<le> 2 ^ (15 + 4)" by (intro power_increasing) simp_all
  moreover have "(2 :: nat) ^ 4 \<le> 2 ^ (unat (vt_duration_bits vt) + 4)" by (intro power_increasing) simp_all
  ultimately show ?thesis by (simp add: vt_duration_def)
qed

section \<open>Reading back what was written\<close>

lemma read_hashes_written:
  "length hs \<le> n \<Longrightarrow> read_hashes n (concat (map (be_bytes 32) hs)) = Some (hs, [])"
proof (induction hs arbitrary: n)
  case Nil
  then show ?case by (cases n) simp_all
next
  case (Cons h hs)
  then obtain m where n: "n = Suc m" by (cases n) simp_all
  have "be_bytes 32 h \<noteq> []" by (rule length_greater_0_conv [THEN iffD1]) simp
  with Cons n show ?case by (simp add: codec_simps)
qed

lemma vote_roundtrip:
  "length (vo_hashes v) \<le> max_hashes \<Longrightarrow> vote_deserialize (vote_serialize v) = Some (v, [])"
  by (simp add: vote_deserialize_def vote_serialize_def codec_simps read_hashes_written)

lemma vote_serialized_length: "length (vote_serialize v) = vote_serialized_size (length (vo_hashes v))"
  by (simp add: vote_serialize_def vote_serialized_size_def length_concat comp_def sum_list_triv)

lemma read_hashes_count: "read_hashes n bs = Some (hs, rest) \<Longrightarrow> length hs \<le> n"
  by (induction n arbitrary: bs hs rest) (auto simp: bind_eq_Some_conv split: if_splits)

end
