(* ===== verification/Elections.thy ===== *)
theory Elections
  imports Votes Blocks "HOL-Library.AList"
begin

text \<open>
  One election (\<open>node/src/consensus/election\<close>): the candidate blocks of one qualified root, the last
  vote of every representative, and the tallies computed from them. A \<open>HashMap\<close> of the code is an
  association list with distinct keys; the order of the list is the order in which the map happens
  to be iterated. Arithmetic on tallies wraps, as \<open>Amount\<close> does. A panic is \<open>None\<close>.
\<close>

section \<open>Tallies\<close>

definition max_blocks :: nat where
  "max_blocks = 10"

text \<open>The first \<open>len\<close> entries of the array.\<close>

type_synonym block_tallies = "(block_hash \<times> amount) list"

record vote_summary =
  vs_voter :: public_key
  vs_created :: u64
  vs_received :: instant
  vs_hash :: block_hash
  vs_weight :: amount

definition bt_winner :: "block_tallies \<Rightarrow> (block_hash \<times> amount) option" where
  "bt_winner t = (case t of [] \<Rightarrow> None | x # _ \<Rightarrow> Some x)"

definition bt_lowest :: "block_tallies \<Rightarrow> (block_hash \<times> amount) option" where
  "bt_lowest t = (if t = [] then None else Some (last t))"

definition bt_get :: "block_tallies \<Rightarrow> block_hash \<Rightarrow> amount" where
  "bt_get t h = (case map_of t h of Some x \<Rightarrow> x | None \<Rightarrow> 0)"

definition bt_contains :: "block_tallies \<Rightarrow> block_hash \<Rightarrow> bool" where
  "bt_contains t h \<longleftrightarrow> h \<in> set (map fst t)"

definition bt_sum :: "block_tallies \<Rightarrow> amount" where
  "bt_sum t = amount_sum (map snd t)"

text \<open>\<open>remove\<close> rotates the first entry with this hash out of the used part of the array.\<close>

fun bt_remove :: "block_tallies \<Rightarrow> block_hash \<Rightarrow> block_tallies" where
  "bt_remove [] h = []"
| "bt_remove ((g, x) # t) h = (if g = h then t else (g, x) # bt_remove t h)"

definition check_quorum :: "block_tallies \<Rightarrow> amount \<Rightarrow> bool" where
  "check_quorum t quorum_delta =
    (let first = (case t of x # _ \<Rightarrow> snd x | _ \<Rightarrow> 0);
         second = (case t of _ # x # _ \<Rightarrow> snd x | _ \<Rightarrow> 0)
     in quorum_delta \<le> first - second)"

definition insert_unsorted :: "block_tallies \<Rightarrow> block_hash \<Rightarrow> amount \<Rightarrow> block_tallies option" where
  "insert_unsorted t h x = (if length t = max_blocks then None else Some (t @ [(h, x)]))"

text \<open>\<open>sort_by\<close> is stable; the key turns descending tallies into ascending numbers.\<close>

definition sort_by_descending_tally :: "block_tallies \<Rightarrow> block_tallies" where
  "sort_by_descending_tally t = sort_key (\<lambda>(_, x). 2 ^ 128 - unat x) t"

definition bt_insert :: "block_tallies \<Rightarrow> block_hash \<Rightarrow> amount \<Rightarrow> block_tallies option" where
  "bt_insert t h x = map_option sort_by_descending_tally (insert_unsorted t h x)"

fun add_tally :: "block_tallies \<Rightarrow> block_hash \<Rightarrow> amount \<Rightarrow> block_tallies" where
  "add_tally [] h w = []"
| "add_tally ((g, x) # t) h w = (if g = h then (g, x + w) # t else (g, x) # add_tally t h w)"

fun count_votes :: "block_tallies \<Rightarrow> vote_summary list \<Rightarrow> block_tallies option" where
  "count_votes t [] = Some t"
| "count_votes t (v # votes) =
    (if bt_contains t (vs_hash v) then count_votes (add_tally t (vs_hash v) (vs_weight v)) votes
     else do { t \<leftarrow> insert_unsorted t (vs_hash v) (vs_weight v); count_votes t votes })"

definition bt_calculate :: "vote_summary list \<Rightarrow> block_tallies option" where
  "bt_calculate votes = map_option sort_by_descending_tally (count_votes [] votes)"

section \<open>The state of an election\<close>

datatype election_state = Passive | Active | Confirmed | ExpiredConfirmed | ExpiredUnconfirmed | Cancelled

definition state_is_confirmed :: "election_state \<Rightarrow> bool" where
  "state_is_confirmed s \<longleftrightarrow> s \<in> {Confirmed, ExpiredConfirmed}"

definition has_ended :: "election_state \<Rightarrow> bool" where
  "has_ended s \<longleftrightarrow> s \<in> {Confirmed, Cancelled, ExpiredConfirmed, ExpiredUnconfirmed}"

datatype election_behavior = Manual | Priority | Hinted | Optimistic

fun time_to_live :: "election_behavior \<Rightarrow> duration" where
  "time_to_live Manual = from_secs (60 * 5)"
| "time_to_live Priority = from_secs (60 * 5)"
| "time_to_live Hinted = from_secs 30"
| "time_to_live Optimistic = from_secs 30"

datatype vote_type = NonFinal | Final

datatype maybe_saved_block = Saved saved_block | Unsaved block

fun mb_block :: "maybe_saved_block \<Rightarrow> block" where
  "mb_block (Saved b) = sv_block b"
| "mb_block (Unsaved b) = b"

abbreviation mb_hash :: "crypto \<Rightarrow> maybe_saved_block \<Rightarrow> block_hash" where
  "mb_hash cr b \<equiv> block_hash_of cr (mb_block b)"

record election =
  el_qualified_root :: qualified_root
  el_winner :: maybe_saved_block
  el_state :: election_state
  el_candidates :: "(block_hash \<times> maybe_saved_block) list"
  el_votes :: "(public_key \<times> vote_summary) list"
  el_winner_tally :: amount
  el_winner_final_tally :: amount
  el_tallies :: block_tallies
  el_final_tallies :: block_tallies
  el_behavior :: election_behavior
  el_has_quorum :: bool
  el_start :: instant
  el_base_latency :: duration
  el_account :: account
  el_last_final_vote :: "instant option"
  el_last_non_final_vote :: "instant option"
  el_last_voted_winner :: block_hash

definition passive_duration_factor :: nat where
  "passive_duration_factor = 5"

definition new_election ::
  "crypto \<Rightarrow> saved_block \<Rightarrow> election_behavior \<Rightarrow> duration \<Rightarrow> instant \<Rightarrow> election" where
  "new_election cr b behavior base_latency now =
    \<lparr> el_qualified_root = block_qualified_root (sv_block b), el_winner = Saved b, el_state = Passive,
      el_candidates = [(sv_hash cr b, Saved b)], el_votes = [], el_winner_tally = 0,
      el_winner_final_tally = 0, el_tallies = [], el_final_tallies = [], el_behavior = behavior,
      el_has_quorum = False, el_start = now, el_base_latency = base_latency, el_account = sv_account b,
      el_last_final_vote = None, el_last_non_final_vote = None, el_last_voted_winner = 0 \<rparr>"

abbreviation winner_hash :: "crypto \<Rightarrow> election \<Rightarrow> block_hash" where
  "winner_hash cr e \<equiv> mb_hash cr (el_winner e)"

definition contains_block :: "election \<Rightarrow> block_hash \<Rightarrow> bool" where
  "contains_block e h \<longleftrightarrow> h \<in> set (map fst (el_candidates e))"

definition has_max_blocks :: "election \<Rightarrow> bool" where
  "has_max_blocks e \<longleftrightarrow> max_blocks \<le> length (el_candidates e)"

section \<open>Votes of an election\<close>

definition new_vote_summary :: "public_key \<Rightarrow> block_hash \<Rightarrow> u64 \<Rightarrow> instant \<Rightarrow> vote_summary" where
  "new_vote_summary voter h created received =
    \<lparr> vs_voter = voter, vs_created = created, vs_received = received, vs_hash = h, vs_weight = 0 \<rparr>"

text \<open>\<open>UnixMillisTimestamp::MAX\<close> is the time of a final vote.\<close>

definition is_final_vote :: "vote_summary \<Rightarrow> bool" where
  "is_final_vote v \<longleftrightarrow> vs_created v = - 1"

definition ensure_no_replay :: "vote_summary \<Rightarrow> vote \<Rightarrow> block_hash \<Rightarrow> vote_error + unit" where
  "ensure_no_replay self new_vote h =
    (if vs_created self > vo_time new_vote then Inl Replay
     else if vs_created self = vo_time new_vote \<and> vs_hash self \<ge> h then Inl Replay
     else Inr ())"

definition has_switched_to_final_vote :: "vote_summary \<Rightarrow> vote \<Rightarrow> bool" where
  "has_switched_to_final_vote self new_vote \<longleftrightarrow> vo_is_final new_vote \<and> vs_created self < vo_time new_vote"

definition el_add_vote :: "election \<Rightarrow> public_key \<Rightarrow> block_hash \<Rightarrow> u64 \<Rightarrow> instant \<Rightarrow> election" where
  "el_add_vote e voter h created received =
    e\<lparr> el_votes := AList.update voter (new_vote_summary voter h created received) (el_votes e) \<rparr>"

definition remove_vote :: "election \<Rightarrow> public_key \<Rightarrow> election" where
  "remove_vote e voter = e\<lparr> el_votes := AList.delete voter (el_votes e) \<rparr>"

definition el_is_confirmed :: "election \<Rightarrow> bool" where
  "el_is_confirmed e = state_is_confirmed (el_state e)"

definition el_is_final :: "election \<Rightarrow> bool" where
  "el_is_final e \<longleftrightarrow> el_is_confirmed e \<or> el_has_quorum e"

definition el_vote_type :: "election \<Rightarrow> vote_type" where
  "el_vote_type e = (if el_is_final e then Final else NonFinal)"

definition voted :: "crypto \<Rightarrow> election \<Rightarrow> vote_type \<Rightarrow> instant \<Rightarrow> election" where
  "voted cr e vt t =
    (case vt of
      NonFinal \<Rightarrow> e\<lparr> el_last_non_final_vote := Some t \<rparr>
    | Final \<Rightarrow> e\<lparr> el_last_final_vote := Some t \<rparr>)\<lparr> el_last_voted_winner := winner_hash cr e \<rparr>"

definition can_vote :: "crypto \<Rightarrow> election \<Rightarrow> duration \<Rightarrow> instant \<Rightarrow> bool" where
  "can_vote cr e broadcast_interval now =
    (if el_last_voted_winner e \<noteq> winner_hash cr e then True
     else case (case el_vote_type e of NonFinal \<Rightarrow> el_last_non_final_vote e | Final \<Rightarrow> el_last_final_vote e) of
       Some l \<Rightarrow> instant_add l broadcast_interval \<le> now
     | None \<Rightarrow> True)"

section \<open>State transitions\<close>

definition el_transition_time :: "election \<Rightarrow> instant \<Rightarrow> election" where
  "el_transition_time e now =
    (let d = elapsed (el_start e) now;
         e = (case el_state e of
               Passive \<Rightarrow> if el_base_latency e * passive_duration_factor < d then e\<lparr> el_state := Active \<rparr> else e
             | Confirmed \<Rightarrow> e\<lparr> el_state := ExpiredConfirmed \<rparr>
             | _ \<Rightarrow> e)
     in if \<not> has_ended (el_state e) \<and> time_to_live (el_behavior e) < d
        then e\<lparr> el_state := ExpiredUnconfirmed \<rparr> else e)"

definition el_cancel :: "election \<Rightarrow> election" where
  "el_cancel e = (if \<not> has_ended (el_state e) then e\<lparr> el_state := Cancelled \<rparr> else e)"

definition el_transition_active :: "election \<Rightarrow> election" where
  "el_transition_active e = (if el_state e = Passive then e\<lparr> el_state := Active \<rparr> else e)"

definition maybe_upgrade_to :: "election \<Rightarrow> election_behavior \<Rightarrow> election \<times> bool" where
  "maybe_upgrade_to e new_behavior =
    (if new_behavior \<noteq> Priority then (e, False)
     else if el_behavior e \<in> {Priority, Manual} then (e, False)
     else (e\<lparr> el_behavior := Priority \<rparr>, True))"

definition el_force_confirm :: "election \<Rightarrow> election \<times> bool" where
  "el_force_confirm e = (if \<not> has_ended (el_state e) then (e\<lparr> el_state := Confirmed \<rparr>, True) else (e, False))"

section \<open>Forks\<close>

definition remove_block :: "crypto \<Rightarrow> election \<Rightarrow> block_hash \<Rightarrow> election \<times> maybe_saved_block option" where
  "remove_block cr e h =
    (if winner_hash cr e \<noteq> h
     then (case map_of (el_candidates e) h of
            Some existing \<Rightarrow>
              (e\<lparr> el_candidates := AList.delete h (el_candidates e),
                  el_votes := filter (\<lambda>(_, v). vs_hash v \<noteq> h) (el_votes e),
                  el_tallies := bt_remove (el_tallies e) h,
                  el_final_tallies := bt_remove (el_final_tallies e) h \<rparr>, Some existing)
          | None \<Rightarrow> (e, None))
     else (e, None))"

text \<open>A candidate without tally (and not the winner), in the order of iteration.\<close>

definition without_tally :: "crypto \<Rightarrow> election \<Rightarrow> block_hash option" where
  "without_tally cr e =
    find (\<lambda>h. \<not> bt_contains (el_tallies e) h \<and> h \<noteq> winner_hash cr e) (map fst (el_candidates e))"

definition lowest_block_below :: "crypto \<Rightarrow> election \<Rightarrow> amount \<Rightarrow> block_hash option" where
  "lowest_block_below cr e min_tally = do {
    (lowest_hash, lowest_tally) \<leftarrow> bt_lowest (el_tallies e);
    (if lowest_tally < min_tally
     then if lowest_hash \<noteq> winner_hash cr e then Some lowest_hash
          else (case rev (el_tallies e) of
                 _ # (second_lowest_hash, second_lowest_tally) # _ \<Rightarrow>
                   Some (if second_lowest_tally < min_tally then second_lowest_hash else 0)
               | _ \<Rightarrow> None)
     else Some 0) }"

definition remove_tally_below ::
  "crypto \<Rightarrow> election \<Rightarrow> amount \<Rightarrow> (election \<times> maybe_saved_block option) option" where
  "remove_tally_below cr e min_tally =
    (if min_tally = 0 then Some (e, None)
     else do {
       let block_to_remove =
         (if length (el_tallies e) < max_blocks
          then (case without_tally cr e of Some h \<Rightarrow> h | None \<Rightarrow> 0) else 0);
       block_to_remove \<leftarrow>
         (if block_to_remove = 0 then lowest_block_below cr e min_tally else Some block_to_remove);
       Some (if block_to_remove \<noteq> 0 then remove_block cr e block_to_remove else (e, None)) })"

datatype add_fork_result = Added | Replaced maybe_saved_block | TallyTooLow | Duplicate | ElectionEnded

definition el_try_add_fork ::
  "crypto \<Rightarrow> election \<Rightarrow> block \<Rightarrow> amount \<Rightarrow> (election \<times> add_fork_result) option" where
  "el_try_add_fork cr e fork fork_tally =
    (if has_ended (el_state e) then Some (e, ElectionEnded)
     else if contains_block e (block_hash_of cr fork) then Some (e, Duplicate)
     else do {
       let full = has_max_blocks e;
       (e, removed) \<leftarrow> (if full then remove_tally_below cr e fork_tally else Some (e, None));
       (if full \<and> removed = None then Some (e, TallyTooLow)
        else do {
          t \<leftarrow> bt_insert (el_tallies e) (block_hash_of cr fork) fork_tally;
          Some (e\<lparr> el_tallies := t,
                   el_candidates := AList.update (block_hash_of cr fork) (Unsaved fork) (el_candidates e) \<rparr>,
                case removed of Some r \<Rightarrow> Replaced r | None \<Rightarrow> Added) }) })"

section \<open>Counting\<close>

type_synonym rep_weights = "public_key \<rightharpoonup> amount"

definition update_vote_weights :: "election \<Rightarrow> rep_weights \<Rightarrow> election" where
  "update_vote_weights e w =
    e\<lparr> el_votes := map (\<lambda>(k, v). (k, v\<lparr> vs_weight := unwrap_or_zero (w (vs_voter v)) \<rparr>)) (el_votes e) \<rparr>"

definition recalculate_tallies :: "election \<Rightarrow> election option" where
  "recalculate_tallies e = do {
    t \<leftarrow> bt_calculate (map snd (el_votes e));
    f \<leftarrow> bt_calculate (filter is_final_vote (map snd (el_votes e)));
    Some (e\<lparr> el_tallies := t, el_final_tallies := f \<rparr>) }"

definition check_new_winner :: "crypto \<Rightarrow> election \<Rightarrow> amount \<Rightarrow> block_hash option" where
  "check_new_winner cr e quorum_delta =
    (if bt_sum (el_tallies e) < quorum_delta then None
     else
       (let new_winner = (case bt_winner (el_tallies e) of Some (h, _) \<Rightarrow> h | None \<Rightarrow> winner_hash cr e)
        in if new_winner \<noteq> winner_hash cr e then Some new_winner else None))"

definition change_winner_to :: "election \<Rightarrow> block_hash \<Rightarrow> election option" where
  "change_winner_to e h = map_option (\<lambda>b. e\<lparr> el_winner := b \<rparr>) (map_of (el_candidates e) h)"

definition update_winner_tally :: "crypto \<Rightarrow> election \<Rightarrow> election" where
  "update_winner_tally cr e =
    e\<lparr> el_winner_tally := bt_get (el_tallies e) (winner_hash cr e),
       el_winner_final_tally := bt_get (el_final_tallies e) (winner_hash cr e) \<rparr>"

definition try_set_quorum :: "election \<Rightarrow> amount \<Rightarrow> election" where
  "try_set_quorum e quorum_delta =
    (if check_quorum (el_tallies e) quorum_delta then e\<lparr> el_has_quorum := True \<rparr> else e)"

definition try_confirm :: "election \<Rightarrow> amount \<Rightarrow> election" where
  "try_confirm e quorum_delta =
    (if quorum_delta \<le> el_winner_final_tally e then e\<lparr> el_state := Confirmed \<rparr> else e)"

definition update_tallies :: "crypto \<Rightarrow> election \<Rightarrow> rep_weights \<Rightarrow> amount \<Rightarrow> election option" where
  "update_tallies cr e w quorum_delta =
    (if has_ended (el_state e) then Some e
     else do {
       e \<leftarrow> recalculate_tallies (update_vote_weights e w);
       e \<leftarrow> (case check_new_winner cr e quorum_delta of
              Some h \<Rightarrow> change_winner_to e h
            | None \<Rightarrow> Some e);
       Some (try_confirm (try_set_quorum (update_winner_tally cr e) quorum_delta) quorum_delta) })"

end
