(* ===== verification/Election_Containers.thy ===== *)
theory Election_Containers
  imports Elections
begin

text \<open>
  The containers behind the active elections (\<open>node/src/consensus/active_elections\<close>): the buckets of
  the priority scheduler, the round robin iterator over them, the cache of recently confirmed
  elections and the cooldown controller. A \<open>BTreeSet\<close> is a strictly sorted list, a \<open>HashMap\<close> that is
  never iterated is a map. A panic is \<open>None\<close>.
\<close>

section \<open>Bucketing\<close>

definition build_region :: "amount \<Rightarrow> amount \<Rightarrow> nat \<Rightarrow> amount list" where
  "build_region region_begin region_end count =
    (let width = (region_end - region_begin) div of_nat count
     in map (\<lambda>i. region_begin + of_nat i * width) [0..<count])"

definition bucket_minimums :: "amount list" where
  "bucket_minimums =
    build_region 0 (2 ^ 79) 1 @ build_region (2 ^ 79) (2 ^ 88) 1 @ build_region (2 ^ 88) (2 ^ 92) 2 @
    build_region (2 ^ 92) (2 ^ 96) 4 @ build_region (2 ^ 96) (2 ^ 100) 8 @ build_region (2 ^ 100) (2 ^ 104) 16 @
    build_region (2 ^ 104) (2 ^ 108) 16 @ build_region (2 ^ 108) (2 ^ 112) 8 @
    build_region (2 ^ 112) (2 ^ 116) 4 @ build_region (2 ^ 116) (2 ^ 120) 2 @ build_region (2 ^ 120) (2 ^ 127) 1"

text \<open>The last bucket whose minimum is not above the balance; \<open>None\<close> is \<open>unreachable!\<close>.\<close>

definition prio_bucket_index :: "amount \<Rightarrow> nat option" where
  "prio_bucket_index bal = map_option fst (find (\<lambda>(_, minimum). minimum \<le> bal) (rev (enumerate 0 bucket_minimums)))"

definition prio_bucket_count :: nat where
  "prio_bucket_count = length bucket_minimums"

definition bucket_count :: nat where
  "bucket_count = prio_bucket_count + 1 + 1 + 1"

fun bucket_index :: "election_behavior \<Rightarrow> amount \<Rightarrow> nat option" where
  "bucket_index Priority bal = prio_bucket_index bal"
| "bucket_index Manual bal = Some prio_bucket_count"
| "bucket_index Hinted bal = Some (prio_bucket_count + 1)"
| "bucket_index Optimistic bal = Some (prio_bucket_count + 2)"

text \<open>Entries of a bucket are ordered by descending time priority, that is by ascending timestamp.\<close>

datatype bucket_entry = BucketEntry (be_root: qualified_root) (be_priority: block_priority)

definition bucket_entry_less :: "bucket_entry \<Rightarrow> bucket_entry \<Rightarrow> bool" where
  "bucket_entry_less a b \<longleftrightarrow>
    bp_time (be_priority a) < bp_time (be_priority b) \<or>
    bp_time (be_priority a) = bp_time (be_priority b) \<and>
      (bp_balance (be_priority b) < bp_balance (be_priority a) \<or>
       bp_balance (be_priority a) = bp_balance (be_priority b) \<and> be_root b < be_root a)"

instantiation bucket_entry :: linorder
begin

definition less_bucket_entry :: "bucket_entry \<Rightarrow> bucket_entry \<Rightarrow> bool" where
  "less_bucket_entry = bucket_entry_less"

definition less_eq_bucket_entry :: "bucket_entry \<Rightarrow> bucket_entry \<Rightarrow> bool" where
  "less_eq_bucket_entry a b \<longleftrightarrow> a < b \<or> a = b"

instance
proof
  fix a b :: bucket_entry
  show "a \<le> b \<or> b \<le> a"
  proof (cases "be_priority a = be_priority b")
    case True
    then show ?thesis
      by (cases "be_root a" "be_root b" rule: linorder_cases)
        (auto simp: less_eq_bucket_entry_def less_bucket_entry_def bucket_entry_less_def bucket_entry.expand)
  next
    case False
    then have "bp_balance (be_priority a) \<noteq> bp_balance (be_priority b) \<or> bp_time (be_priority a) \<noteq> bp_time (be_priority b)"
      using block_priority.expand by blast
    then show ?thesis by (auto simp: less_eq_bucket_entry_def less_bucket_entry_def bucket_entry_less_def)
  qed
qed (auto simp: less_eq_bucket_entry_def less_bucket_entry_def bucket_entry_less_def)

end

type_synonym bucket = "bucket_entry list"

definition btree_insert :: "'a :: linorder \<Rightarrow> 'a list \<Rightarrow> 'a list" where
  "btree_insert x s = insort_insert_key (\<lambda>x. x) x s"

definition btree_remove :: "'a :: linorder \<Rightarrow> 'a list \<Rightarrow> 'a list" where
  "btree_remove x s = remove1 x s"

section \<open>Round robin iteration\<close>

text \<open>The rest of every bucket's iterator, the current one, and whether this round yielded anything.\<close>

record round_robin =
  rr_iters :: "bucket list"
  rr_current :: nat
  rr_yielded :: bool

definition new_round_robin :: "bucket list \<Rightarrow> round_robin" where
  "new_round_robin buckets =
    \<lparr> rr_iters = filter (\<lambda>b. b \<noteq> []) (rev buckets), rr_current = 0, rr_yielded = False \<rparr>"

definition advance :: "round_robin \<Rightarrow> round_robin" where
  "advance it =
    (if length (rr_iters it) \<le> rr_current it + 1 \<and> rr_yielded it
     then it\<lparr> rr_current := 0, rr_yielded := False \<rparr>
     else it\<lparr> rr_current := rr_current it + 1 \<rparr>)"

function rr_next :: "round_robin \<Rightarrow> bucket_entry option \<times> round_robin" where
  "rr_next it =
    (if rr_current it < length (rr_iters it) then
      (case rr_iters it ! rr_current it of
        x # xs \<Rightarrow> (Some x, advance (it\<lparr> rr_iters := (rr_iters it)[rr_current it := xs], rr_yielded := True \<rparr>))
      | [] \<Rightarrow> rr_next (advance it))
     else (None, it))"
  by pat_completeness auto

termination
  by (relation "measure (\<lambda>it. (if rr_yielded it then length (rr_iters it) + 1 else 0) + (length (rr_iters it) - rr_current it))")
    (auto simp: advance_def)

declare rr_next.simps [simp del]

definition rr_left :: "round_robin \<Rightarrow> nat" where
  "rr_left it = sum_list (map length (rr_iters it))"

lemma rr_left_advance [simp]: "rr_left (advance it) = rr_left it"
  by (simp add: advance_def rr_left_def)

lemma rr_next_left: "rr_next it = (Some x, it') \<Longrightarrow> rr_left it' < rr_left it"
proof (induction it rule: rr_next.induct)
  case (1 it)
  show ?case
  proof (cases "rr_current it < length (rr_iters it)")
    case True
    show ?thesis
    proof (cases "rr_iters it ! rr_current it")
      case Nil
      then show ?thesis using 1 True by (subst (asm) (2) rr_next.simps) simp
    next
      case (Cons y ys)
      let ?ls = "map length (rr_iters it)"
      have k: "rr_current it < length ?ls" using True by simp
      have "length (y # ys) \<le> sum_list ?ls"
        using elem_le_sum_list [OF k] Cons True by simp
      then have "sum_list (?ls[rr_current it := length ys]) < sum_list ?ls"
        using sum_list_update [OF k, of "length ys"] Cons True by simp
      then have "sum_list (map length ((rr_iters it)[rr_current it := ys])) < sum_list ?ls"
        by (simp add: map_update)
      then show ?thesis using 1(2) True Cons by (subst (asm) rr_next.simps) (auto simp: rr_left_def advance_def)
    qed
  next
    case False
    then show ?thesis using 1(2) by (subst (asm) rr_next.simps) simp
  qed
qed

text \<open>All entries the iterator yields.\<close>

function rr_collect :: "round_robin \<Rightarrow> bucket_entry list" where
  "rr_collect it = (case rr_next it of (Some x, it') \<Rightarrow> x # rr_collect it' | (None, _) \<Rightarrow> [])"
  by pat_completeness auto

termination
  by (relation "measure rr_left") (auto dest: sym rr_next_left)

declare rr_collect.simps [simp del]

text \<open>One round yields the first entry of every bucket that has one left.\<close>

definition heads :: "'a list list \<Rightarrow> 'a list" where
  "heads bs = concat (map (take 1) bs)"

lemma heads_simps [simp]: "heads [] = []" "heads ([] # bs) = heads bs" "heads ((x # xs) # bs) = x # heads bs"
  by (simp_all add: heads_def)

lemma collect_round:
  "rest \<noteq> [] \<Longrightarrow> rr_collect \<lparr> rr_iters = front @ rest, rr_current = length front, rr_yielded = y \<rparr> =
    heads rest @ (if y \<or> (\<exists>b \<in> set rest. b \<noteq> [])
      then rr_collect \<lparr> rr_iters = front @ map tl rest, rr_current = 0, rr_yielded = False \<rparr> else [])"
proof (induction rest arbitrary: front y)
  case (Cons b rest)
  let ?it = "\<lparr> rr_iters = front @ b # rest, rr_current = length front, rr_yielded = y \<rparr>"
  show ?case
  proof (cases b)
    case Nil
    have "rr_next ?it = rr_next (advance ?it)"
      using Nil by (subst rr_next.simps) simp
    then have "rr_collect ?it = rr_collect (advance ?it)"
      by (subst (1 2) rr_collect.simps) simp
    also have "\<dots> = (if rest = [] then (if y then rr_collect \<lparr> rr_iters = front @ [[]], rr_current = 0, rr_yielded = False \<rparr> else [])
        else rr_collect \<lparr> rr_iters = (front @ [[]]) @ rest, rr_current = length (front @ [[]]), rr_yielded = y \<rparr>)"
      using Nil by (simp add: advance_def rr_collect.simps [of "\<lparr> rr_iters = front @ [[]], rr_current = Suc (length front), rr_yielded = False \<rparr>"]
          rr_next.simps [of "\<lparr> rr_iters = front @ [[]], rr_current = Suc (length front), rr_yielded = False \<rparr>"])
    finally show ?thesis using Cons.IH [of "front @ [[]]" y] Nil by (cases "rest = []") auto
  next
    case (Cons x xs)
    have "rr_next ?it = (Some x, advance \<lparr> rr_iters = front @ xs # rest, rr_current = length front, rr_yielded = True \<rparr>)"
      using Cons by (subst rr_next.simps) simp
    then have "rr_collect ?it = x # rr_collect (advance \<lparr> rr_iters = front @ xs # rest, rr_current = length front, rr_yielded = True \<rparr>)"
      by (subst rr_collect.simps) simp
    also have "\<dots> = x # (if rest = [] then rr_collect \<lparr> rr_iters = front @ [xs], rr_current = 0, rr_yielded = False \<rparr>
        else rr_collect \<lparr> rr_iters = (front @ [xs]) @ rest, rr_current = length (front @ [xs]), rr_yielded = True \<rparr>)"
      by (simp add: advance_def)
    finally show ?thesis using Cons.IH [of "front @ [xs]" True] Cons by (cases "rest = []") auto
  qed
qed simp

lemma transpose_nonempty: "transpose (filter (\<lambda>b. b \<noteq> []) bs) = transpose bs"
proof (induction bs rule: transpose.induct)
  case (3 x xs xss)
  have "[h. (h # t) \<leftarrow> filter (\<lambda>b. b \<noteq> []) ys] = [h. (h # t) \<leftarrow> ys]"
    "[t. (h # t) \<leftarrow> filter (\<lambda>b. b \<noteq> []) ys] = [t. (h # t) \<leftarrow> ys]" for ys :: "'a list list"
    by (induction ys) (auto split: list.splits)
  then show ?case by simp
qed simp_all

lemma transpose_round:
  "\<exists>b \<in> set bs. b \<noteq> [] \<Longrightarrow> transpose bs = heads bs # transpose (map tl bs)"
proof (induction bs rule: transpose.induct)
  case (3 x xs xss)
  have "[h. (h # t) \<leftarrow> xss] = heads xss"
    by (induction xss) (auto simp: heads_def split: list.splits)
  moreover have "filter (\<lambda>b. b \<noteq> []) [t. (h # t) \<leftarrow> xss] = filter (\<lambda>b. b \<noteq> []) (map tl xss)"
    by (induction xss) (auto split: list.splits)
  then have "filter (\<lambda>b. b \<noteq> []) (xs # [t. (h # t) \<leftarrow> xss]) = filter (\<lambda>b. b \<noteq> []) (xs # map tl xss)"
    by (simp only: filter.simps)
  then have "transpose (xs # [t. (h # t) \<leftarrow> xss]) = transpose (xs # map tl xss)"
    by (metis transpose_nonempty)
  ultimately show ?case by simp
qed auto

lemma transpose_empty: "\<forall>b \<in> set bs. b = [] \<Longrightarrow> transpose bs = []"
  by (induction bs) auto

lemma tails_shorter: "c \<in> set bs \<Longrightarrow> c \<noteq> [] \<Longrightarrow> (\<Sum>b\<leftarrow>bs. length (tl b)) < (\<Sum>b\<leftarrow>bs. length b)"
proof (induction bs)
  case (Cons b bs)
  have "(\<Sum>b\<leftarrow>bs. length (tl b)) \<le> (\<Sum>b\<leftarrow>bs. length b)" by (rule sum_list_mono) simp
  with Cons show ?case by (cases b) auto
qed simp

lemma collect_transpose:
  "rr_collect \<lparr> rr_iters = bs, rr_current = 0, rr_yielded = False \<rparr> = concat (transpose bs)"
proof (induction "sum_list (map length bs)" arbitrary: bs rule: less_induct)
  case less
  show ?case
  proof (cases "\<exists>b \<in> set bs. b \<noteq> []")
    case True
    then obtain c where c: "c \<in> set bs" "c \<noteq> []" by blast
    have "rr_collect \<lparr> rr_iters = map tl bs, rr_current = 0, rr_yielded = False \<rparr> = concat (transpose (map tl bs))"
      using tails_shorter [OF c] by (intro less) (simp add: comp_def)
    then show ?thesis
      using collect_round [of bs "[]" False] True transpose_round [OF True] by (cases bs) auto
  next
    case False
    then show ?thesis
      using collect_round [of bs "[]" False] transpose_empty [of bs] 
      by (cases "bs = []") (auto simp: heads_def rr_collect.simps [of "\<lparr> rr_iters = [], rr_current = 0, rr_yielded = False \<rparr>"]
          rr_next.simps [of "\<lparr> rr_iters = [], rr_current = 0, rr_yielded = False \<rparr>"])
  qed
qed

lemma round_robin_order: "rr_collect (new_round_robin bs) = concat (transpose (rev bs))"
  by (simp add: new_round_robin_def collect_transpose transpose_nonempty)

section \<open>Every balance has a bucket\<close>

lemma find_last_index:
  "map_option fst (find (\<lambda>(_, m). P m) (rev (enumerate 0 ms))) = Some i \<longleftrightarrow>
    i < length ms \<and> P (ms ! i) \<and> (\<forall>j. i < j \<and> j < length ms \<longrightarrow> \<not> P (ms ! j))"
proof (induction ms arbitrary: i rule: rev_induct)
  case (snoc m ms)
  show ?case
  proof (cases "P m")
    case True
    then have "map_option fst (find (\<lambda>(_, m). P m) (rev (enumerate 0 (ms @ [m])))) = Some (length ms)"
      by (simp add: enumerate_append_eq)
    moreover have "\<exists>j. i < j \<and> j < length (ms @ [m]) \<and> P ((ms @ [m]) ! j)" if "i < length ms"
      using that True by (intro exI [of _ "length ms"]) simp
    ultimately show ?thesis using True by (cases "i < length ms") (auto simp: less_Suc_eq)
  next
    case False
    have "map_option fst (find (\<lambda>(_, m). P m) (rev (enumerate 0 (ms @ [m])))) =
        map_option fst (find (\<lambda>(_, m). P m) (rev (enumerate 0 ms)))"
      using False by (simp add: enumerate_append_eq)
    moreover have "P ((ms @ [m]) ! j) \<longleftrightarrow> j < length ms \<and> P (ms ! j)" if "j < length (ms @ [m])" for j
      using that False by (auto simp: nth_append less_Suc_eq)
    ultimately show ?thesis using snoc.IH [of i] by (metis length_append_singleton less_Suc_eq)
  qed
qed simp

lemma prio_bucket_index_iff:
  "prio_bucket_index bal = Some i \<longleftrightarrow>
    i < prio_bucket_count \<and> bucket_minimums ! i \<le> bal \<and>
    (\<forall>j. i < j \<and> j < prio_bucket_count \<longrightarrow> bal < bucket_minimums ! j)"
  unfolding prio_bucket_index_def prio_bucket_count_def find_last_index by (simp only: not_le)

lemma lowest_minimum: "0 < prio_bucket_count \<and> bucket_minimums ! 0 = 0"
  by (simp add: prio_bucket_count_def bucket_minimums_def build_region_def)

lemma prio_bucket_index_total: "\<exists>i. prio_bucket_index bal = Some i"
proof -
  let ?I = "{i. i < prio_bucket_count \<and> bucket_minimums ! i \<le> bal}"
  have I: "finite ?I" "0 \<in> ?I" using lowest_minimum by auto
  then have "Max ?I \<in> ?I" by (intro Max_in) auto
  moreover have "bal < bucket_minimums ! j" if "Max ?I < j" "j < prio_bucket_count" for j
    using Max_ge [OF I(1), of j] that by (auto simp: not_le [symmetric])
  ultimately show ?thesis using prio_bucket_index_iff by blast
qed

lemma bucket_index_total:
  obtains i where "bucket_index b bal = Some i" "i < bucket_count"
  using prio_bucket_index_total [of bal] prio_bucket_index_iff [of bal]
  by (cases b) (auto simp: bucket_count_def)

text \<open>Distinct behaviors never share a bucket, and more balance never means a lower bucket.\<close>

lemma bucket_index_behavior:
  "bucket_index b x = Some i \<Longrightarrow> bucket_index c y = Some i \<Longrightarrow> b = c"
  using prio_bucket_index_iff [of x i] prio_bucket_index_iff [of y i] by (cases b; cases c) auto

lemma prio_bucket_index_mono:
  "x \<le> y \<Longrightarrow> prio_bucket_index x = Some i \<Longrightarrow> prio_bucket_index y = Some j \<Longrightarrow> i \<le> j"
  unfolding prio_bucket_index_iff by (meson leI le_less_trans less_le_not_le order_trans)

section \<open>Recently confirmed elections\<close>

record recently_confirmed =
  rcc_by_root :: "qualified_root \<rightharpoonup> block_hash"
  rcc_by_hash :: "block_hash \<rightharpoonup> qualified_root"
  rcc_sequential :: "block_hash list"
  rcc_max_len :: nat

definition new_recently_confirmed :: "nat \<Rightarrow> recently_confirmed" where
  "new_recently_confirmed n =
    \<lparr> rcc_by_root = Map.empty, rcc_by_hash = Map.empty, rcc_sequential = [], rcc_max_len = n \<rparr>"

definition rcc_root_exists :: "recently_confirmed \<Rightarrow> qualified_root \<Rightarrow> bool" where
  "rcc_root_exists c r \<longleftrightarrow> rcc_by_root c r \<noteq> None"

definition rcc_hash_exists :: "recently_confirmed \<Rightarrow> block_hash \<Rightarrow> bool" where
  "rcc_hash_exists c h \<longleftrightarrow> rcc_by_hash c h \<noteq> None"

definition rcc_drop_oldest :: "recently_confirmed \<Rightarrow> recently_confirmed" where
  "rcc_drop_oldest c =
    (case rcc_sequential c of
      [] \<Rightarrow> c
    | old_hash # rest \<Rightarrow>
        (case rcc_by_hash c old_hash of
          Some old_root \<Rightarrow>
            c\<lparr> rcc_sequential := rest, rcc_by_hash := (rcc_by_hash c)(old_hash := None),
               rcc_by_root := (rcc_by_root c)(old_root := None) \<rparr>
        | None \<Rightarrow> c\<lparr> rcc_sequential := rest \<rparr>))"

definition rcc_put :: "recently_confirmed \<Rightarrow> qualified_root \<Rightarrow> block_hash \<Rightarrow> recently_confirmed \<times> bool" where
  "rcc_put c r h =
    (if rcc_hash_exists c h \<or> rcc_root_exists c r then (c, False)
     else
       (let c = c\<lparr> rcc_sequential := rcc_sequential c @ [h], rcc_by_root := (rcc_by_root c)(r \<mapsto> h),
                   rcc_by_hash := (rcc_by_hash c)(h \<mapsto> r) \<rparr>
        in (if rcc_max_len c < length (rcc_sequential c) then rcc_drop_oldest c else c, True)))"

definition rcc_erase :: "recently_confirmed \<Rightarrow> block_hash \<Rightarrow> recently_confirmed" where
  "rcc_erase c h =
    (case rcc_by_hash c h of
      Some r \<Rightarrow>
        c\<lparr> rcc_by_hash := (rcc_by_hash c)(h := None), rcc_by_root := (rcc_by_root c)(r := None),
           rcc_sequential := filter (\<lambda>i. i \<noteq> h) (rcc_sequential c) \<rparr>
    | None \<Rightarrow> c)"

definition rcc_clear :: "recently_confirmed \<Rightarrow> recently_confirmed" where
  "rcc_clear c = c\<lparr> rcc_sequential := [], rcc_by_root := Map.empty, rcc_by_hash := Map.empty \<rparr>"

text \<open>
  What the cache stands for: a bounded queue of pairs of a root and a block in the order in which
  they were confirmed.
\<close>

definition rcc_abs :: "recently_confirmed \<Rightarrow> (qualified_root \<times> block_hash) list" where
  "rcc_abs c = map (\<lambda>h. (the (rcc_by_hash c h), h)) (rcc_sequential c)"

definition rcc_links :: "recently_confirmed \<Rightarrow> bool" where
  "rcc_links c \<longleftrightarrow> distinct (rcc_sequential c) \<and> set (rcc_sequential c) = dom (rcc_by_hash c) \<and>
    (\<forall>r h. rcc_by_root c r = Some h \<longleftrightarrow> rcc_by_hash c h = Some r)"

definition rcc_inv :: "recently_confirmed \<Rightarrow> bool" where
  "rcc_inv c \<longleftrightarrow> rcc_links c \<and> length (rcc_sequential c) \<le> rcc_max_len c"

definition queue_put ::
  "nat \<Rightarrow> (qualified_root \<times> block_hash) list \<Rightarrow> qualified_root \<Rightarrow> block_hash \<Rightarrow> (qualified_root \<times> block_hash) list \<times> bool" where
  "queue_put n q r h =
    (if r \<in> fst ` set q \<or> h \<in> snd ` set q then (q, False)
     else (drop (length q + 1 - n) (q @ [(r, h)]), True))"

lemma rcc_exists_abs:
  assumes "rcc_links c"
  shows "rcc_hash_exists c h \<longleftrightarrow> h \<in> snd ` set (rcc_abs c)" "rcc_root_exists c r \<longleftrightarrow> r \<in> fst ` set (rcc_abs c)"
proof -
  have "snd ` set (rcc_abs c) = dom (rcc_by_hash c)"
    using assms by (simp add: rcc_abs_def rcc_links_def image_image)
  then show "rcc_hash_exists c h \<longleftrightarrow> h \<in> snd ` set (rcc_abs c)" by (auto simp: rcc_hash_exists_def)
  have "fst ` set (rcc_abs c) = (\<lambda>h. the (rcc_by_hash c h)) ` dom (rcc_by_hash c)"
    using assms by (simp add: rcc_abs_def rcc_links_def image_image)
  also have "\<dots> = dom (rcc_by_root c)"
    using assms by (force simp: rcc_links_def)
  finally show "rcc_root_exists c r \<longleftrightarrow> r \<in> fst ` set (rcc_abs c)" by (auto simp: rcc_root_exists_def)
qed

lemma rcc_links_inj:
  assumes "rcc_links c" "rcc_by_hash c g = Some r" "rcc_by_hash c h = Some r"
  shows "h = g"
proof -
  have "rcc_by_root c r = Some g" "rcc_by_root c r = Some h" using assms by (auto simp: rcc_links_def)
  then show ?thesis by simp
qed

lemma rcc_unlink:
  assumes "rcc_links c" "rcc_by_hash c g = Some r"
  shows "((rcc_by_root c)(r := None)) r' = Some h \<longleftrightarrow> ((rcc_by_hash c)(g := None)) h = Some r'"
proof (cases "r' = r")
  case True
  have "h = g" if "rcc_by_hash c h = Some r" by (rule rcc_links_inj [OF assms that])
  then have "((rcc_by_hash c)(g := None)) h \<noteq> Some r" by (cases "h = g") auto
  then show ?thesis using True by simp
next
  case False
  have "rcc_by_root c r' = Some h \<longleftrightarrow> rcc_by_hash c h = Some r'" using assms(1) by (simp add: rcc_links_def)
  then show ?thesis using False assms(2) by (cases "h = g") auto
qed

lemma rcc_push_links:
  assumes "rcc_links c" "\<not> rcc_hash_exists c h" "\<not> rcc_root_exists c r"
  defines "c' \<equiv> c\<lparr> rcc_sequential := rcc_sequential c @ [h], rcc_by_root := (rcc_by_root c)(r \<mapsto> h),
    rcc_by_hash := (rcc_by_hash c)(h \<mapsto> r) \<rparr>"
  shows "rcc_links c'" "rcc_abs c' = rcc_abs c @ [(r, h)]"
proof -
  have "h \<notin> set (rcc_sequential c)" using assms by (auto simp: rcc_links_def rcc_hash_exists_def)
  then show "rcc_abs c' = rcc_abs c @ [(r, h)]" by (auto simp: c'_def rcc_abs_def)
  show "rcc_links c'"
    using assms \<open>h \<notin> set (rcc_sequential c)\<close>
    by (auto simp: rcc_links_def rcc_hash_exists_def rcc_root_exists_def split: if_splits)
qed

lemma rcc_drop_links:
  assumes "rcc_links c"
  shows "rcc_links (rcc_drop_oldest c)" "rcc_abs (rcc_drop_oldest c) = tl (rcc_abs c)"
proof -
  have "rcc_links (rcc_drop_oldest c) \<and> rcc_abs (rcc_drop_oldest c) = tl (rcc_abs c)"
  proof (cases "rcc_sequential c")
    case Nil
    then show ?thesis using assms by (simp add: rcc_drop_oldest_def rcc_abs_def)
  next
    case (Cons g rest)
    then obtain r where r: "rcc_by_hash c g = Some r" using assms by (force simp: rcc_links_def)
    have "g \<notin> set rest" "set rest = dom (rcc_by_hash c) - {g}"
      using assms Cons by (auto simp: rcc_links_def)
    moreover have "rcc_drop_oldest c = c\<lparr> rcc_sequential := rest, rcc_by_hash := (rcc_by_hash c)(g := None),
        rcc_by_root := (rcc_by_root c)(r := None) \<rparr>"
      using Cons r by (simp add: rcc_drop_oldest_def)
    ultimately show ?thesis
      using assms Cons rcc_unlink [OF assms r] by (simp add: rcc_links_def rcc_abs_def cong: map_cong)
  qed
  then show "rcc_links (rcc_drop_oldest c)" "rcc_abs (rcc_drop_oldest c) = tl (rcc_abs c)" by auto
qed

lemma rcc_drop_max_len [simp]: "rcc_max_len (rcc_drop_oldest c) = rcc_max_len c"
  by (simp add: rcc_drop_oldest_def split: list.splits option.splits)

lemma rcc_length_abs [simp]: "length (rcc_sequential c) = length (rcc_abs c)"
  by (simp add: rcc_abs_def)

lemma rcc_put_refines:
  assumes "rcc_inv c"
  shows "rcc_inv (fst (rcc_put c r h))" "rcc_max_len (fst (rcc_put c r h)) = rcc_max_len c"
    "(rcc_abs (fst (rcc_put c r h)), snd (rcc_put c r h)) = queue_put (rcc_max_len c) (rcc_abs c) r h"
proof -
  let ?c = "c\<lparr> rcc_sequential := rcc_sequential c @ [h], rcc_by_root := (rcc_by_root c)(r \<mapsto> h),
    rcc_by_hash := (rcc_by_hash c)(h \<mapsto> r) \<rparr>"
  have L: "rcc_links c" and len: "length (rcc_abs c) \<le> rcc_max_len c" using assms by (simp_all add: rcc_inv_def)
  have "rcc_inv (fst (rcc_put c r h)) \<and> rcc_max_len (fst (rcc_put c r h)) = rcc_max_len c \<and>
    (rcc_abs (fst (rcc_put c r h)), snd (rcc_put c r h)) = queue_put (rcc_max_len c) (rcc_abs c) r h"
  proof (cases "rcc_hash_exists c h \<or> rcc_root_exists c r")
    case True
    then show ?thesis using assms rcc_exists_abs [OF L] by (auto simp: rcc_put_def queue_put_def)
  next
    case False
    then have new: "\<not> rcc_hash_exists c h" "\<not> rcc_root_exists c r" by auto
    have push: "rcc_links ?c" "rcc_abs ?c = rcc_abs c @ [(r, h)]" by (rule rcc_push_links [OF L new])+
    have put: "rcc_put c r h = (if rcc_max_len c < length (rcc_abs c) + 1 then rcc_drop_oldest ?c else ?c, True)"
      using new push(2) by (simp add: rcc_put_def Let_def)
    have spec: "queue_put (rcc_max_len c) (rcc_abs c) r h =
        (drop (length (rcc_abs c) + 1 - rcc_max_len c) (rcc_abs c @ [(r, h)]), True)"
      using new rcc_exists_abs [OF L] by (simp add: queue_put_def)
    show ?thesis
    proof (cases "rcc_max_len c < length (rcc_abs c) + 1")
      case True
      then have "length (rcc_abs c) = rcc_max_len c" using len by simp
      then show ?thesis
        using True put spec push rcc_drop_links [OF push(1)] by (cases "rcc_abs c") (simp_all add: rcc_inv_def)
    next
      case False
      then show ?thesis using put spec push by (simp add: rcc_inv_def)
    qed
  qed
  then show "rcc_inv (fst (rcc_put c r h))" "rcc_max_len (fst (rcc_put c r h)) = rcc_max_len c"
    "(rcc_abs (fst (rcc_put c r h)), snd (rcc_put c r h)) = queue_put (rcc_max_len c) (rcc_abs c) r h"
    by simp_all
qed

lemma rcc_erase_refines:
  assumes "rcc_inv c"
  shows "rcc_inv (rcc_erase c h)" "rcc_abs (rcc_erase c h) = filter (\<lambda>(_, g). g \<noteq> h) (rcc_abs c)"
proof -
  have L: "rcc_links c" using assms by (simp add: rcc_inv_def)
  have "rcc_inv (rcc_erase c h) \<and> rcc_abs (rcc_erase c h) = filter (\<lambda>(_, g). g \<noteq> h) (rcc_abs c)"
  proof (cases "rcc_by_hash c h")
    case None
    then have "h \<notin> set (rcc_sequential c)" using L by (auto simp: rcc_links_def)
    then have "filter (\<lambda>(_, g). g \<noteq> h) (rcc_abs c) = rcc_abs c"
      by (auto simp: rcc_abs_def filter_id_conv)
    then show ?thesis using None assms by (simp add: rcc_erase_def)
  next
    case (Some r)
    have "length (filter (\<lambda>g. g \<noteq> h) (rcc_sequential c)) \<le> rcc_max_len c"
      using assms le_trans [OF length_filter_le] by (auto simp: rcc_inv_def simp del: rcc_length_abs)
    moreover have "rcc_erase c h = c\<lparr> rcc_by_hash := (rcc_by_hash c)(h := None), rcc_by_root := (rcc_by_root c)(r := None),
        rcc_sequential := filter (\<lambda>i. i \<noteq> h) (rcc_sequential c) \<rparr>"
      using Some by (simp add: rcc_erase_def)
    moreover have "{x \<in> dom (rcc_by_hash c). x \<noteq> h} = dom (rcc_by_hash c) - {h}" by auto
    ultimately show ?thesis
      using L rcc_unlink [OF L Some] by (simp add: rcc_inv_def rcc_links_def rcc_abs_def filter_map comp_def del: rcc_length_abs cong: filter_cong map_cong)
  qed
  then show "rcc_inv (rcc_erase c h)" "rcc_abs (rcc_erase c h) = filter (\<lambda>(_, g). g \<noteq> h) (rcc_abs c)" by auto
qed

lemma rcc_clear_refines: "rcc_inv (rcc_clear c)" "rcc_abs (rcc_clear c) = []"
  by (simp_all add: rcc_clear_def rcc_inv_def rcc_links_def rcc_abs_def del: rcc_length_abs)

lemma new_recently_confirmed_inv: "rcc_inv (new_recently_confirmed n)"
  by (simp add: new_recently_confirmed_def rcc_inv_def rcc_links_def del: rcc_length_abs)

section \<open>Cooldown\<close>

datatype aec_cooldown_reason = ConfirmingSetFull | AecEventQueueFull

datatype cooldown_result = CooldownStarted | Recovered | Unchanged

record cooldown_controller =
  cd_source_states :: "aec_cooldown_reason \<Rightarrow> bool"
  cd_cool_down :: bool
  cd_cooldown_count :: u64
  cd_recover_count :: u64

definition default_cooldown :: cooldown_controller where
  "default_cooldown =
    \<lparr> cd_source_states = (\<lambda>_. False), cd_cool_down = False, cd_cooldown_count = 0, cd_recover_count = 0 \<rparr>"

definition cd_set_cooldown ::
  "cooldown_controller \<Rightarrow> bool \<Rightarrow> aec_cooldown_reason \<Rightarrow> cooldown_controller \<times> cooldown_result" where
  "cd_set_cooldown c cool_down reason =
    (let before = cd_cool_down c;
         states = (cd_source_states c)(reason := cool_down);
         c = c\<lparr> cd_source_states := states,
                cd_cool_down := list_ex states [ConfirmingSetFull, AecEventQueueFull] \<rparr>
     in if cd_cool_down c \<and> \<not> before then (c\<lparr> cd_cooldown_count := cd_cooldown_count c + 1 \<rparr>, CooldownStarted)
        else if \<not> cd_cool_down c \<and> before then (c\<lparr> cd_recover_count := cd_recover_count c + 1 \<rparr>, Recovered)
        else (c, Unchanged))"

definition cooldown_inv :: "cooldown_controller \<Rightarrow> bool" where
  "cooldown_inv c \<longleftrightarrow> (cd_cool_down c \<longleftrightarrow> (\<exists>r. cd_source_states c r)) \<and>
    cd_cooldown_count c = cd_recover_count c + (if cd_cool_down c then 1 else 0)"

lemma ex_reason: "(\<exists>r. f r) \<longleftrightarrow> f ConfirmingSetFull \<or> f AecEventQueueFull"
  using aec_cooldown_reason.exhaust by metis

lemma set_cooldown_inv:
  assumes "cooldown_inv c"
  shows "cooldown_inv (fst (cd_set_cooldown c b r))"
proof -
  have "(\<exists>r. f r) \<longleftrightarrow> list_ex f [ConfirmingSetFull, AecEventQueueFull]" for f
    by (simp add: ex_reason)
  then show ?thesis using assms by (simp add: cooldown_inv_def cd_set_cooldown_def Let_def)
qed

end
