(* ===== verification/Active_Elections.thy ===== *)
theory Active_Elections
  imports Election_Containers
begin

text \<open>
  The active elections (\<open>node/src/consensus/active_elections\<close>): the container of elections by root
  with its buckets and its vote router, and the operations of \<open>ActiveElectionsContainer\<close>. The
  events sent to the observer are recorded in the state. Statistics counters are left out, and so is
  the wall clock time \<open>election_end\<close> of a confirmed election. A panic is \<open>None\<close>.
\<close>

section \<open>Elections by root\<close>

record entry =
  en_root :: qualified_root
  en_election :: election
  en_priority :: block_priority

definition en_bucket :: "entry \<Rightarrow> nat option" where
  "en_bucket e = bucket_index (el_behavior (en_election e)) (bp_balance (en_priority e))"

text \<open>The map by root is iterated, the routes from a block to its root are not.\<close>

record root_container =
  rc_by_root :: "(qualified_root \<times> entry) list"
  rc_buckets :: "bucket list"
  rc_vote_router :: "block_hash \<rightharpoonup> qualified_root"

definition default_root_container :: root_container where
  "default_root_container =
    \<lparr> rc_by_root = [], rc_buckets = replicate bucket_count [], rc_vote_router = Map.empty \<rparr>"

definition connect :: "block_hash \<Rightarrow> qualified_root \<Rightarrow> root_container \<Rightarrow> root_container" where
  "connect h r c = c\<lparr> rc_vote_router := (rc_vote_router c)(h \<mapsto> r) \<rparr>"

definition disconnect :: "block_hash \<Rightarrow> root_container \<Rightarrow> root_container" where
  "disconnect h c = c\<lparr> rc_vote_router := (rc_vote_router c)(h := None) \<rparr>"

definition disconnect_election :: "election \<Rightarrow> root_container \<Rightarrow> root_container" where
  "disconnect_election e c = fold disconnect (map fst (el_candidates e)) c"

text \<open>Indexing a vector out of its bounds panics.\<close>

definition modify_bucket :: "nat \<Rightarrow> (bucket \<Rightarrow> bucket) \<Rightarrow> root_container \<Rightarrow> root_container option" where
  "modify_bucket i f c =
    (if i < length (rc_buckets c) then Some (c\<lparr> rc_buckets := (rc_buckets c)[i := f (rc_buckets c ! i)] \<rparr>) else None)"

definition rc_get :: "root_container \<Rightarrow> qualified_root \<Rightarrow> entry option" where
  "rc_get c r = map_of (rc_by_root c) r"

definition rc_set_election :: "qualified_root \<Rightarrow> election \<Rightarrow> root_container \<Rightarrow> root_container" where
  "rc_set_election r e c =
    c\<lparr> rc_by_root := AList.map_entry r (\<lambda>en. en\<lparr> en_election := e \<rparr>) (rc_by_root c) \<rparr>"

definition rc_insert :: "crypto \<Rightarrow> entry \<Rightarrow> root_container \<Rightarrow> root_container option" where
  "rc_insert cr en c = do {
    i \<leftarrow> en_bucket en;
    c \<leftarrow> modify_bucket i (btree_insert (BucketEntry (en_root en) (en_priority en))) c;
    Some (connect (winner_hash cr (en_election en)) (en_root en)
      (c\<lparr> rc_by_root := AList.update (en_root en) en (rc_by_root c) \<rparr>)) }"

definition election_for_root :: "root_container \<Rightarrow> qualified_root \<Rightarrow> election option" where
  "election_for_root c r = map_option en_election (rc_get c r)"

definition election_for_block :: "root_container \<Rightarrow> block_hash \<Rightarrow> election option" where
  "election_for_block c h = do { r \<leftarrow> rc_vote_router c h; election_for_root c r }"

record aec_insert_request =
  rq_block :: saved_block
  rq_behavior :: election_behavior
  rq_priority :: block_priority

definition try_upgrade_to_priority_election ::
  "aec_insert_request \<Rightarrow> root_container \<Rightarrow> (root_container \<times> bool \<times> election_behavior option) option" where
  "try_upgrade_to_priority_election rq c =
    (let root = block_qualified_root (sv_block (rq_block rq)) in
     case rc_get c root of
       None \<Rightarrow> Some (c, False, None)
     | Some en \<Rightarrow>
         let previous_behavior = el_behavior (en_election en) in
         if rq_behavior rq \<noteq> Priority then Some (c, False, Some previous_behavior)
         else let (e, upgraded) = maybe_upgrade_to (en_election en) Priority in
           if \<not> upgraded then Some (rc_set_election root e c, False, Some previous_behavior)
           else do {
             let c = rc_set_election root e c;
             i \<leftarrow> bucket_index previous_behavior (bp_balance (en_priority en));
             c \<leftarrow> modify_bucket i (btree_remove (BucketEntry root (en_priority en))) c;
             j \<leftarrow> bucket_index Priority (bp_balance (en_priority en));
             c \<leftarrow> modify_bucket j (btree_insert (BucketEntry root (en_priority en))) c;
             Some (c, True, Some previous_behavior) })"

definition rc_erase :: "qualified_root \<Rightarrow> root_container \<Rightarrow> (root_container \<times> entry option) option" where
  "rc_erase r c =
    (case rc_get c r of
      None \<Rightarrow> Some (c, None)
    | Some en \<Rightarrow> do {
        let c = disconnect_election (en_election en) (c\<lparr> rc_by_root := AList.delete r (rc_by_root c) \<rparr>);
        i \<leftarrow> en_bucket en;
        c \<leftarrow> modify_bucket i (btree_remove (BucketEntry (en_root en) (en_priority en))) c;
        Some (c, Some en) })"

fun erase_all :: "qualified_root list \<Rightarrow> root_container \<Rightarrow> (root_container \<times> entry list) option" where
  "erase_all [] c = Some (c, [])"
| "erase_all (r # rs) c = do {
    (c, erased) \<leftarrow> rc_erase r c;
    (c, removed) \<leftarrow> erase_all rs c;
    Some (c, case erased of Some en \<Rightarrow> en # removed | None \<Rightarrow> removed) }"

definition drain_filter :: "(entry \<Rightarrow> bool) \<Rightarrow> root_container \<Rightarrow> (root_container \<times> entry list) option" where
  "drain_filter P c = erase_all (map en_root (filter P (map snd (rc_by_root c)))) c"

definition rc_clear :: "root_container \<Rightarrow> root_container" where
  "rc_clear c = c\<lparr> rc_by_root := [], rc_buckets := map (\<lambda>_. []) (rc_buckets c) \<rparr>"

text \<open>
  \<open>None\<close> ends an iteration: the round robin iterator returns what the lookup returns, so an entry
  without election would end it early. The lookup of \<open>iter_bucket\<close> panics instead.
\<close>

definition rc_iter :: "root_container \<Rightarrow> entry list" where
  "rc_iter c =
    map the (takeWhile (\<lambda>x. x \<noteq> None) (map (\<lambda>b. rc_get c (be_root b)) (rr_collect (new_round_robin (rc_buckets c)))))"

definition iter_bucket :: "nat \<Rightarrow> root_container \<Rightarrow> entry list option" where
  "iter_bucket i c =
    (if i < length (rc_buckets c) then those (map (\<lambda>b. rc_get c (be_root b)) (rc_buckets c ! i)) else None)"

definition lowest_priority :: "nat \<Rightarrow> root_container \<Rightarrow> (qualified_root \<times> timestamp) option option" where
  "lowest_priority i c =
    (if i < length (rc_buckets c)
     then Some (case rev (rc_buckets c ! i) of
       [] \<Rightarrow> None | b # _ \<Rightarrow> Some (be_root b, bp_time (be_priority b)))
     else None)"

section \<open>Quorum and votes\<close>

record quorum_specs =
  qs_online_weight :: amount
  qs_quorum_delta :: amount

definition cooldown_time :: "quorum_specs \<Rightarrow> amount \<Rightarrow> duration" where
  "cooldown_time q rep_weight =
    (if qs_online_weight q div 20 < rep_weight then from_secs 1
     else if qs_online_weight q div 100 < rep_weight then from_secs 5
     else from_secs 15)"

datatype confirmation_type = ActiveConfirmedQuorum | ActiveConfirmationHeight | InactiveConfirmationHeight

record confirmed_election =
  ce_winner :: maybe_saved_block
  ce_tally :: amount
  ce_final_tally :: amount
  ce_block_count :: u32
  ce_voter_count :: u32
  ce_election_duration :: duration
  ce_confirmation_type :: confirmation_type
  ce_votes :: "(public_key \<times> vote_summary) list"

definition new_confirmed_election :: "saved_block \<Rightarrow> confirmation_type \<Rightarrow> confirmed_election" where
  "new_confirmed_election b t =
    \<lparr> ce_winner = Saved b, ce_tally = 0, ce_final_tally = 0, ce_block_count = 1, ce_voter_count = 0,
      ce_election_duration = 0, ce_confirmation_type = t, ce_votes = [] \<rparr>"

definition into_confirmed_election :: "election \<Rightarrow> instant \<Rightarrow> confirmation_type \<Rightarrow> confirmed_election" where
  "into_confirmed_election e now t =
    \<lparr> ce_winner = el_winner e, ce_tally = el_winner_tally e, ce_final_tally = el_winner_final_tally e,
      ce_block_count = of_nat (length (el_candidates e)), ce_voter_count = of_nat (length (el_votes e)),
      ce_election_duration = elapsed (el_start e) now, ce_confirmation_type = t, ce_votes = el_votes e \<rparr>"

datatype aec_event =
    ElectionStarted block_hash qualified_root
  | ElectionConfirmed confirmed_election
  | ElectionEndedEvent election
  | BlockAddedToElection block_hash
  | BlockDiscarded block
  | BlockConfirmedEvent saved_block confirmed_election
  | WinnerChanged block_hash block
  | RecoveredEvent

datatype aec_insert_error = Stopped | DuplicateElection | RecentlyConfirmed

record aec =
  ac_roots :: root_container
  ac_observer :: "aec_event list option"
  ac_stopped :: bool
  ac_count_by_behavior :: "election_behavior \<Rightarrow> nat"
  ac_base_latency :: duration
  ac_recently_confirmed :: recently_confirmed
  ac_cooldown :: cooldown_controller
  ac_max_elections :: nat

text \<open>The receiver of the events is alive, so sending does not fail.\<close>

definition notify :: "aec_event \<Rightarrow> aec_event list option \<Rightarrow> aec_event list option" where
  "notify ev obs = map_option (\<lambda>evs. evs @ [ev]) obs"

definition ac_notify :: "aec_event \<Rightarrow> aec \<Rightarrow> aec" where
  "ac_notify ev a = a\<lparr> ac_observer := notify ev (ac_observer a) \<rparr>"

section \<open>Applying a vote\<close>

record apply_vote_args =
  av_vote :: filtered_vote
  av_rep_weights :: rep_weights
  av_quorum_specs :: quorum_specs
  av_now :: instant

abbreviation av_the_vote :: "apply_vote_args \<Rightarrow> vote" where
  "av_the_vote args \<equiv> rv_vote (fv_vote (av_vote args))"

definition should_cool_down :: "apply_vote_args \<Rightarrow> vote_summary \<Rightarrow> amount \<Rightarrow> bool" where
  "should_cool_down args last_vote rep_weight =
    (if rv_source (fv_vote (av_vote args)) = Cache then False
     else if has_switched_to_final_vote last_vote (av_the_vote args) then False
     else elapsed (vs_received last_vote) (av_now args) < cooldown_time (av_quorum_specs args) rep_weight)"

text \<open>What a vote works on: the recently confirmed cache, the observer and the election.\<close>

type_synonym vote_target = "recently_confirmed \<times> aec_event list option \<times> election"

definition notify_winner_changed :: "crypto \<Rightarrow> block_hash \<Rightarrow> vote_target \<Rightarrow> vote_target" where
  "notify_winner_changed cr old_winner = (\<lambda>(cache, obs, e).
    (cache, if winner_hash cr e \<noteq> old_winner then notify (WinnerChanged old_winner (mb_block (el_winner e))) obs else obs, e))"

definition election_got_confirmed :: "crypto \<Rightarrow> apply_vote_args \<Rightarrow> vote_target \<Rightarrow> vote_target" where
  "election_got_confirmed cr args = (\<lambda>(cache, obs, e).
    (fst (rcc_put cache (el_qualified_root e) (winner_hash cr e)),
     notify (ElectionConfirmed (into_confirmed_election e (av_now args) ActiveConfirmedQuorum)) obs, e))"

definition confirm_if_quorum :: "crypto \<Rightarrow> apply_vote_args \<Rightarrow> vote_target \<Rightarrow> vote_target option" where
  "confirm_if_quorum cr args = (\<lambda>(cache, obs, e). do {
    let old_winner = winner_hash cr e;
    e \<leftarrow> update_tallies cr e (av_rep_weights args) (qs_quorum_delta (av_quorum_specs args));
    let (cache, obs, e) = notify_winner_changed cr old_winner (cache, obs, e);
    Some (if el_is_final e \<and> el_is_confirmed e then election_got_confirmed cr args (cache, obs, e)
          else (cache, obs, e)) })"

definition add_vote_to_election ::
  "crypto \<Rightarrow> apply_vote_args \<Rightarrow> block_hash \<Rightarrow> vote_target \<Rightarrow> vote_target option" where
  "add_vote_to_election cr args h = (\<lambda>(cache, obs, e).
    confirm_if_quorum cr args
      (cache, obs, el_add_vote e (vo_voter (av_the_vote args)) h (vo_time (av_the_vote args)) (av_now args)))"

definition vote_refusal :: "apply_vote_args \<Rightarrow> block_hash \<Rightarrow> election \<Rightarrow> vote_error + unit" where
  "vote_refusal args h e =
    (let rep_weight = unwrap_or_zero (av_rep_weights args (vo_voter (av_the_vote args))) in
     case map_of (el_votes e) (vo_voter (av_the_vote args)) of
       None \<Rightarrow> Inr ()
     | Some last_vote \<Rightarrow>
         (case ensure_no_replay last_vote (av_the_vote args) h of
           Inl err \<Rightarrow> Inl err
         | Inr _ \<Rightarrow> if should_cool_down args last_vote rep_weight then Inl Ignored else Inr ()))"

definition apply_vote_to_election ::
  "crypto \<Rightarrow> apply_vote_args \<Rightarrow> block_hash \<Rightarrow> vote_target \<Rightarrow> (vote_target \<times> (vote_error + unit)) option" where
  "apply_vote_to_election cr args h = (\<lambda>(cache, obs, e).
    if el_is_confirmed e then Some ((cache, obs, e), Inl Late)
    else
      (case vote_refusal args h e of
        Inl err \<Rightarrow> Some ((cache, obs, e), Inl err)
      | Inr _ \<Rightarrow> map_option (\<lambda>t. (t, Inr ())) (add_vote_to_election cr args h (cache, obs, e))))"

type_synonym vote_results = "block_hash \<rightharpoonup> vote_error + unit"

text \<open>The loop over the blocks of the vote.\<close>

fun apply_vote_blocks ::
  "crypto \<Rightarrow> apply_vote_args \<Rightarrow> block_hash list \<Rightarrow> recently_confirmed \<times> aec_event list option \<times> root_container \<Rightarrow>
    vote_results \<times> entry list \<Rightarrow>
    ((recently_confirmed \<times> aec_event list option \<times> root_container) \<times> vote_results \<times> entry list) option" where
  "apply_vote_blocks cr args [] s result = Some (s, result)"
| "apply_vote_blocks cr args (h # hs) (cache, obs, roots) (per_block, confirmed) =
    (if per_block h \<noteq> None then apply_vote_blocks cr args hs (cache, obs, roots) (per_block, confirmed)
     else case election_for_block roots h of
       Some e \<Rightarrow> do {
         ((cache, obs, e), vote_result) \<leftarrow> apply_vote_to_election cr args h (cache, obs, e);
         let roots = rc_set_election (the (rc_vote_router roots h)) e roots;
         let per_block = per_block(h \<mapsto> vote_result);
         (if el_is_confirmed e then do {
            (roots, erased) \<leftarrow> rc_erase (el_qualified_root e) roots;
            apply_vote_blocks cr args hs (cache, obs, roots)
              (per_block, case erased of Some en \<Rightarrow> confirmed @ [en] | None \<Rightarrow> confirmed) }
          else apply_vote_blocks cr args hs (cache, obs, roots) (per_block, confirmed)) }
     | None \<Rightarrow>
         apply_vote_blocks cr args hs (cache, obs, roots)
           (per_block(h \<mapsto> Inl (if rcc_hash_exists cache h then Late else Indeterminate)), confirmed))"

section \<open>Operations of the active elections\<close>

definition new_aec :: "nat \<Rightarrow> nat \<Rightarrow> duration \<Rightarrow> aec" where
  "new_aec max_elections confirmation_cache base_latency =
    \<lparr> ac_roots = default_root_container, ac_observer = None, ac_stopped = False,
      ac_count_by_behavior = (\<lambda>_. 0), ac_base_latency = base_latency,
      ac_recently_confirmed = new_recently_confirmed confirmation_cache, ac_cooldown = default_cooldown,
      ac_max_elections = max_elections \<rparr>"

definition set_observer :: "aec_event list \<Rightarrow> aec \<Rightarrow> aec" where
  "set_observer evs a = a\<lparr> ac_observer := Some evs \<rparr>"

text \<open>The counters are unsigned, so a decrement of zero is a panic.\<close>

definition count_inc :: "election_behavior \<Rightarrow> aec \<Rightarrow> aec" where
  "count_inc b a = a\<lparr> ac_count_by_behavior := (ac_count_by_behavior a)(b := ac_count_by_behavior a b + 1) \<rparr>"

definition count_dec :: "election_behavior \<Rightarrow> aec \<Rightarrow> aec option" where
  "count_dec b a =
    (if ac_count_by_behavior a b = 0 then None
     else Some (a\<lparr> ac_count_by_behavior := (ac_count_by_behavior a)(b := ac_count_by_behavior a b - 1) \<rparr>))"

definition ensure_not_stopped :: "aec \<Rightarrow> aec_insert_error + unit" where
  "ensure_not_stopped a = (if ac_stopped a then Inl Stopped else Inr ())"

definition ensure_not_recently_confirmed :: "aec_insert_request \<Rightarrow> aec \<Rightarrow> aec_insert_error + unit" where
  "ensure_not_recently_confirmed rq a =
    (if rcc_root_exists (ac_recently_confirmed a) (block_qualified_root (sv_block (rq_block rq)))
     then Inl RecentlyConfirmed else Inr ())"

definition try_upgrade_priority_election ::
  "aec_insert_request \<Rightarrow> aec \<Rightarrow> (aec \<times> (aec_insert_error + bool)) option" where
  "try_upgrade_priority_election rq a = do {
    (roots, upgraded, previous_behavior) \<leftarrow> try_upgrade_to_priority_election rq (ac_roots a);
    let a = a\<lparr> ac_roots := roots \<rparr>;
    (if upgraded then do {
       b \<leftarrow> previous_behavior;
       a \<leftarrow> count_dec b a;
       Some (count_inc (rq_behavior rq) a, Inr True) }
     else Some (a, if previous_behavior \<noteq> None then Inl DuplicateElection else Inr False)) }"

definition insert_new_election :: "crypto \<Rightarrow> aec_insert_request \<Rightarrow> instant \<Rightarrow> aec \<Rightarrow> aec option" where
  "insert_new_election cr rq now a = do {
    let root = block_qualified_root (sv_block (rq_block rq));
    let h = sv_hash cr (rq_block rq);
    let e = new_election cr (rq_block rq) (rq_behavior rq) (ac_base_latency a) now;
    roots \<leftarrow> rc_insert cr \<lparr> en_root = root, en_election = e, en_priority = rq_priority rq \<rparr> (ac_roots a);
    Some (ac_notify (ElectionStarted h root) (count_inc (rq_behavior rq) (a\<lparr> ac_roots := roots \<rparr>))) }"

definition ac_insert :: "crypto \<Rightarrow> aec_insert_request \<Rightarrow> instant \<Rightarrow> aec \<Rightarrow> (aec \<times> (aec_insert_error + unit)) option" where
  "ac_insert cr rq now a =
    (case ensure_not_stopped a of
      Inl err \<Rightarrow> Some (a, Inl err)
    | Inr _ \<Rightarrow>
        (case ensure_not_recently_confirmed rq a of
          Inl err \<Rightarrow> Some (a, Inl err)
        | Inr _ \<Rightarrow> do {
            (a, upgrade) \<leftarrow> try_upgrade_priority_election rq a;
            (case upgrade of
              Inl err \<Rightarrow> Some (a, Inl err)
            | Inr True \<Rightarrow> Some (a, Inr ())
            | Inr False \<Rightarrow> do { a \<leftarrow> insert_new_election cr rq now a; Some (a, Inr ()) }) }))"

definition set_last_voted :: "crypto \<Rightarrow> qualified_root \<Rightarrow> vote_type \<Rightarrow> instant \<Rightarrow> aec \<Rightarrow> aec" where
  "set_last_voted cr root vt t a =
    (case rc_get (ac_roots a) root of
      None \<Rightarrow> a
    | Some en \<Rightarrow> a\<lparr> ac_roots := rc_set_election root (voted cr (en_election en) vt t) (ac_roots a) \<rparr>)"

definition ac_try_add_fork :: "crypto \<Rightarrow> block \<Rightarrow> amount \<Rightarrow> aec \<Rightarrow> (aec \<times> bool) option" where
  "ac_try_add_fork cr fork fork_tally a =
    (case rc_get (ac_roots a) (block_qualified_root fork) of
      None \<Rightarrow> Some (a, False)
    | Some en \<Rightarrow> do {
        (e, result) \<leftarrow> el_try_add_fork cr (en_election en) fork fork_tally;
        let a = a\<lparr> ac_roots := rc_set_election (block_qualified_root fork) e (ac_roots a) \<rparr>;
        let (a, added) =
          (case result of
            Added \<Rightarrow> (ac_notify (BlockAddedToElection (block_hash_of cr fork)) a, True)
          | Replaced removed \<Rightarrow>
              (ac_notify (BlockAddedToElection (block_hash_of cr fork))
                (ac_notify (BlockDiscarded (mb_block removed))
                  (a\<lparr> ac_roots := disconnect (mb_hash cr removed) (ac_roots a) \<rparr>)), True)
          | TallyTooLow \<Rightarrow> (ac_notify (BlockDiscarded fork) a, False)
          | Duplicate \<Rightarrow> (a, False)
          | ElectionEnded \<Rightarrow> (a, False));
        Some (if added
              then a\<lparr> ac_roots := connect (block_hash_of cr fork) (block_qualified_root fork) (ac_roots a) \<rparr>
              else a, added) })"

definition vacancy :: "aec \<Rightarrow> int" where
  "vacancy a =
    (if cd_cool_down (ac_cooldown a) then 0
     else int (ac_max_elections a) - int (length (rc_by_root (ac_roots a))))"

definition ac_set_cooldown :: "bool \<Rightarrow> aec_cooldown_reason \<Rightarrow> aec \<Rightarrow> aec" where
  "ac_set_cooldown cool_down reason a =
    (let (c, result) = cd_set_cooldown (ac_cooldown a) cool_down reason;
         a = a\<lparr> ac_cooldown := c \<rparr>
     in if result = Recovered then ac_notify RecoveredEvent a else a)"

definition ac_stop :: "aec \<Rightarrow> aec" where
  "ac_stop a = a\<lparr> ac_observer := None, ac_stopped := True, ac_roots := rc_clear (ac_roots a) \<rparr>"

definition cleanup_election :: "entry \<Rightarrow> aec \<Rightarrow> aec option" where
  "cleanup_election en a = do {
    a \<leftarrow> count_dec (el_behavior (en_election en)) a;
    Some (ac_notify (ElectionEndedEvent (en_election en)) a) }"

fun cleanup_elections :: "entry list \<Rightarrow> aec \<Rightarrow> aec option" where
  "cleanup_elections [] a = Some a"
| "cleanup_elections (en # ens) a = do { a \<leftarrow> cleanup_election en a; cleanup_elections ens a }"

definition erase_ended_elections :: "aec \<Rightarrow> aec option" where
  "erase_ended_elections a = do {
    (roots, removed) \<leftarrow> drain_filter (\<lambda>en. has_ended (el_state (en_election en))) (ac_roots a);
    cleanup_elections removed (a\<lparr> ac_roots := roots \<rparr>) }"

definition ac_transition_time :: "instant \<Rightarrow> aec \<Rightarrow> aec option" where
  "ac_transition_time now a =
    erase_ended_elections (a\<lparr> ac_roots := (ac_roots a)\<lparr> rc_by_root :=
      map (\<lambda>(r, en). (r, en\<lparr> en_election := el_transition_time (en_election en) now \<rparr>)) (rc_by_root (ac_roots a)) \<rparr> \<rparr>)"

definition ac_transition_active :: "block_hash \<Rightarrow> aec \<Rightarrow> aec \<times> bool" where
  "ac_transition_active h a =
    (case election_for_block (ac_roots a) h of
      None \<Rightarrow> (a, False)
    | Some e \<Rightarrow>
        (a\<lparr> ac_roots := rc_set_election (the (rc_vote_router (ac_roots a) h)) (el_transition_active e) (ac_roots a) \<rparr>, True))"

definition remove_votes :: "qualified_root \<Rightarrow> public_key list \<Rightarrow> aec \<Rightarrow> aec" where
  "remove_votes root voters a =
    (case election_for_root (ac_roots a) root of
      None \<Rightarrow> a
    | Some e \<Rightarrow> a\<lparr> ac_roots := rc_set_election root (fold (\<lambda>v e. remove_vote e v) voters e) (ac_roots a) \<rparr>)"

definition ac_erase :: "qualified_root \<Rightarrow> aec \<Rightarrow> (aec \<times> bool) option" where
  "ac_erase root a = do {
    (roots, erased) \<leftarrow> rc_erase root (ac_roots a);
    let a = a\<lparr> ac_roots := roots \<rparr>;
    (case erased of
      None \<Rightarrow> Some (a, False)
    | Some en \<Rightarrow> do { a \<leftarrow> cleanup_election en a; Some (a, True) }) }"

definition erase_lowest_prio_election :: "nat \<Rightarrow> aec \<Rightarrow> aec option" where
  "erase_lowest_prio_election bucket_id a = do {
    lowest \<leftarrow> lowest_priority bucket_id (ac_roots a);
    (case lowest of
      None \<Rightarrow> Some a
    | Some (root, _) \<Rightarrow> map_option fst (ac_erase root a)) }"

definition confirm_corresponding :: "crypto \<Rightarrow> saved_block \<Rightarrow> instant \<Rightarrow> aec \<Rightarrow> aec \<times> confirmed_election" where
  "confirm_corresponding cr b now a =
    (let root = block_qualified_root (sv_block b) in
     case rc_get (ac_roots a) root of
       None \<Rightarrow> (a, new_confirmed_election b InactiveConfirmationHeight)
     | Some en \<Rightarrow>
         if winner_hash cr (en_election en) = sv_hash cr b
         then (let e = fst (el_force_confirm (en_election en))
               in (a\<lparr> ac_roots := rc_set_election root e (ac_roots a) \<rparr>,
                   into_confirmed_election e now ActiveConfirmationHeight))
         else (a\<lparr> ac_roots := rc_set_election root (el_cancel (en_election en)) (ac_roots a) \<rparr>,
               new_confirmed_election b ActiveConfirmationHeight))"

definition confirm_dependent_election ::
  "crypto \<Rightarrow> saved_block \<Rightarrow> confirmed_election option \<Rightarrow> instant \<Rightarrow> aec \<Rightarrow> aec \<times> confirmed_election" where
  "confirm_dependent_election cr b source_election now a =
    (case source_election of
      Some source \<Rightarrow> if sv_hash cr b = mb_hash cr (ce_winner source) then (a, source) else confirm_corresponding cr b now a
    | None \<Rightarrow> confirm_corresponding cr b now a)"

definition block_confirmed :: "saved_block \<Rightarrow> confirmed_election \<Rightarrow> aec \<Rightarrow> aec" where
  "block_confirmed b ce a = ac_notify (BlockConfirmedEvent b ce) a"

fun confirm_dependent_elections ::
  "crypto \<Rightarrow> (saved_block \<times> confirmed_election option) list \<Rightarrow> instant \<Rightarrow> aec \<Rightarrow> aec" where
  "confirm_dependent_elections cr [] now a = a"
| "confirm_dependent_elections cr ((b, source) # confirmed) now a =
    (let (a, ce) = confirm_dependent_election cr b source now a
     in confirm_dependent_elections cr confirmed now (block_confirmed b ce a))"

definition remove_recently_confirmed :: "block_hash \<Rightarrow> aec \<Rightarrow> aec" where
  "remove_recently_confirmed h a = a\<lparr> ac_recently_confirmed := rcc_erase (ac_recently_confirmed a) h \<rparr>"

definition clear_recently_confirmed :: "aec \<Rightarrow> aec" where
  "clear_recently_confirmed a = a\<lparr> ac_recently_confirmed := rcc_clear (ac_recently_confirmed a) \<rparr>"

definition ac_apply_vote :: "crypto \<Rightarrow> apply_vote_args \<Rightarrow> aec \<Rightarrow> (aec \<times> vote_results) option" where
  "ac_apply_vote cr args a = do {
    ((cache, obs, roots), per_block, confirmed) \<leftarrow>
      apply_vote_blocks cr args (filtered_blocks (av_vote args))
        (ac_recently_confirmed a, ac_observer a, ac_roots a) (Map.empty, []);
    a \<leftarrow> cleanup_elections confirmed
      (a\<lparr> ac_recently_confirmed := cache, ac_observer := obs, ac_roots := roots \<rparr>);
    Some (a, per_block) }"

definition ac_force_confirm :: "block_hash \<Rightarrow> instant \<Rightarrow> aec \<Rightarrow> aec option" where
  "ac_force_confirm h now a =
    (case election_for_block (ac_roots a) h of
      None \<Rightarrow> None
    | Some e \<Rightarrow>
        (let (e', changed) = el_force_confirm e;
             a = a\<lparr> ac_roots := rc_set_election (the (rc_vote_router (ac_roots a) h)) e' (ac_roots a) \<rparr>
         in Some (if changed
                  then ac_notify (ElectionConfirmed (into_confirmed_election e' now ActiveConfirmedQuorum)) a
                  else a)))"

definition ac_cancel :: "qualified_root \<Rightarrow> aec \<Rightarrow> aec" where
  "ac_cancel root a =
    (case rc_get (ac_roots a) root of
      None \<Rightarrow> a
    | Some en \<Rightarrow> a\<lparr> ac_roots := rc_set_election root (el_cancel (en_election en)) (ac_roots a) \<rparr>)"

end
