(* ===== verification/Election_Correct.thy ===== *)
theory Election_Correct
  imports Elections
begin

text \<open>
  Correctness of one election. The tallies are the sums of the weights of the voters; an invariant
  keeps votes and tallies within the candidate blocks, so that no operation panics; an election is
  confirmed by its votes exactly when the final votes for the winner reach the quorum.
\<close>

section \<open>Counting votes\<close>

definition weight_for :: "vote_summary list \<Rightarrow> block_hash \<Rightarrow> amount" where
  "weight_for votes h = sum_list (map vs_weight (filter (\<lambda>v. vs_hash v = h) votes))"

lemma weight_for_simps [simp]:
  "weight_for [] h = 0"
  "weight_for (v # votes) h = (if vs_hash v = h then vs_weight v else 0) + weight_for votes h"
  by (simp_all add: weight_for_def)

lemma bt_get_simps [simp]:
  "bt_get [] h = 0"
  "bt_get ((g, x) # t) h = (if g = h then x else bt_get t h)"
  by (simp_all add: bt_get_def)

lemma bt_get_absent: "h \<notin> set (map fst t) \<Longrightarrow> bt_get t h = 0"
  by (induction t) auto

lemma bt_get_snoc: "bt_get (t @ [(g, x)]) h = (if h \<in> set (map fst t) then bt_get t h else if g = h then x else 0)"
proof (induction t)
  case (Cons y t)
  then show ?case by (cases y) (cases "g = h"; cases "h \<in> set (map fst t)"; simp)
qed simp

lemma add_tally_keys [simp]: "map fst (add_tally t h w) = map fst t"
  by (induction t h w rule: add_tally.induct) simp_all

lemma add_tally_key_set [simp]: "fst ` set (add_tally t h w) = fst ` set t"
  by (metis add_tally_keys list.set_map)

lemma add_tally_get:
  "g \<in> set (map fst t) \<Longrightarrow> bt_get (add_tally t g w) h = bt_get t h + (if h = g then w else 0)"
proof (induction t g w rule: add_tally.induct)
  case (2 f x t g w)
  then show ?case by (cases "f = g"; cases "h = g") simp_all
qed simp

lemma count_votes_spec:
  "count_votes t votes = Some t' \<Longrightarrow> distinct (map fst t) \<Longrightarrow>
    distinct (map fst t') \<and> set (map fst t') = set (map fst t) \<union> vs_hash ` set votes \<and>
    (\<forall>h. bt_get t' h = bt_get t h + weight_for votes h)"
proof (induction votes arbitrary: t)
  case Nil
  then show ?case by simp
next
  case (Cons v votes)
  show ?case
  proof (cases "bt_contains t (vs_hash v)")
    case True
    then have in_t: "vs_hash v \<in> set (map fst t)" by (simp add: bt_contains_def)
    have "distinct (map fst t') \<and> set (map fst t') = set (map fst t) \<union> vs_hash ` set votes \<and>
        (\<forall>h. bt_get t' h = bt_get (add_tally t (vs_hash v) (vs_weight v)) h + weight_for votes h)"
      using Cons.IH [of "add_tally t (vs_hash v) (vs_weight v)"] Cons.prems True by simp
    then show ?thesis using in_t by (auto simp: add_tally_get)
  next
    case False
    then have fresh: "vs_hash v \<notin> set (map fst t)" by (simp add: bt_contains_def)
    have "count_votes (t @ [(vs_hash v, vs_weight v)]) votes = Some t'"
      using Cons.prems False by (simp add: insert_unsorted_def split: if_splits)
    from Cons.IH [OF this] Cons.prems(2) fresh show ?thesis
      by (auto simp: bt_get_snoc bt_get_absent)
  qed
qed

lemma count_votes_returns:
  "card (set (map fst t) \<union> vs_hash ` set votes) \<le> max_blocks \<Longrightarrow> distinct (map fst t) \<Longrightarrow>
    \<exists>t'. count_votes t votes = Some t'"
proof (induction votes arbitrary: t)
  case Nil
  then show ?case by simp
next
  case (Cons v votes)
  show ?case
  proof (cases "bt_contains t (vs_hash v)")
    case True
    then have "insert (vs_hash v) (set (map fst t) \<union> vs_hash ` set votes) = set (map fst t) \<union> vs_hash ` set votes"
      by (auto simp: bt_contains_def)
    with Cons True show ?thesis by simp
  next
    case False
    then have fresh: "vs_hash v \<notin> set (map fst t)" by (simp add: bt_contains_def)
    have "Suc (length t) = card (insert (vs_hash v) (set (map fst t)))"
      using fresh Cons.prems(2) by (simp add: distinct_card [of "map fst t", simplified, symmetric])
    also have "\<dots> \<le> max_blocks"
      by (rule order_trans [OF card_mono Cons.prems(1)]) auto
    finally have "length t \<noteq> max_blocks" by simp
    moreover have "\<exists>t'. count_votes (t @ [(vs_hash v, vs_weight v)]) votes = Some t'"
      using Cons.IH [of "t @ [(vs_hash v, vs_weight v)]"] Cons.prems fresh by (simp add: Un_commute)
    ultimately show ?thesis using False by (simp add: insert_unsorted_def)
  qed
qed

lemma sort_tally_set [simp]: "set (sort_by_descending_tally t) = set t"
  "length (sort_by_descending_tally t) = length t"
  by (simp_all add: sort_by_descending_tally_def)

lemma sort_tally_keys: "distinct (map fst t) \<Longrightarrow> distinct (map fst (sort_by_descending_tally t))"
  by (simp add: distinct_map sort_by_descending_tally_def)

lemma sort_tally_get:
  assumes "distinct (map fst t)"
  shows "bt_get (sort_by_descending_tally t) h = bt_get t h"
proof -
  have "map_of (sort_by_descending_tally t) = map_of t"
    using map_of_inject_set [OF sort_tally_keys [OF assms] assms] by simp
  then show ?thesis by (simp add: bt_get_def)
qed

definition descending :: "block_tallies \<Rightarrow> bool" where
  "descending t = sorted_wrt (\<lambda>x y. snd y \<le> snd x) t"

lemma sort_tally_descending: "descending (sort_by_descending_tally t)"
proof -
  let ?k = "\<lambda>x :: block_hash \<times> amount. 2 ^ 128 - unat (snd x)"
  have "sorted (map ?k (sort_key ?k t))" by (rule sorted_sort_key)
  then have "sorted_wrt (\<lambda>x y. ?k x \<le> ?k y) (sort_key ?k t)" by (simp add: sorted_map)
  moreover have "snd y \<le> snd x" if "?k x \<le> ?k y" for x y
    using that unat_amount_le [of "snd x"] unat_amount_le [of "snd y"] by (simp add: word_le_nat_alt)
  ultimately have "sorted_wrt (\<lambda>x y. snd y \<le> snd x) (sort_key ?k t)"
    by (rule sorted_wrt_mono_rel [rotated])
  then show ?thesis by (simp add: descending_def sort_by_descending_tally_def case_prod_unfold)
qed

lemma bt_calculate_spec:
  assumes "bt_calculate votes = Some t"
  shows "distinct (map fst t)" "set (map fst t) = vs_hash ` set votes" "bt_get t h = weight_for votes h" "descending t"
proof -
  obtain u where u: "count_votes [] votes = Some u" and t: "t = sort_by_descending_tally u"
    using assms by (auto simp: bt_calculate_def)
  note spec = count_votes_spec [OF u]
  show "distinct (map fst t)" using spec sort_tally_keys [of u] by (simp add: t)
  show "set (map fst t) = vs_hash ` set votes" using spec by (simp add: t)
  show "bt_get t h = weight_for votes h" using spec sort_tally_get [of u h] by (simp add: t)
  show "descending t" by (simp add: t sort_tally_descending)
qed

lemma bt_calculate_returns: "card (vs_hash ` set votes) \<le> max_blocks \<Longrightarrow> \<exists>t. bt_calculate votes = Some t"
  using count_votes_returns [of "[]" votes] by (auto simp: bt_calculate_def)

section \<open>The invariant of an election\<close>

abbreviation candidate_hashes :: "election \<Rightarrow> block_hash set" where
  "candidate_hashes e \<equiv> set (map fst (el_candidates e))"

definition tallies_ok :: "block_hash set \<Rightarrow> block_tallies \<Rightarrow> bool" where
  "tallies_ok H t \<longleftrightarrow> distinct (map fst t) \<and> set (map fst t) \<subseteq> H"

definition candidate_ok :: "crypto \<Rightarrow> qualified_root \<Rightarrow> block_hash \<Rightarrow> maybe_saved_block \<Rightarrow> bool" where
  "candidate_ok cr q h b \<longleftrightarrow> h \<noteq> 0 \<and> mb_hash cr b = h \<and> block_qualified_root (mb_block b) = q"

definition candidates_ok :: "crypto \<Rightarrow> election \<Rightarrow> bool" where
  "candidates_ok cr e \<longleftrightarrow>
    distinct (map fst (el_candidates e)) \<and> length (el_candidates e) \<le> max_blocks \<and>
    (\<forall>h b. map_of (el_candidates e) h = Some b \<longrightarrow> candidate_ok cr (el_qualified_root e) h b) \<and>
    map_of (el_candidates e) (winner_hash cr e) = Some (el_winner e)"

definition votes_ok :: "election \<Rightarrow> bool" where
  "votes_ok e \<longleftrightarrow> distinct (map fst (el_votes e)) \<and>
    (\<forall>k v. map_of (el_votes e) k = Some v \<longrightarrow> vs_voter v = k \<and> vs_hash v \<in> candidate_hashes e)"

definition election_inv :: "crypto \<Rightarrow> election \<Rightarrow> bool" where
  "election_inv cr e \<longleftrightarrow> candidates_ok cr e \<and> votes_ok e \<and>
    tallies_ok (candidate_hashes e) (el_tallies e) \<and> tallies_ok (candidate_hashes e) (el_final_tallies e)"

lemmas election_inv_defs = election_inv_def candidates_ok_def votes_ok_def tallies_ok_def

lemma new_election_inv: "sv_hash cr b \<noteq> 0 \<Longrightarrow> election_inv cr (new_election cr b behavior latency now)"
  by (auto simp: election_inv_defs candidate_ok_def new_election_def max_blocks_def)

lemma state_change_inv [simp]:
  "election_inv cr (e\<lparr> el_state := s \<rparr>) = election_inv cr e"
  "election_inv cr (e\<lparr> el_behavior := b \<rparr>) = election_inv cr e"
  "election_inv cr (e\<lparr> el_has_quorum := q \<rparr>) = election_inv cr e"
  "election_inv cr (e\<lparr> el_winner_tally := x, el_winner_final_tally := y \<rparr>) = election_inv cr e"
  "election_inv cr (e\<lparr> el_last_voted_winner := h \<rparr>) = election_inv cr e"
  "election_inv cr (e\<lparr> el_last_final_vote := t \<rparr>) = election_inv cr e"
  "election_inv cr (e\<lparr> el_last_non_final_vote := t \<rparr>) = election_inv cr e"
  by (simp_all add: election_inv_defs)

lemma transitions_inv:
  assumes "election_inv cr e"
  shows "election_inv cr (el_transition_time e now)" "election_inv cr (el_cancel e)"
    "election_inv cr (el_transition_active e)" "election_inv cr (fst (maybe_upgrade_to e b))"
    "election_inv cr (fst (el_force_confirm e))" "election_inv cr (voted cr e vt t)"
  using assms
  by (simp_all add: el_transition_time_def el_cancel_def el_transition_active_def maybe_upgrade_to_def
      el_force_confirm_def voted_def Let_def split: election_state.splits vote_type.splits)

lemma remove_vote_inv: "election_inv cr e \<Longrightarrow> election_inv cr (remove_vote e voter)"
  by (auto simp: election_inv_defs remove_vote_def distinct_delete delete_conv')

lemma add_vote_inv:
  assumes "election_inv cr e" "h \<in> candidate_hashes e"
  shows "election_inv cr (el_add_vote e voter h created received)"
  using assms by (auto simp: election_inv_defs el_add_vote_def new_vote_summary_def distinct_update update_conv')

lemma bt_remove_set: "distinct (map fst t) \<Longrightarrow> map fst (bt_remove t h) = filter (\<lambda>g. g \<noteq> h) (map fst t)"
proof (induction t h rule: bt_remove.induct)
  case (2 g x t h)
  show ?case
  proof (cases "g = h")
    case True
    then have "\<forall>f \<in> set (map fst t). f \<noteq> h" using 2(2) by auto
    then show ?thesis using True by (simp add: filter_True)
  next
    case False
    with 2 show ?thesis by simp
  qed
qed simp

lemma bt_remove_ok: "tallies_ok H t \<Longrightarrow> tallies_ok (H - {h}) (bt_remove t h)"
  unfolding tallies_ok_def by (auto simp: bt_remove_set simp flip: set_map)

lemma delete_keys: "map fst (AList.delete k al) = filter (\<lambda>x. x \<noteq> k) (map fst al)"
  by (induction al) auto

lemma map_of_filter_votes:
  "distinct (map fst vs) \<Longrightarrow> map_of (filter (\<lambda>(_, v). P v) vs) k =
    (case map_of vs k of Some v \<Rightarrow> if P v then Some v else None | None \<Rightarrow> None)"
proof (induction vs)
  case (Cons x vs)
  then show ?case
    by (cases x) (auto split: option.splits simp: map_of_eq_None_iff dest: map_of_SomeD)
qed simp

lemma remove_block_inv:
  assumes inv: "election_inv cr e" and r: "remove_block cr e h = (e', removed)"
  shows "election_inv cr e' \<and> (removed \<noteq> None \<longrightarrow> h \<in> candidate_hashes e \<and> h \<noteq> winner_hash cr e \<and>
    candidate_hashes e' = candidate_hashes e - {h} \<and> length (el_candidates e') + 1 = length (el_candidates e)) \<and>
    (removed = None \<longrightarrow> e' = e)"
proof (cases "winner_hash cr e \<noteq> h \<and> map_of (el_candidates e) h \<noteq> None")
  case False
  then have "e' = e \<and> removed = None" using r by (auto simp: remove_block_def split: if_splits option.splits)
  with inv show ?thesis by simp
next
  case True
  then obtain b where b: "map_of (el_candidates e) h = Some b" by auto
  let ?c = "AList.delete h (el_candidates e)"
  have e': "e' = e\<lparr> el_candidates := ?c, el_votes := filter (\<lambda>(_, v). vs_hash v \<noteq> h) (el_votes e),
      el_tallies := bt_remove (el_tallies e) h, el_final_tallies := bt_remove (el_final_tallies e) h \<rparr>"
    and rm: "removed = Some b"
    using r True b by (auto simp: remove_block_def)
  have keys: "set (map fst ?c) = candidate_hashes e - {h}" unfolding delete_keys by auto
  have d: "distinct (map fst (el_candidates e))" and mem: "h \<in> candidate_hashes e"
    using inv b by (auto simp: election_inv_defs dest: map_of_SomeD intro: rev_image_eqI)
  have "length ?c + 1 = length (el_candidates e)"
  proof -
    have "length (filter (\<lambda>x. x \<noteq> h) (map fst (el_candidates e))) = card (candidate_hashes e - {h})"
      using distinct_card [of "filter (\<lambda>x. x \<noteq> h) (map fst (el_candidates e))"] d
      by (simp add: set_diff_eq)
    also have "\<dots> + 1 = card (candidate_hashes e)" using card_Suc_Diff1 [OF _ mem] by (simp del: set_map)
    also have "\<dots> = length (el_candidates e)" using distinct_card [OF d] by simp
    finally show ?thesis using arg_cong [OF delete_keys [of h "el_candidates e"], of length] by simp
  qed
  moreover have "candidates_ok cr e'"
    using inv True calculation by (auto simp: election_inv_defs e' distinct_delete delete_conv')
  moreover have "votes_ok e'"
    using inv keys
    by (auto simp: election_inv_defs e' map_of_filter_votes distinct_map_filter split: option.splits if_splits)
  moreover have "tallies_ok (candidate_hashes e') (el_tallies e')" "tallies_ok (candidate_hashes e') (el_final_tallies e')"
    using inv bt_remove_ok keys by (simp_all add: e' election_inv_def)
  ultimately show ?thesis using keys mem True not_sym [of "winner_hash cr e" h] by (simp add: election_inv_def e' rm)
qed

section \<open>Adding forks\<close>

lemma map_of_key: "map_of al k = Some v \<Longrightarrow> k \<in> set (map fst al)"
  using map_of_eq_None_iff [of al k] by auto

lemma winner_candidate: "election_inv cr e \<Longrightarrow> winner_hash cr e \<in> candidate_hashes e"
  unfolding election_inv_def candidates_ok_def by (blast intro: map_of_key)

lemma candidate_nonzero:
  assumes "election_inv cr e" "h \<in> candidate_hashes e"
  shows "h \<noteq> 0"
proof -
  have "map_of (el_candidates e) h \<noteq> None" using assms(2) by (simp add: map_of_eq_None_iff)
  then obtain b where "map_of (el_candidates e) h = Some b" by blast
  then show ?thesis using assms(1) unfolding election_inv_def candidates_ok_def candidate_ok_def by blast
qed

lemma without_tally_spec:
  assumes "without_tally cr e = Some h"
  shows "h \<in> candidate_hashes e" "h \<noteq> winner_hash cr e"
  using assms by (auto simp: without_tally_def find_Some_iff simp flip: set_map intro: nth_mem)

text \<open>With a full election and no block without a tally, all but the winner are tallied.\<close>

lemma tallied_when_full:
  assumes inv: "election_inv cr e" and full: "has_max_blocks e"
    and none: "without_tally cr e = None \<or> \<not> length (el_tallies e) < max_blocks"
  shows "max_blocks \<le> length (el_tallies e) + 1"
proof (cases "length (el_tallies e) < max_blocks")
  case True
  then have "without_tally cr e = None" using none by blast
  then have sub: "candidate_hashes e - {winner_hash cr e} \<subseteq> set (map fst (el_tallies e))"
    by (auto simp: without_tally_def find_None_iff bt_contains_def simp flip: set_map)
  have "max_blocks \<le> card (candidate_hashes e)"
    using inv full by (simp add: has_max_blocks_def election_inv_defs distinct_card [of "map fst (el_candidates e)", simplified])
  also have "\<dots> \<le> card (candidate_hashes e - {winner_hash cr e}) + 1"
    unfolding card_Diff_singleton_if by simp linarith
  also have "\<dots> \<le> card (set (map fst (el_tallies e))) + 1"
    using card_mono [OF _ sub] by simp
  also have "\<dots> = length (el_tallies e) + 1"
    using inv by (simp add: election_inv_defs distinct_card [of "map fst (el_tallies e)", simplified])
  finally show ?thesis .
qed simp

lemma lowest_block_below_spec:
  assumes inv: "election_inv cr e" and len: "2 \<le> length (el_tallies e)"
  shows "\<exists>h. lowest_block_below cr e m = Some h \<and> (h \<noteq> 0 \<longrightarrow> h \<in> candidate_hashes e \<and> h \<noteq> winner_hash cr e)"
proof -
  obtain t g x f y where t: "el_tallies e = t @ [(g, x), (f, y)]"
    using len by (cases "el_tallies e" rule: rev_cases; cases "butlast (el_tallies e)" rule: rev_cases) auto
  have "g \<noteq> f" "f \<in> candidate_hashes e" "g \<in> candidate_hashes e"
    using inv by (auto simp: election_inv_defs t)
  then show ?thesis by (auto simp: lowest_block_below_def bt_lowest_def t)
qed

lemma remove_tally_below_spec:
  assumes inv: "election_inv cr e" and full: "has_max_blocks e"
  shows "\<exists>e' removed. remove_tally_below cr e m = Some (e', removed) \<and> election_inv cr e' \<and>
    el_winner e' = el_winner e \<and> el_qualified_root e' = el_qualified_root e \<and>
    candidate_hashes e' \<subseteq> candidate_hashes e \<and>
    (removed = None \<longrightarrow> e' = e) \<and> (removed \<noteq> None \<longrightarrow> length (el_candidates e') < max_blocks)"
proof (cases "m = 0")
  case True
  then show ?thesis using inv by (simp add: remove_tally_below_def)
next
  case False
  define u where "u = (if length (el_tallies e) < max_blocks
    then (case without_tally cr e of Some h \<Rightarrow> h | None \<Rightarrow> 0) else 0)"
  have "\<exists>h. (if u = 0 then lowest_block_below cr e m else Some u) = Some h"
  proof (cases "u = 0")
    case True
    have "without_tally cr e = None \<or> \<not> length (el_tallies e) < max_blocks"
    proof (cases "without_tally cr e")
      case (Some h)
      have "h \<noteq> 0" by (rule candidate_nonzero [OF inv without_tally_spec(1) [OF Some]])
      with Some True show ?thesis by (auto simp: u_def split: if_splits)
    qed simp
    then have "2 \<le> length (el_tallies e)" using tallied_when_full [OF inv full] by (simp add: max_blocks_def)
    from lowest_block_below_spec [OF inv this, of m] True show ?thesis by auto
  qed simp
  then obtain h where h: "(if u = 0 then lowest_block_below cr e m else Some u) = Some h" ..
  obtain e' removed where rb: "(if h \<noteq> 0 then remove_block cr e h else (e, None)) = (e', removed)" by fastforce
  have eq: "remove_tally_below cr e m = Some (e', removed)"
    using False h rb by (simp add: remove_tally_below_def u_def [symmetric] Let_def)
  show ?thesis
  proof (cases "h = 0")
    case True
    with rb inv eq show ?thesis by auto
  next
    case False
    then have r: "remove_block cr e h = (e', removed)" using rb by simp
    have "el_winner e' = el_winner e" "el_qualified_root e' = el_qualified_root e"
      using r by (auto simp: remove_block_def split: if_splits option.splits)
    moreover have "length (el_candidates e) \<le> max_blocks" using inv by (simp add: election_inv_defs)
    ultimately show ?thesis using eq remove_block_inv [OF inv r] by (cases removed) auto
  qed
qed

lemma insert_fork_inv:
  assumes inv: "election_inv cr e" and room: "length (el_candidates e) < max_blocks"
    and new: "block_hash_of cr fork \<notin> candidate_hashes e" "block_hash_of cr fork \<noteq> 0"
      "block_qualified_root fork = el_qualified_root e"
  obtains t where "bt_insert (el_tallies e) (block_hash_of cr fork) w = Some t"
    "election_inv cr (e\<lparr> el_tallies := t,
      el_candidates := AList.update (block_hash_of cr fork) (Unsaved fork) (el_candidates e) \<rparr>)"
proof -
  let ?h = "block_hash_of cr fork" and ?C = "el_candidates e" and ?T = "el_tallies e"
  have T: "distinct (map fst ?T)" "set (map fst ?T) \<subseteq> candidate_hashes e" and C: "distinct (map fst ?C)"
    using inv by (simp_all add: election_inv_defs)
  have "length ?T = card (set (map fst ?T))" using distinct_card [OF T(1)] by simp
  also have "\<dots> \<le> card (candidate_hashes e)" by (rule card_mono [OF _ T(2)]) simp
  also have "\<dots> = length ?C" using distinct_card [OF C] by simp
  finally have ins: "bt_insert ?T ?h w = Some (sort_by_descending_tally (?T @ [(?h, w)]))" (is "_ = Some ?t")
    using room by (simp add: bt_insert_def insert_unsorted_def)
  have "distinct (map fst (?T @ [(?h, w)]))" using T new(1) by (auto simp flip: set_map)
  then have tok: "tallies_ok (insert ?h (candidate_hashes e)) ?t"
    using T(2) by (auto simp: tallies_ok_def sort_tally_keys)
  let ?e = "e\<lparr> el_tallies := ?t, el_candidates := AList.update ?h (Unsaved fork) ?C \<rparr>"
  have len: "length (AList.update ?h (Unsaved fork) ?C) = Suc (length ?C)"
    using new(1) arg_cong [OF update_keys [of ?h "Unsaved fork" ?C], of length] by simp
  have keys: "candidate_hashes ?e = insert ?h (candidate_hashes e)" by (simp add: dom_update)
  have "?h \<noteq> winner_hash cr e" using winner_candidate [OF inv] new(1) by metis
  then have "candidates_ok cr ?e"
    using inv room new len by (auto simp: election_inv_defs candidate_ok_def [of _ _ _ "Unsaved fork"] distinct_update update_conv')
  moreover have "votes_ok ?e"
    using inv unfolding votes_ok_def keys by (simp add: election_inv_defs)
  ultimately have "election_inv cr ?e"
    using tok inv unfolding election_inv_def keys by (auto simp: tallies_ok_def)
  with that ins show thesis by blast
qed

lemma try_add_fork_spec:
  assumes inv: "election_inv cr e" and fork: "block_hash_of cr fork \<noteq> 0" "block_qualified_root fork = el_qualified_root e"
  shows "\<exists>e' r. el_try_add_fork cr e fork w = Some (e', r) \<and> election_inv cr e' \<and> el_winner e' = el_winner e \<and>
    (r = Added \<or> (\<exists>x. r = Replaced x) \<longrightarrow> block_hash_of cr fork \<in> candidate_hashes e')"
proof (cases "has_ended (el_state e) \<or> contains_block e (block_hash_of cr fork)")
  case True
  then show ?thesis using inv by (auto simp: el_try_add_fork_def)
next
  case False
  let ?h = "block_hash_of cr fork"
  have new: "?h \<notin> candidate_hashes e" using False by (simp add: contains_block_def)
  obtain e1 removed where e1: "(if has_max_blocks e then remove_tally_below cr e w else Some (e, None)) = Some (e1, removed)"
    and inv1: "election_inv cr e1" and same: "el_winner e1 = el_winner e" "el_qualified_root e1 = el_qualified_root e"
    and sub: "candidate_hashes e1 \<subseteq> candidate_hashes e"
    and len: "has_max_blocks e \<and> removed = None \<or> length (el_candidates e1) < max_blocks"
  proof (cases "has_max_blocks e")
    case True
    with remove_tally_below_spec [OF inv True, of w] that show ?thesis by (metis (no_types, lifting))
  next
    case False
    with inv show ?thesis by (intro that [of e None]) (simp_all add: has_max_blocks_def)
  qed
  show ?thesis
  proof (cases "has_max_blocks e \<and> removed = None")
    case True
    with False e1 inv1 same show ?thesis by (simp add: el_try_add_fork_def Let_def)
  next
    case go: False
    then have "length (el_candidates e1) < max_blocks" using len by blast
    moreover have "?h \<notin> candidate_hashes e1" using new sub by blast
    ultimately obtain t where t: "bt_insert (el_tallies e1) ?h w = Some t"
      "election_inv cr (e1\<lparr> el_tallies := t, el_candidates := AList.update ?h (Unsaved fork) (el_candidates e1) \<rparr>)"
      using insert_fork_inv [OF inv1 _ _ fork(1)] fork(2) same by metis
    with False go e1 same show ?thesis
      by (auto simp: el_try_add_fork_def Let_def dom_update)
  qed
qed

section \<open>Counting and confirming\<close>

definition final_weight_for :: "election \<Rightarrow> rep_weights \<Rightarrow> block_hash \<Rightarrow> amount" where
  "final_weight_for e w h =
    sum_list (map (\<lambda>(k, _). unwrap_or_zero (w k)) (filter (\<lambda>(_, v). is_final_vote v \<and> vs_hash v = h) (el_votes e)))"

lemma weighted_final_votes:
  assumes "votes_ok e"
  shows "weight_for (filter is_final_vote (map snd (el_votes (update_vote_weights e w)))) h = final_weight_for e w h"
proof -
  have "\<forall>(k, v) \<in> set (el_votes e). vs_voter v = k"
    using assms by (auto simp: votes_ok_def)
  then have "weight_for (filter is_final_vote (map snd (map (\<lambda>(k, v). (k, v\<lparr> vs_weight := unwrap_or_zero (w (vs_voter v)) \<rparr>)) vs))) h
      = sum_list (map (\<lambda>(k, _). unwrap_or_zero (w k)) (filter (\<lambda>(_, v). is_final_vote v \<and> vs_hash v = h) vs))"
    if "set vs \<subseteq> set (el_votes e)" for vs
    using that by (induction vs) (auto simp: is_final_vote_def)
  then show ?thesis by (simp add: update_vote_weights_def final_weight_for_def)
qed

lemma update_vote_weights_inv:
  assumes "election_inv cr e"
  shows "election_inv cr (update_vote_weights e w)"
proof -
  let ?f = "\<lambda>v. v\<lparr> vs_weight := unwrap_or_zero (w (vs_voter v)) \<rparr>"
  have m: "map_of (map (\<lambda>(k, v). (k, ?f v)) vs) k = map_option ?f (map_of vs k)" for vs k
    by (induction vs) auto
  have d: "map fst (map (\<lambda>(k, v). (k, ?f v)) vs) = map fst vs" for vs :: "(public_key \<times> vote_summary) list"
    by (induction vs) auto
  have v: "distinct (map fst (el_votes e))"
    "\<And>k v. map_of (el_votes e) k = Some v \<Longrightarrow> vs_voter v = k \<and> vs_hash v \<in> candidate_hashes e"
    using assms unfolding election_inv_def votes_ok_def by blast+
  have ev: "el_votes (update_vote_weights e w) = map (\<lambda>(k, v). (k, ?f v)) (el_votes e)"
    "el_candidates (update_vote_weights e w) = el_candidates e"
    by (simp_all add: update_vote_weights_def)
  have "votes_ok (update_vote_weights e w)"
    unfolding votes_ok_def ev d m
  proof (intro conjI allI impI)
    show "distinct (map fst (el_votes e))" by (rule v(1))
    fix k x assume "map_option ?f (map_of (el_votes e) k) = Some x"
    then obtain y where "map_of (el_votes e) k = Some y" "x = ?f y" by blast
    with v(2) [of k y] show "vs_voter x = k" "vs_hash x \<in> candidate_hashes e" by simp_all
  qed
  then show ?thesis
    using assms by (simp add: election_inv_def candidates_ok_def update_vote_weights_def)
qed

lemma recalculate_tallies_spec:
  assumes inv: "election_inv cr e"
  obtains t f where "recalculate_tallies e = Some (e\<lparr> el_tallies := t, el_final_tallies := f \<rparr>)"
    "bt_calculate (map snd (el_votes e)) = Some t" "bt_calculate (filter is_final_vote (map snd (el_votes e))) = Some f"
    "election_inv cr (e\<lparr> el_tallies := t, el_final_tallies := f \<rparr>)"
proof -
  have C: "distinct (map fst (el_candidates e))" "length (el_candidates e) \<le> max_blocks"
    using inv by (simp_all add: election_inv_defs)
  have sub: "vs_hash ` set (map snd (el_votes e)) \<subseteq> candidate_hashes e"
    using inv by (auto simp: election_inv_defs)
  have few: "card (vs_hash ` V) \<le> max_blocks" if "V \<subseteq> set (map snd (el_votes e))" for V
  proof -
    have "card (vs_hash ` V) \<le> card (candidate_hashes e)" using that sub by (intro card_mono) blast+
    also have "\<dots> = length (el_candidates e)" using distinct_card [OF C(1)] by simp
    finally show ?thesis using C(2) by simp
  qed
  obtain t where t: "bt_calculate (map snd (el_votes e)) = Some t"
    using bt_calculate_returns [OF few] by blast
  obtain f where f: "bt_calculate (filter is_final_vote (map snd (el_votes e))) = Some f"
    using bt_calculate_returns [OF few [OF filter_is_subset]] by (rule exE)
  have "tallies_ok (candidate_hashes e) t" "tallies_ok (candidate_hashes e) f"
    using bt_calculate_spec(1,2) [OF t] bt_calculate_spec(1,2) [OF f] sub
    unfolding tallies_ok_def set_filter by (blast, blast)
  then have "election_inv cr (e\<lparr> el_tallies := t, el_final_tallies := f \<rparr>)"
    using inv by (simp add: election_inv_def candidates_ok_def votes_ok_def)
  with t f that show thesis by (simp add: recalculate_tallies_def)
qed

lemma new_winner_candidate:
  assumes inv: "election_inv cr e"
  obtains b where "(case check_new_winner cr e q of Some h \<Rightarrow> change_winner_to e h | None \<Rightarrow> Some e) = Some (e\<lparr> el_winner := b \<rparr>)"
    "map_of (el_candidates e) (mb_hash cr b) = Some b"
proof (cases "check_new_winner cr e q")
  case None
  with inv that [of "el_winner e"] show thesis by (simp add: election_inv_defs)
next
  case (Some h)
  then obtain x t where "el_tallies e = (h, x) # t"
    by (auto simp: check_new_winner_def bt_winner_def Let_def split: if_splits list.splits option.splits)
  then have "h \<in> candidate_hashes e" using inv by (auto simp: election_inv_defs)
  then obtain b where b: "map_of (el_candidates e) h = Some b"
    using map_of_eq_None_iff [of "el_candidates e" h] by auto
  then have "mb_hash cr b = h" using inv unfolding election_inv_def candidates_ok_def candidate_ok_def by blast
  with Some b that [of b] show thesis by (simp add: change_winner_to_def)
qed

lemma winner_change_inv:
  assumes "election_inv cr e" "map_of (el_candidates e) (mb_hash cr b) = Some b"
  shows "election_inv cr (e\<lparr> el_winner := b \<rparr>)"
  using assms by (simp add: election_inv_def candidates_ok_def votes_ok_def)

lemma update_tallies_spec:
  assumes inv: "election_inv cr e" and go: "\<not> has_ended (el_state e)"
  obtains e' where "update_tallies cr e w q = Some e'" "election_inv cr e'"
    "el_winner_final_tally e' = final_weight_for e w (winner_hash cr e')"
    "el_state e' = (if q \<le> el_winner_final_tally e' then Confirmed else el_state e)"
    "el_candidates e' = el_candidates e" "el_qualified_root e' = el_qualified_root e"
    "el_votes e' = el_votes (update_vote_weights e w)"
proof -
  let ?e1 = "update_vote_weights e w"
  have inv1: "election_inv cr ?e1" by (rule update_vote_weights_inv [OF inv])
  obtain t f where r: "recalculate_tallies ?e1 = Some (?e1\<lparr> el_tallies := t, el_final_tallies := f \<rparr>)"
    and f: "bt_calculate (filter is_final_vote (map snd (el_votes ?e1))) = Some f"
    and inv2: "election_inv cr (?e1\<lparr> el_tallies := t, el_final_tallies := f \<rparr>)"
    by (rule recalculate_tallies_spec [OF inv1])
  let ?e2 = "?e1\<lparr> el_tallies := t, el_final_tallies := f \<rparr>"
  obtain b where win: "(case check_new_winner cr ?e2 q of Some h \<Rightarrow> change_winner_to ?e2 h | None \<Rightarrow> Some ?e2)
      = Some (?e2\<lparr> el_winner := b \<rparr>)" and b: "map_of (el_candidates ?e2) (mb_hash cr b) = Some b"
    by (rule new_winner_candidate [OF inv2])
  let ?e3 = "?e2\<lparr> el_winner := b \<rparr>"
  let ?e' = "try_confirm (try_set_quorum (update_winner_tally cr ?e3) q) q"
  have "election_inv cr ?e3" by (rule winner_change_inv [OF inv2 b])
  moreover have same: "el_candidates ?e' = el_candidates e" "el_qualified_root ?e' = el_qualified_root e"
    "el_votes ?e' = el_votes ?e1" "el_winner ?e' = b" "el_winner_final_tally ?e' = bt_get f (mb_hash cr b)"
    "el_state ?e' = (if q \<le> bt_get f (mb_hash cr b) then Confirmed else el_state e)"
    by (simp_all add: try_confirm_def try_set_quorum_def update_winner_tally_def update_vote_weights_def)
  moreover have "bt_get f (mb_hash cr b) = final_weight_for e w (mb_hash cr b)"
    using bt_calculate_spec(3) [OF f] weighted_final_votes [of e w] inv by (simp add: election_inv_def)
  moreover have "election_inv cr ?e'"
    using calculation(1) by (simp add: try_confirm_def try_set_quorum_def update_winner_tally_def)
  moreover have "update_tallies cr e w q = Some ?e'"
    using go r win by (simp only: update_tallies_def if_False Option.bind.bind_lunit Let_def)
  ultimately show thesis by (intro that [of ?e']) simp_all
qed

end
