(* ===== verification/Active_Roots.thy ===== *)
theory Active_Roots
  imports Active_Elections Election_Correct
begin

text \<open>
  Correctness of the container of elections: at most one election per root, the vote router knows
  exactly the candidates of all elections, every election is in exactly the bucket of its behavior
  and balance, and no operation of the container panics.
\<close>

section \<open>The invariant\<close>

text \<open>
  Distinct roots never share a block hash: the hashes of the blocks that occur (a set \<open>B\<close>) determine
  their roots.
\<close>

definition collision_free :: "crypto \<Rightarrow> block set \<Rightarrow> bool" where
  "collision_free cr B \<longleftrightarrow>
    (\<forall>x y. x \<in> B \<and> y \<in> B \<and> block_hash_of cr x = block_hash_of cr y \<longrightarrow> block_qualified_root x = block_qualified_root y)"

type_synonym elections = "qualified_root \<rightharpoonup> entry"

abbreviation cands :: "entry \<Rightarrow> block_hash set" where
  "cands en \<equiv> candidate_hashes (en_election en)"

definition entry_ok :: "crypto \<Rightarrow> block set \<Rightarrow> qualified_root \<Rightarrow> entry \<Rightarrow> bool" where
  "entry_ok cr B r en \<longleftrightarrow> en_root en = r \<and> el_qualified_root (en_election en) = r \<and>
    election_inv cr (en_election en) \<and> (\<forall>b \<in> snd ` set (el_candidates (en_election en)). mb_block b \<in> B)"

definition entries_ok :: "crypto \<Rightarrow> block set \<Rightarrow> elections \<Rightarrow> bool" where
  "entries_ok cr B E \<longleftrightarrow> (\<forall>r en. E r = Some en \<longrightarrow> entry_ok cr B r en)"

definition routes_ok :: "elections \<Rightarrow> (block_hash \<rightharpoonup> qualified_root) \<Rightarrow> bool" where
  "routes_ok E R \<longleftrightarrow> (\<forall>h r. R h = Some r \<longleftrightarrow> (\<exists>en. E r = Some en \<and> h \<in> cands en))"

definition slot :: "elections \<Rightarrow> nat \<Rightarrow> bucket_entry set" where
  "slot E i = {b. \<exists>en. E (be_root b) = Some en \<and> be_priority b = en_priority en \<and> en_bucket en = Some i}"

definition buckets_ok :: "elections \<Rightarrow> bucket list \<Rightarrow> bool" where
  "buckets_ok E bs \<longleftrightarrow> length bs = bucket_count \<and>
    (\<forall>i. i < bucket_count \<longrightarrow> sorted (bs ! i) \<and> distinct (bs ! i) \<and> set (bs ! i) = slot E i)"

definition with_behavior :: "elections \<Rightarrow> election_behavior \<Rightarrow> qualified_root set" where
  "with_behavior E b = {r. \<exists>en. E r = Some en \<and> el_behavior (en_election en) = b}"

definition counts_ok :: "elections \<Rightarrow> (election_behavior \<Rightarrow> nat) \<Rightarrow> bool" where
  "counts_ok E f \<longleftrightarrow> (\<forall>b. f b = card (with_behavior E b))"

definition rc_ok :: "crypto \<Rightarrow> block set \<Rightarrow> root_container \<Rightarrow> bool" where
  "rc_ok cr B c \<longleftrightarrow> distinct (map fst (rc_by_root c)) \<and> entries_ok cr B (rc_get c) \<and>
    routes_ok (rc_get c) (rc_vote_router c) \<and> buckets_ok (rc_get c) (rc_buckets c)"

section \<open>Routes\<close>

lemma routesD: "routes_ok E R \<Longrightarrow> R h = Some r \<Longrightarrow> \<exists>en. E r = Some en \<and> h \<in> cands en"
  by (simp add: routes_ok_def)

lemma routesI: "routes_ok E R \<Longrightarrow> E r = Some en \<Longrightarrow> h \<in> cands en \<Longrightarrow> R h = Some r"
  by (auto simp: routes_ok_def)

lemma entry_candidate_root:
  assumes "entry_ok cr B r en" "h \<in> cands en"
  obtains b where "b \<in> B" "block_hash_of cr b = h" "block_qualified_root b = r"
proof -
  obtain b where b: "map_of (el_candidates (en_election en)) h = Some b"
    using assms(2) by (metis map_of_eq_None_iff option.exhaust set_map)
  have inv: "election_inv cr (en_election en)" "el_qualified_root (en_election en) = r"
    using assms(1) by (simp_all add: entry_ok_def)
  have "candidate_ok cr r h b"
    using inv b unfolding election_inv_def candidates_ok_def by blast
  moreover have "b \<in> snd ` set (el_candidates (en_election en))"
    by (rule rev_image_eqI [OF map_of_SomeD [OF b]]) simp
  then have "mb_block b \<in> B" using assms(1) unfolding entry_ok_def by blast
  ultimately show thesis using that [of "mb_block b"] by (simp add: candidate_ok_def)
qed

lemma foreign_candidate:
  assumes "collision_free cr B" "entries_ok cr B E" "b \<in> B" "E r = Some en" "block_hash_of cr b \<in> cands en"
  shows "r = block_qualified_root b"
proof -
  have "entry_ok cr B r en" using assms(2,4) by (simp add: entries_ok_def)
  then obtain x where "x \<in> B" "block_hash_of cr x = block_hash_of cr b" "block_qualified_root x = r"
    by (rule entry_candidate_root [OF _ assms(5)])
  then show ?thesis using assms(1,3) unfolding collision_free_def by blast
qed

lemma routes_insert:
  assumes R: "routes_ok E R" and new: "E r = None" and c: "cands en = {h}"
    and other: "\<And>r' en'. E r' = Some en' \<Longrightarrow> h \<notin> cands en'"
  shows "routes_ok (E(r \<mapsto> en)) (R(h \<mapsto> r))"
  unfolding routes_ok_def
proof (intro allI)
  fix h' r'
  show "(R(h \<mapsto> r)) h' = Some r' \<longleftrightarrow> (\<exists>en'. (E(r \<mapsto> en)) r' = Some en' \<and> h' \<in> cands en')"
  proof (cases "h' = h")
    case True
    then show ?thesis using c other by (cases "r' = r") auto
  next
    case False
    have "R h' = Some r' \<longleftrightarrow> (\<exists>en'. E r' = Some en' \<and> h' \<in> cands en')" using R by (simp add: routes_ok_def)
    then show ?thesis using False c new by (cases "r' = r") auto
  qed
qed

lemma routes_same_candidates:
  "routes_ok E R \<Longrightarrow> E r = Some en \<Longrightarrow> cands en' = cands en \<Longrightarrow> routes_ok (E(r \<mapsto> en')) R"
  unfolding routes_ok_def by (auto simp: fun_upd_apply)

lemma routes_erase:
  assumes R: "routes_ok E R" and en: "E r = Some en"
    and R': "\<And>h. R' h = (if h \<in> cands en then None else R h)"
  shows "routes_ok (E(r := None)) R'"
  unfolding routes_ok_def
proof (intro allI)
  fix h r'
  have iff: "R h = Some r' \<longleftrightarrow> (\<exists>en'. E r' = Some en' \<and> h \<in> cands en')" using R by (simp add: routes_ok_def)
  show "R' h = Some r' \<longleftrightarrow> (\<exists>en'. (E(r := None)) r' = Some en' \<and> h \<in> cands en')"
  proof (cases "h \<in> cands en")
    case True
    then have "R h = Some r" by (rule routesI [OF R en])
    then show ?thesis using True iff R' by (cases "r' = r") auto
  next
    case False
    then show ?thesis using iff R' en by (cases "r' = r") auto
  qed
qed

lemma routes_add_fork:
  assumes R: "routes_ok E R" and en: "E r = Some en"
    and other: "\<And>r' en'. r' \<noteq> r \<Longrightarrow> E r' = Some en' \<Longrightarrow> f \<notin> cands en'"
    and gone: "gone \<subseteq> cands en" and c: "cands en' = cands en - gone \<union> {f}"
    and R': "\<And>h. R' h = (if h = f then Some r else if h \<in> gone then None else R h)"
  shows "routes_ok (E(r \<mapsto> en')) R'"
  unfolding routes_ok_def
proof (intro allI)
  fix h r'
  have iff: "R h = Some r' \<longleftrightarrow> (\<exists>en'. E r' = Some en' \<and> h \<in> cands en')" using R by (simp add: routes_ok_def)
  show "R' h = Some r' \<longleftrightarrow> (\<exists>x. (E(r \<mapsto> en')) r' = Some x \<and> h \<in> cands x)"
  proof (cases "h = f \<or> h \<in> gone")
    case True
    then show ?thesis
    proof (cases "h = f")
      case True
      then show ?thesis using R' c other by (cases "r' = r") (auto simp del: set_map)
    next
      case False
      then have h: "h \<in> cands en" using True gone by blast
      then have "R h = Some r" by (rule routesI [OF R en])
      then show ?thesis using iff False True c R' by (cases "r' = r") (auto simp del: set_map)
    qed
  next
    case False
    then show ?thesis using iff R' c en by (cases "r' = r") (auto simp del: set_map)
  qed
qed

section \<open>Buckets and counters\<close>

lemma btree_insert_ok:
  assumes "sorted s" "distinct s"
  shows "sorted (btree_insert x s)" "distinct (btree_insert x s)" "set (btree_insert x s) = insert x (set s)"
  using assms
  by (simp_all add: btree_insert_def sorted_insort_insert distinct_insort_insert set_insort_insert)

lemma btree_remove_ok:
  assumes "sorted s" "distinct s"
  shows "sorted (btree_remove x s)" "distinct (btree_remove x s)" "set (btree_remove x s) = set s - {x}"
  using assms by (simp_all add: btree_remove_def sorted_remove1)

lemma slot_upd:
  assumes "en_bucket en = Some i" "E r = None"
  shows "slot (E(r \<mapsto> en)) j = (if j = i then insert (BucketEntry r (en_priority en)) (slot E j) else slot E j)"
proof (rule set_eqI)
  fix b
  show "b \<in> slot (E(r \<mapsto> en)) j \<longleftrightarrow>
      b \<in> (if j = i then insert (BucketEntry r (en_priority en)) (slot E j) else slot E j)"
    using assms by (cases b; cases "be_root b = r") (auto simp: slot_def)
qed

lemma slot_del:
  assumes "en_bucket en = Some i" "E r = Some en"
  shows "slot (E(r := None)) j = (if j = i then slot E j - {BucketEntry r (en_priority en)} else slot E j)"
proof (rule set_eqI)
  fix b
  show "b \<in> slot (E(r := None)) j \<longleftrightarrow>
      b \<in> (if j = i then slot E j - {BucketEntry r (en_priority en)} else slot E j)"
    using assms by (cases b; cases "be_root b = r") (auto simp: slot_def)
qed

lemma buckets_insert:
  assumes "buckets_ok E bs" "E r = None" "en_bucket en = Some i"
  shows "buckets_ok (E(r \<mapsto> en)) (bs[i := btree_insert (BucketEntry r (en_priority en)) (bs ! i)])"
  using assms slot_upd [where E = E and r = r, OF assms(3,2)] btree_insert_ok [of "bs ! i"]
  by (auto simp: buckets_ok_def nth_list_update)

lemma buckets_erase:
  assumes "buckets_ok E bs" "E r = Some en" "en_bucket en = Some i"
  shows "buckets_ok (E(r := None)) (bs[i := btree_remove (BucketEntry r (en_priority en)) (bs ! i)])"
  using assms slot_del [where E = E and r = r, OF assms(3,2)] btree_remove_ok [of "bs ! i"]
  by (auto simp: buckets_ok_def nth_list_update)

lemma buckets_same:
  assumes "buckets_ok E bs" "E r = Some en" "en_bucket en' = en_bucket en" "en_priority en' = en_priority en"
  shows "buckets_ok (E(r \<mapsto> en')) bs"
proof -
  have "slot (E(r \<mapsto> en')) = slot E"
    using assms(2-4) by (auto simp: slot_def fun_eq_iff)
  then show ?thesis using assms(1) by (simp add: buckets_ok_def)
qed

lemma en_bucket_total: obtains i where "en_bucket en = Some i" "i < bucket_count"
  using bucket_index_total [of "el_behavior (en_election en)" "bp_balance (en_priority en)"]
  by (auto simp: en_bucket_def)

lemma with_behavior_upd:
  "with_behavior (E(r \<mapsto> en)) b =
    (if el_behavior (en_election en) = b then insert r (with_behavior E b) else with_behavior E b - {r})"
  by (auto simp: with_behavior_def)

lemma with_behavior_del: "with_behavior (E(r := None)) b = with_behavior E b - {r}"
  by (auto simp: with_behavior_def)

lemma finite_with_behavior: "finite (dom E) \<Longrightarrow> finite (with_behavior E b)"
  by (rule finite_subset [of _ "dom E"]) (auto simp: with_behavior_def)

lemma counts_insert:
  assumes "counts_ok E f" "finite (dom E)" "E r = None"
  shows "counts_ok (E(r \<mapsto> en)) (f(el_behavior (en_election en) := f (el_behavior (en_election en)) + 1))"
proof -
  have "r \<notin> with_behavior E b" for b using assms(3) by (simp add: with_behavior_def)
  then show ?thesis
    using assms(1) finite_with_behavior [OF assms(2)] by (simp add: counts_ok_def with_behavior_upd)
qed

lemma counts_erase:
  assumes "counts_ok E f" "finite (dom E)" "E r = Some en"
  shows "0 < f (el_behavior (en_election en))"
    "counts_ok (E(r := None)) (f(el_behavior (en_election en) := f (el_behavior (en_election en)) - 1))"
proof -
  have r: "r \<in> with_behavior E b \<longleftrightarrow> el_behavior (en_election en) = b" for b
    using assms(3) by (auto simp: with_behavior_def)
  show "0 < f (el_behavior (en_election en))"
    using assms(1) r finite_with_behavior [OF assms(2)] by (auto simp: counts_ok_def card_gt_0_iff)
  show "counts_ok (E(r := None)) (f(el_behavior (en_election en) := f (el_behavior (en_election en)) - 1))"
    using assms(1) r finite_with_behavior [OF assms(2)] by (simp add: counts_ok_def with_behavior_del)
qed

lemma counts_same:
  assumes "counts_ok E f" "E r = Some en" "el_behavior (en_election en') = el_behavior (en_election en)"
  shows "counts_ok (E(r \<mapsto> en')) f"
proof -
  have "with_behavior (E(r \<mapsto> en')) = with_behavior E"
    using assms(2,3) by (auto simp: with_behavior_def fun_eq_iff)
  then show ?thesis using assms(1) by (simp add: counts_ok_def)
qed

section \<open>Operations of the container\<close>

lemma finite_rc_get: "finite (dom (rc_get c))"
  unfolding rc_get_def [abs_def] by (rule finite_dom_map_of)

lemma rc_get_set_election:
  "rc_get c r = Some en \<Longrightarrow> rc_get (rc_set_election r e c) = (rc_get c)(r \<mapsto> en\<lparr> en_election := e \<rparr>)"
  unfolding rc_get_def [abs_def] rc_set_election_def by (rule ext) (simp add: map_of_map_entry)

lemma map_entry_keys: "map fst (AList.map_entry k f xs) = map fst xs"
  by (induction xs) auto

lemma set_election_fields [simp]:
  "rc_vote_router (rc_set_election r e c) = rc_vote_router c" "rc_buckets (rc_set_election r e c) = rc_buckets c"
  "map fst (rc_by_root (rc_set_election r e c)) = map fst (rc_by_root c)"
  by (simp_all add: rc_set_election_def map_entry_keys)

text \<open>Changes of an election that concern neither its candidates nor its behavior.\<close>

definition same_shape :: "election \<Rightarrow> election \<Rightarrow> bool" where
  "same_shape e e' \<longleftrightarrow> el_candidates e' = el_candidates e \<and> el_behavior e' = el_behavior e \<and>
    el_qualified_root e' = el_qualified_root e"

lemma set_election_ok:
  assumes ok: "rc_ok cr B c" and en: "rc_get c r = Some en" and e: "election_inv cr e" "same_shape (en_election en) e"
  shows "rc_ok cr B (rc_set_election r e c)"
    "counts_ok (rc_get c) f \<Longrightarrow> counts_ok (rc_get (rc_set_election r e c)) f"
proof -
  let ?en = "en\<lparr> en_election := e \<rparr>"
  note get = rc_get_set_election [OF en, of e]
  have entry: "entry_ok cr B r en" using ok en by (simp add: rc_ok_def entries_ok_def)
  have new: "entry_ok cr B r ?en" using entry e by (simp add: entry_ok_def same_shape_def)
  have "entries_ok cr B ((rc_get c)(r \<mapsto> ?en))" using ok new by (simp add: rc_ok_def entries_ok_def)
  moreover have "routes_ok ((rc_get c)(r \<mapsto> ?en)) (rc_vote_router c)"
    using ok en e by (intro routes_same_candidates [of _ _ _ en]) (simp_all add: rc_ok_def same_shape_def)
  moreover have "buckets_ok ((rc_get c)(r \<mapsto> ?en)) (rc_buckets c)"
    using ok en e by (intro buckets_same [of _ _ _ en]) (simp_all add: rc_ok_def same_shape_def en_bucket_def)
  ultimately show "rc_ok cr B (rc_set_election r e c)" using ok by (simp add: rc_ok_def get)
  show "counts_ok (rc_get (rc_set_election r e c)) f" if "counts_ok (rc_get c) f"
    unfolding get using that en e by (intro counts_same [of _ _ _ en]) (simp_all add: same_shape_def)
qed

lemma rc_get_keys: "rc_get (c\<lparr> rc_by_root := al \<rparr>) = map_of al"
  by (simp add: rc_get_def fun_eq_iff)

lemma rc_get_other [simp]:
  "rc_get (c\<lparr> rc_buckets := bs \<rparr>) = rc_get c" "rc_get (c\<lparr> rc_vote_router := rt \<rparr>) = rc_get c"
  by (simp_all add: rc_get_def fun_eq_iff)

lemma rc_insert_ok:
  assumes ok: "rc_ok cr B c" and free: "collision_free cr B" and b: "sv_block b \<in> B" and nz: "sv_hash cr b \<noteq> 0"
    and r: "r = block_qualified_root (sv_block b)" and new: "rc_get c r = None"
    and en: "en = \<lparr> en_root = r, en_election = new_election cr b behavior latency now, en_priority = prio \<rparr>"
  shows "\<exists>c'. rc_insert cr en c = Some c' \<and> rc_ok cr B c' \<and> rc_get c' = (rc_get c)(r \<mapsto> en)"
proof -
  obtain i where i: "en_bucket en = Some i" "i < bucket_count" by (rule en_bucket_total)
  have E: "entries_ok cr B (rc_get c)" and R: "routes_ok (rc_get c) (rc_vote_router c)"
    and bs: "buckets_ok (rc_get c) (rc_buckets c)" and d: "distinct (map fst (rc_by_root c))"
    using ok by (simp_all add: rc_ok_def)
  have parts: "en_root en = r" "cands en = {sv_hash cr b}" "winner_hash cr (en_election en) = sv_hash cr b"
    by (simp_all add: en new_election_def)
  define c' where "c' = c\<lparr> rc_by_root := AList.update r en (rc_by_root c),
    rc_buckets := (rc_buckets c)[i := btree_insert (BucketEntry r (en_priority en)) (rc_buckets c ! i)],
    rc_vote_router := (rc_vote_router c)(sv_hash cr b \<mapsto> r) \<rparr>"
  have run: "rc_insert cr en c = Some c'"
    using i bs by (simp add: rc_insert_def modify_bucket_def buckets_ok_def connect_def parts c'_def)
  have get: "rc_get c' = (rc_get c)(r \<mapsto> en)"
    by (simp add: c'_def rc_get_def fun_eq_iff update_conv')
  have "entry_ok cr B r en"
    using new_election_inv [OF nz, of behavior latency now] b by (simp add: entry_ok_def en r) (simp add: new_election_def r)
  then have "entries_ok cr B ((rc_get c)(r \<mapsto> en))" using E by (simp add: entries_ok_def)
  moreover have "routes_ok ((rc_get c)(r \<mapsto> en)) ((rc_vote_router c)(sv_hash cr b \<mapsto> r))"
  proof (rule routes_insert [OF R new parts(2)])
    fix r' en' assume "rc_get c r' = Some en'"
    with foreign_candidate [OF free E b this] new r show "sv_hash cr b \<notin> cands en'" by fastforce
  qed
  moreover have "buckets_ok ((rc_get c)(r \<mapsto> en)) (rc_buckets c')"
    using buckets_insert [OF bs new i(1)] by (simp add: c'_def)
  moreover have "distinct (map fst (rc_by_root c'))" using d by (simp add: c'_def distinct_update)
  ultimately have "rc_ok cr B c'" by (simp add: rc_ok_def get) (simp add: c'_def)
  with run get show ?thesis by blast
qed

lemma disconnect_routes:
  "rc_vote_router (fold disconnect hs c) = (\<lambda>h. if h \<in> set hs then None else rc_vote_router c h)"
  "rc_by_root (fold disconnect hs c) = rc_by_root c" "rc_buckets (fold disconnect hs c) = rc_buckets c"
  by (induction hs arbitrary: c) (auto simp: disconnect_def fun_eq_iff)

lemma rc_erase_ok:
  assumes ok: "rc_ok cr B c" and en: "rc_get c r = Some en"
  shows "\<exists>c'. rc_erase r c = Some (c', Some en) \<and> rc_ok cr B c' \<and> rc_get c' = (rc_get c)(r := None)"
proof -
  obtain i where i: "en_bucket en = Some i" "i < bucket_count" by (rule en_bucket_total)
  have E: "entries_ok cr B (rc_get c)" and R: "routes_ok (rc_get c) (rc_vote_router c)"
    and bs: "buckets_ok (rc_get c) (rc_buckets c)" and d: "distinct (map fst (rc_by_root c))"
    using ok by (simp_all add: rc_ok_def)
  have root: "en_root en = r" using E en by (simp add: entries_ok_def entry_ok_def)
  define c1 where "c1 = disconnect_election (en_election en) (c\<lparr> rc_by_root := AList.delete r (rc_by_root c) \<rparr>)"
  have c1: "rc_by_root c1 = AList.delete r (rc_by_root c)" "rc_buckets c1 = rc_buckets c"
    "\<And>h. rc_vote_router c1 h = (if h \<in> cands en then None else rc_vote_router c h)"
    by (simp_all add: c1_def disconnect_election_def disconnect_routes)
  define c' where "c' = c1\<lparr> rc_buckets := (rc_buckets c)[i := btree_remove (BucketEntry r (en_priority en)) (rc_buckets c ! i)] \<rparr>"
  have run: "rc_erase r c = Some (c', Some en)"
    using i bs en by (simp add: rc_erase_def c1_def [symmetric] modify_bucket_def buckets_ok_def root c1 c'_def)
  have get: "rc_get c' = (rc_get c)(r := None)"
    by (simp add: c'_def rc_get_def fun_eq_iff c1 delete_conv')
  have "entries_ok cr B ((rc_get c)(r := None))" using E by (simp add: entries_ok_def)
  moreover have "routes_ok ((rc_get c)(r := None)) (rc_vote_router c')"
    by (rule routes_erase [OF R en]) (simp add: c'_def c1(3))
  moreover have "buckets_ok ((rc_get c)(r := None)) (rc_buckets c')"
    using buckets_erase [OF bs en i(1)] by (simp add: c'_def)
  moreover have "distinct (map fst (rc_by_root c'))" using d by (simp add: c'_def c1 distinct_delete)
  ultimately have "rc_ok cr B c'" by (simp add: rc_ok_def get)
  with run get show ?thesis by blast
qed

lemma try_upgrade_ok:
  assumes ok: "rc_ok cr B c" and root: "r = block_qualified_root (sv_block (rq_block rq))"
  obtains c' upgraded previous where "try_upgrade_to_priority_election rq c = Some (c', upgraded, previous)"
    "rc_ok cr B c'" "previous = map_option (\<lambda>en. el_behavior (en_election en)) (rc_get c r)"
    "\<not> upgraded \<longrightarrow> rc_get c' = rc_get c"
    "upgraded \<longrightarrow> rq_behavior rq = Priority \<and> (\<exists>en. rc_get c r = Some en \<and>
      rc_get c' = (rc_get c)(r \<mapsto> en\<lparr> en_election := (en_election en)\<lparr> el_behavior := Priority \<rparr> \<rparr>))"
proof (cases "rc_get c r")
  case None
  then show thesis using ok root by (intro that [of c False None]) (simp_all add: try_upgrade_to_priority_election_def)
next
  case (Some en)
  let ?old = "el_behavior (en_election en)" and ?e = "(en_election en)\<lparr> el_behavior := Priority \<rparr>"
  let ?en = "en\<lparr> en_election := ?e \<rparr>"
  show thesis
  proof (cases "rq_behavior rq = Priority \<and> ?old \<notin> {Priority, Manual}")
    case False
    show thesis
    proof (cases "rq_behavior rq = Priority")
      case True
      then have old: "?old \<in> {Priority, Manual}" using False by blast
      let ?c = "rc_set_election r (en_election en) c"
      have get: "rc_get ?c = rc_get c" using rc_get_set_election [OF Some, of "en_election en"] Some by auto
      have "rc_ok cr B ?c" using ok by (simp add: rc_ok_def get)
      then show thesis
        using True old Some root get
        by (intro that [of ?c False "Some ?old"]) (simp_all add: try_upgrade_to_priority_election_def maybe_upgrade_to_def)
    next
      case False
      then show thesis
        using ok Some root
        by (intro that [of c False "Some ?old"]) (simp_all add: try_upgrade_to_priority_election_def)
    qed
  next
    case True
    have bs: "buckets_ok (rc_get c) (rc_buckets c)" and E: "entries_ok cr B (rc_get c)"
      and R: "routes_ok (rc_get c) (rc_vote_router c)" and d: "distinct (map fst (rc_by_root c))"
      using ok by (simp_all add: rc_ok_def)
    obtain i where i: "en_bucket en = Some i" "i < bucket_count" by (rule en_bucket_total)
    obtain j where j: "en_bucket ?en = Some j" "j < bucket_count" by (rule en_bucket_total)
    let ?b = "BucketEntry r (en_priority en)"
    let ?bs1 = "(rc_buckets c)[i := btree_remove ?b (rc_buckets c ! i)]"
    let ?bs2 = "?bs1[j := btree_insert ?b (?bs1 ! j)]"
    define c' where "c' = (rc_set_election r ?e c)\<lparr> rc_buckets := ?bs2 \<rparr>"
    have run: "try_upgrade_to_priority_election rq c = Some (c', True, Some ?old)"
      using True Some root i j bs
      by (simp add: try_upgrade_to_priority_election_def maybe_upgrade_to_def modify_bucket_def buckets_ok_def en_bucket_def c'_def Let_def)
    have get: "rc_get c' = (rc_get c)(r \<mapsto> ?en)"
      by (simp add: c'_def rc_get_set_election [OF Some])
    have parts: "rc_buckets c' = ?bs2" "rc_vote_router c' = rc_vote_router c" "map fst (rc_by_root c') = map fst (rc_by_root c)"
      by (simp_all add: c'_def)
    have b1: "buckets_ok ((rc_get c)(r := None)) ?bs1" by (rule buckets_erase [OF bs Some i(1)])
    have "buckets_ok (((rc_get c)(r := None))(r \<mapsto> ?en)) ?bs2"
      using buckets_insert [OF b1 _ j(1), of r] by simp
    then have "buckets_ok (rc_get c') (rc_buckets c')" by (simp add: get parts)
    moreover have "entry_ok cr B r ?en" using E Some by (simp add: entries_ok_def entry_ok_def)
    then have "entries_ok cr B (rc_get c')" using E by (simp add: get entries_ok_def)
    moreover have "routes_ok (rc_get c') (rc_vote_router c)"
      unfolding get by (rule routes_same_candidates [OF R Some]) simp
    ultimately have "rc_ok cr B c'" using d by (simp add: rc_ok_def parts)
    then show thesis using run get Some True by (intro that [OF run]) simp_all
  qed
qed

section \<open>Forks\<close>

lemma remove_tally_below_shape:
  assumes "remove_tally_below cr e m = Some (e', removed)"
  shows "el_behavior e' = el_behavior e" "el_qualified_root e' = el_qualified_root e"
    "removed = None \<Longrightarrow> e' = e"
    "removed = Some b \<Longrightarrow> \<exists>h. map_of (el_candidates e) h = Some b \<and> el_candidates e' = AList.delete h (el_candidates e)"
proof -
  obtain h where h: "(if h \<noteq> 0 then remove_block cr e h else (e, None)) = (e', removed)"
  proof (cases "m = 0")
    case True
    then show ?thesis using assms that [of 0] by (simp add: remove_tally_below_def)
  next
    case False
    then show ?thesis using assms that by (auto simp: remove_tally_below_def Let_def bind_eq_Some_conv)
  qed
  then have "el_behavior e' = el_behavior e \<and> el_qualified_root e' = el_qualified_root e \<and> (removed = None \<longrightarrow> e' = e) \<and>
      (removed = Some b \<longrightarrow> map_of (el_candidates e) h = Some b \<and> el_candidates e' = AList.delete h (el_candidates e))" for b
    by (auto simp: remove_block_def split: if_splits option.splits)
  then show "el_behavior e' = el_behavior e" "el_qualified_root e' = el_qualified_root e" "removed = None \<Longrightarrow> e' = e"
    "removed = Some b \<Longrightarrow> \<exists>h. map_of (el_candidates e) h = Some b \<and> el_candidates e' = AList.delete h (el_candidates e)"
    by auto
qed

definition fork_candidates :: "crypto \<Rightarrow> election \<Rightarrow> block \<Rightarrow> add_fork_result \<Rightarrow> (block_hash \<times> maybe_saved_block) list \<Rightarrow> bool" where
  "fork_candidates cr e fork result cs \<longleftrightarrow>
    (case result of
      Added \<Rightarrow> cs = AList.update (block_hash_of cr fork) (Unsaved fork) (el_candidates e)
    | Replaced b \<Rightarrow> \<exists>h. map_of (el_candidates e) h = Some b \<and>
        cs = AList.update (block_hash_of cr fork) (Unsaved fork) (AList.delete h (el_candidates e))
    | _ \<Rightarrow> cs = el_candidates e)"

lemma try_add_fork_shape:
  assumes "el_try_add_fork cr e fork w = Some (e', result)"
  shows "el_behavior e' = el_behavior e \<and> el_qualified_root e' = el_qualified_root e \<and>
    fork_candidates cr e fork result (el_candidates e')"
proof (cases "has_ended (el_state e) \<or> contains_block e (block_hash_of cr fork)")
  case True
  then show ?thesis using assms by (auto simp: el_try_add_fork_def fork_candidates_def split: if_splits)
next
  case False
  obtain e1 removed where e1: "(if has_max_blocks e then remove_tally_below cr e w else Some (e, None)) = Some (e1, removed)"
    using assms False by (auto simp: el_try_add_fork_def Let_def bind_eq_Some_conv)
  have shape: "el_behavior e1 = el_behavior e" "el_qualified_root e1 = el_qualified_root e" "removed = None \<Longrightarrow> e1 = e"
    "\<And>b. removed = Some b \<Longrightarrow> \<exists>h. map_of (el_candidates e) h = Some b \<and> el_candidates e1 = AList.delete h (el_candidates e)"
    using e1 remove_tally_below_shape [of cr e w e1 removed] by (auto split: if_splits)
  show ?thesis
  proof (cases "has_max_blocks e \<and> removed = None")
    case True
    then show ?thesis using assms False e1 shape by (auto simp: el_try_add_fork_def Let_def fork_candidates_def)
  next
    case go: False
    obtain t where "e' = e1\<lparr> el_tallies := t, el_candidates := AList.update (block_hash_of cr fork) (Unsaved fork) (el_candidates e1) \<rparr>"
      "result = (case removed of Some r \<Rightarrow> Replaced r | None \<Rightarrow> Added)"
      using assms False e1 go by (auto simp: el_try_add_fork_def Let_def bind_eq_Some_conv)
    then show ?thesis using shape by (cases removed) (auto simp: fork_candidates_def)
  qed
qed

end
