(* ===== verification/Active_Correct.thy ===== *)
theory Active_Correct
  imports Active_Roots
begin

text \<open>
  Correctness of the active elections: every operation keeps the invariant of the container, the
  counters by behavior and the cache of recently confirmed elections, and none panics.
\<close>

section \<open>The invariant of the active elections\<close>

text \<open>The cache remembers roots of known blocks, and none of them has an active election.\<close>

definition cache_ok :: "crypto \<Rightarrow> block set \<Rightarrow> elections \<Rightarrow> recently_confirmed \<Rightarrow> bool" where
  "cache_ok cr B E c \<longleftrightarrow> rcc_inv c \<and>
    (\<forall>r h. rcc_by_hash c h = Some r \<longrightarrow> (\<exists>b \<in> B. block_hash_of cr b = h \<and> block_qualified_root b = r)) \<and>
    (\<forall>r. rcc_root_exists c r \<longrightarrow> E r = None)"

definition aec_inv :: "crypto \<Rightarrow> block set \<Rightarrow> aec \<Rightarrow> bool" where
  "aec_inv cr B a \<longleftrightarrow> cache_ok cr B (rc_get (ac_roots a)) (ac_recently_confirmed a) \<and> cooldown_inv (ac_cooldown a) \<and>
    (if ac_stopped a
     then rc_by_root (ac_roots a) = [] \<and> rc_buckets (ac_roots a) = replicate bucket_count []
     else rc_ok cr B (ac_roots a) \<and> counts_ok (rc_get (ac_roots a)) (ac_count_by_behavior a))"

lemma rc_get_empty: "rc_by_root c = [] \<Longrightarrow> rc_get c = Map.empty"
  by (simp add: rc_get_def fun_eq_iff)

lemma buckets_empty: "buckets_ok Map.empty (replicate bucket_count [])"
  by (simp add: buckets_ok_def slot_def)

lemma new_aec_inv: "aec_inv cr B (new_aec n m latency)"
proof -
  have "rc_get default_root_container = Map.empty"
    by (rule rc_get_empty) (simp add: default_root_container_def)
  then show ?thesis
    using buckets_empty new_recently_confirmed_inv
    by (simp add: aec_inv_def new_aec_def rc_ok_def entries_ok_def routes_ok_def counts_ok_def with_behavior_def
        cache_ok_def cooldown_inv_def default_cooldown_def)
      (simp add: default_root_container_def new_recently_confirmed_def)
qed

lemma aec_inv_notify [simp]: "aec_inv cr B (ac_notify ev a) = aec_inv cr B a"
  by (simp add: aec_inv_def ac_notify_def)

lemma aec_inv_observer [simp]:
  "aec_inv cr B (a\<lparr> ac_observer := obs \<rparr>) = aec_inv cr B a"
  "aec_inv cr B (a\<lparr> ac_observer := obs, ac_roots := c \<rparr>) = aec_inv cr B (a\<lparr> ac_roots := c \<rparr>)"
  by (simp_all add: aec_inv_def)

lemma set_cooldown_keeps: "aec_inv cr B a \<Longrightarrow> aec_inv cr B (ac_set_cooldown b r a)"
  using set_cooldown_inv [of "ac_cooldown a" b r]
  by (auto simp: ac_set_cooldown_def Let_def aec_inv_def split: prod.splits) (simp_all add: ac_notify_def)

lemma rcc_root_exists_iff: "rcc_inv c \<Longrightarrow> rcc_root_exists c r \<longleftrightarrow> (\<exists>h. rcc_by_hash c h = Some r)"
  by (auto simp: rcc_inv_def rcc_links_def rcc_root_exists_def)

lemma erase_by_hash: "rcc_by_hash (rcc_erase c h) g = Some r \<Longrightarrow> rcc_by_hash c g = Some r"
  by (auto simp: rcc_erase_def split: option.splits if_splits)

lemma recently_confirmed_keeps:
  assumes "aec_inv cr B a"
  shows "aec_inv cr B (remove_recently_confirmed h a)" "aec_inv cr B (clear_recently_confirmed a)"
proof -
  have "cache_ok cr B (rc_get (ac_roots a)) (rcc_erase (ac_recently_confirmed a) h)"
    using assms erase_by_hash rcc_erase_refines(1) [of "ac_recently_confirmed a" h]
    unfolding aec_inv_def cache_ok_def by (metis rcc_root_exists_iff)
  then show "aec_inv cr B (remove_recently_confirmed h a)"
    using assms by (simp add: aec_inv_def remove_recently_confirmed_def)
  have "cache_ok cr B (rc_get (ac_roots a)) (rcc_clear (ac_recently_confirmed a))"
    using rcc_clear_refines by (simp add: cache_ok_def rcc_clear_def rcc_root_exists_def)
  then show "aec_inv cr B (clear_recently_confirmed a)"
    using assms by (simp add: aec_inv_def clear_recently_confirmed_def)
qed

lemma stop_keeps:
  assumes "aec_inv cr B a"
  shows "aec_inv cr B (ac_stop a)"
proof -
  have "length (rc_buckets (ac_roots a)) = bucket_count"
    using assms by (auto simp: aec_inv_def rc_ok_def buckets_ok_def split: if_splits)
  moreover have "rc_get (rc_clear (ac_roots a)) = Map.empty"
    by (rule rc_get_empty) (simp add: rc_clear_def)
  ultimately show ?thesis
    using assms by (simp add: aec_inv_def ac_stop_def cache_ok_def) (simp add: rc_clear_def map_replicate_const)
qed

section \<open>Changing one election\<close>

lemma aec_inv_cases:
  assumes "aec_inv cr B a" "rc_get (ac_roots a) r = Some en"
  shows "\<not> ac_stopped a" "rc_ok cr B (ac_roots a)" "entry_ok cr B r en"
proof -
  show "\<not> ac_stopped a"
    using assms rc_get_empty [of "ac_roots a"] by (auto simp: aec_inv_def split: if_splits)
  then show "rc_ok cr B (ac_roots a)" using assms by (simp add: aec_inv_def)
  then show "entry_ok cr B r en" using assms(2) by (simp add: rc_ok_def entries_ok_def)
qed

lemma set_election_keeps:
  assumes inv: "aec_inv cr B a" and en: "rc_get (ac_roots a) r = Some en"
    and e: "election_inv cr e" "same_shape (en_election en) e"
  shows "aec_inv cr B (a\<lparr> ac_roots := rc_set_election r e (ac_roots a) \<rparr>)"
proof -
  note ok = aec_inv_cases [OF inv en]
  have "cache_ok cr B ((rc_get (ac_roots a))(r \<mapsto> en\<lparr> en_election := e \<rparr>)) (ac_recently_confirmed a)"
    using inv en by (auto simp: aec_inv_def cache_ok_def)
  then show ?thesis
    using inv ok(1) set_election_ok [OF ok(2) en e] by (simp add: aec_inv_def rc_get_set_election [OF en])
qed

lemma entry_inv: "entry_ok cr B r en \<Longrightarrow> election_inv cr (en_election en)"
  by (simp add: entry_ok_def)

lemma same_shape_simple [simp]:
  "same_shape e (voted cr e vt t)" "same_shape e (el_cancel e)" "same_shape e (fst (el_force_confirm e))"
  "same_shape e (el_transition_active e)" "same_shape e (el_transition_time e now)"
  by (simp_all add: same_shape_def voted_def el_cancel_def el_force_confirm_def el_transition_active_def
      el_transition_time_def Let_def split: vote_type.splits election_state.splits)

lemma remove_votes_shape:
  "election_inv cr e \<Longrightarrow> election_inv cr (fold (\<lambda>v e. remove_vote e v) vs e) \<and> same_shape e (fold (\<lambda>v e. remove_vote e v) vs e)"
proof (induction vs arbitrary: e)
  case (Cons v vs)
  have "same_shape e (remove_vote e v)" by (simp add: same_shape_def remove_vote_def)
  with Cons.IH [OF remove_vote_inv [OF Cons.prems, of v]] show ?case by (simp add: same_shape_def)
qed (simp add: same_shape_def)

lemma single_election_ops:
  assumes inv: "aec_inv cr B a"
  shows "aec_inv cr B (set_last_voted cr root vt t a)" "aec_inv cr B (ac_cancel root a)"
    "aec_inv cr B (remove_votes root vs a)" "aec_inv cr B (fst (ac_transition_active h a))"
    "ac_force_confirm h now a = Some a' \<Longrightarrow> aec_inv cr B a'" "aec_inv cr B (fst (confirm_corresponding cr b now a))"
proof -
  note e = entry_inv [OF aec_inv_cases(3) [OF inv]] and keep = set_election_keeps [OF inv]
  show "aec_inv cr B (set_last_voted cr root vt t a)" "aec_inv cr B (ac_cancel root a)"
    using inv keep e transitions_inv by (auto simp: set_last_voted_def ac_cancel_def split: option.splits)
  show "aec_inv cr B (remove_votes root vs a)"
  proof (cases "rc_get (ac_roots a) root")
    case (Some en)
    then show ?thesis using keep [OF Some] remove_votes_shape [OF e [OF Some]] by (simp add: remove_votes_def election_for_root_def)
  qed (use inv in \<open>simp add: remove_votes_def election_for_root_def\<close>)
  show "aec_inv cr B (fst (ac_transition_active h a))"
    using inv keep e transitions_inv
    by (auto simp: ac_transition_active_def election_for_block_def election_for_root_def bind_eq_Some_conv split: option.splits)
  have forced: "aec_inv cr B (a\<lparr> ac_roots := rc_set_election r (fst (el_force_confirm (en_election en))) (ac_roots a) \<rparr>)"
    and cancelled: "aec_inv cr B (a\<lparr> ac_roots := rc_set_election r (el_cancel (en_election en)) (ac_roots a) \<rparr>)"
    if en: "rc_get (ac_roots a) r = Some en" for r en
    using keep [OF en] transitions_inv [OF e [OF en]] by simp_all
  show "aec_inv cr B (fst (confirm_corresponding cr b now a))"
  proof (cases "rc_get (ac_roots a) (block_qualified_root (sv_block b))")
    case (Some en)
    then show ?thesis using forced [OF Some] cancelled [OF Some] by (simp add: confirm_corresponding_def Let_def)
  qed (use inv in \<open>simp add: confirm_corresponding_def\<close>)
  show "aec_inv cr B a'" if run: "ac_force_confirm h now a = Some a'"
  proof -
    obtain e1 where e1: "election_for_block (ac_roots a) h = Some e1"
      using run by (auto simp: ac_force_confirm_def split: option.splits)
    then obtain r en where r: "rc_vote_router (ac_roots a) h = Some r" "rc_get (ac_roots a) r = Some en" "e1 = en_election en"
      by (auto simp: election_for_block_def election_for_root_def bind_eq_Some_conv)
    then show ?thesis using run e1 forced [OF r(2)]
      by (auto simp: ac_force_confirm_def case_prod_unfold Let_def split: if_splits)
  qed
qed

lemma confirm_dependent_elections_keeps:
  "aec_inv cr B a \<Longrightarrow> aec_inv cr B (confirm_dependent_elections cr confirmed now a)"
proof (induction confirmed arbitrary: a)
  case (Cons x confirmed)
  obtain b source where x: "x = (b, source)" by (cases x)
  obtain a' ce where step: "confirm_dependent_election cr b source now a = (a', ce)" by fastforce
  have "aec_inv cr B a'"
    using single_election_ops(6) [OF Cons.prems, of b now] Cons.prems step
    by (auto simp: confirm_dependent_election_def split: option.splits if_splits)
  then show ?case using Cons.IH by (simp add: x step block_confirmed_def)
qed simp

section \<open>Starting an election\<close>

lemma insert_new_election_ok:
  assumes inv: "aec_inv cr B a" and go: "\<not> ac_stopped a" and free: "collision_free cr B"
    and b: "sv_block (rq_block rq) \<in> B" "sv_hash cr (rq_block rq) \<noteq> 0"
    and root: "r = block_qualified_root (sv_block (rq_block rq))"
    and new: "rc_get (ac_roots a) r = None" "\<not> rcc_root_exists (ac_recently_confirmed a) r"
  obtains a' where "insert_new_election cr rq now a = Some a'" "aec_inv cr B a'" "rc_get (ac_roots a') r \<noteq> None"
proof -
  let ?e = "new_election cr (rq_block rq) (rq_behavior rq) (ac_base_latency a) now"
  let ?en = "\<lparr> en_root = r, en_election = ?e, en_priority = rq_priority rq \<rparr>"
  have ok: "rc_ok cr B (ac_roots a)" and cnt: "counts_ok (rc_get (ac_roots a)) (ac_count_by_behavior a)"
    using inv go by (simp_all add: aec_inv_def)
  obtain c where c: "rc_insert cr ?en (ac_roots a) = Some c" "rc_ok cr B c" "rc_get c = (rc_get (ac_roots a))(r \<mapsto> ?en)"
    using rc_insert_ok [OF ok free b root new(1) refl] by blast
  let ?a = "ac_notify (ElectionStarted (sv_hash cr (rq_block rq)) r) (count_inc (rq_behavior rq) (a\<lparr> ac_roots := c \<rparr>))"
  have "el_behavior ?e = rq_behavior rq" by (simp add: new_election_def)
  then have "counts_ok (rc_get c) (ac_count_by_behavior ?a)"
    using counts_insert [OF cnt finite_rc_get new(1), of ?en] by (simp add: c(3) count_inc_def ac_notify_def)
  moreover have "cache_ok cr B (rc_get c) (ac_recently_confirmed a)"
    using inv new by (auto simp: aec_inv_def cache_ok_def c(3))
  ultimately have "aec_inv cr B ?a" using inv go c(2) by (simp add: aec_inv_def count_inc_def ac_notify_def)
  moreover have "rc_get (ac_roots ?a) r \<noteq> None" by (simp add: count_inc_def ac_notify_def c(3))
  moreover have "insert_new_election cr rq now a = Some ?a" using c(1) by (simp add: insert_new_election_def root)
  ultimately show thesis by (rule that [rotated])
qed

lemma try_upgrade_keeps:
  assumes inv: "aec_inv cr B a" and go: "\<not> ac_stopped a"
    and root: "r = block_qualified_root (sv_block (rq_block rq))"
  obtains a' upgrade where "try_upgrade_priority_election rq a = Some (a', upgrade)" "aec_inv cr B a'"
    "ac_recently_confirmed a' = ac_recently_confirmed a" "ac_stopped a' = ac_stopped a"
    "rc_get (ac_roots a') r = None \<longleftrightarrow> rc_get (ac_roots a) r = None"
    "upgrade = Inr False \<longleftrightarrow> rc_get (ac_roots a) r = None"
proof -
  have ok: "rc_ok cr B (ac_roots a)" and cnt: "counts_ok (rc_get (ac_roots a)) (ac_count_by_behavior a)"
    using inv go by (simp_all add: aec_inv_def)
  obtain c upgraded previous where c: "try_upgrade_to_priority_election rq (ac_roots a) = Some (c, upgraded, previous)"
    "rc_ok cr B c" "previous = map_option (\<lambda>en. el_behavior (en_election en)) (rc_get (ac_roots a) r)"
    "\<not> upgraded \<longrightarrow> rc_get c = rc_get (ac_roots a)"
    "upgraded \<longrightarrow> rq_behavior rq = Priority \<and> (\<exists>en. rc_get (ac_roots a) r = Some en \<and>
      rc_get c = (rc_get (ac_roots a))(r \<mapsto> en\<lparr> en_election := (en_election en)\<lparr> el_behavior := Priority \<rparr> \<rparr>))"
    by (rule try_upgrade_ok [OF ok root])
  show thesis
  proof (cases upgraded)
    case False
    let ?a = "a\<lparr> ac_roots := c \<rparr>"
    have "aec_inv cr B ?a" using inv go c False cnt by (simp add: aec_inv_def)
    then show thesis using c False
      by (intro that [of ?a "if previous \<noteq> None then Inl DuplicateElection else Inr False"])
        (auto simp: try_upgrade_priority_election_def)
  next
    case True
    then obtain en where en: "rc_get (ac_roots a) r = Some en" and pr: "rq_behavior rq = Priority"
      and get: "rc_get c = (rc_get (ac_roots a))(r \<mapsto> en\<lparr> en_election := (en_election en)\<lparr> el_behavior := Priority \<rparr> \<rparr>)"
      using c(5) by blast
    let ?f = "ac_count_by_behavior a" and ?b = "el_behavior (en_election en)"
    let ?f1 = "?f(?b := ?f ?b - 1)"
    note er = counts_erase [OF cnt finite_rc_get en]
    have "counts_ok (((rc_get (ac_roots a))(r := None))(r \<mapsto> en\<lparr> en_election := (en_election en)\<lparr> el_behavior := Priority \<rparr> \<rparr>))
        (?f1(Priority := ?f1 Priority + 1))"
      using counts_insert [OF er(2), of r "en\<lparr> en_election := (en_election en)\<lparr> el_behavior := Priority \<rparr> \<rparr>"]
        finite_rc_get [of "ac_roots a"] by simp
    then have cnt': "counts_ok (rc_get c) (?f1(Priority := ?f1 Priority + 1))" by (simp add: get)
    let ?a = "a\<lparr> ac_roots := c, ac_count_by_behavior := ?f1(Priority := ?f1 Priority + 1) \<rparr>"
    have "cache_ok cr B (rc_get c) (ac_recently_confirmed a)"
      using inv en by (auto simp: aec_inv_def cache_ok_def get)
    then have "aec_inv cr B ?a" using inv go c(2) cnt' by (simp add: aec_inv_def)
    moreover have "try_upgrade_priority_election rq a = Some (?a, Inr True)"
      using c(1,3) True en er(1) pr by (simp add: try_upgrade_priority_election_def count_dec_def count_inc_def)
    ultimately show thesis using en by (intro that [of ?a "Inr True"]) (simp_all add: get)
  qed
qed

lemma insert_ok:
  assumes inv: "aec_inv cr B a" and free: "collision_free cr B"
    and b: "sv_block (rq_block rq) \<in> B" "sv_hash cr (rq_block rq) \<noteq> 0"
    and root: "r = block_qualified_root (sv_block (rq_block rq))"
  obtains a' res where "ac_insert cr rq now a = Some (a', res)" "aec_inv cr B a'"
    "ac_stopped a \<longrightarrow> res = Inl Stopped \<and> a' = a"
    "\<not> ac_stopped a \<and> rcc_root_exists (ac_recently_confirmed a) r \<longrightarrow> res = Inl RecentlyConfirmed \<and> a' = a"
    "\<not> ac_stopped a \<and> \<not> rcc_root_exists (ac_recently_confirmed a) r \<longrightarrow> rc_get (ac_roots a') r \<noteq> None"
proof (cases "ac_stopped a \<or> rcc_root_exists (ac_recently_confirmed a) r")
  case True
  then show thesis using inv root
    by (intro that [of a "Inl (if ac_stopped a then Stopped else RecentlyConfirmed)"])
      (auto simp: ac_insert_def ensure_not_stopped_def ensure_not_recently_confirmed_def)
next
  case False
  then have go: "\<not> ac_stopped a" and fresh: "\<not> rcc_root_exists (ac_recently_confirmed a) r" by auto
  obtain a1 upgrade where a1: "try_upgrade_priority_election rq a = Some (a1, upgrade)" "aec_inv cr B a1"
    "ac_recently_confirmed a1 = ac_recently_confirmed a" "ac_stopped a1 = ac_stopped a"
    "rc_get (ac_roots a1) r = None \<longleftrightarrow> rc_get (ac_roots a) r = None"
    "upgrade = Inr False \<longleftrightarrow> rc_get (ac_roots a) r = None"
    by (rule try_upgrade_keeps [OF inv go root])
  have run: "ac_insert cr rq now a = (case upgrade of
      Inl err \<Rightarrow> Some (a1, Inl err)
    | Inr True \<Rightarrow> Some (a1, Inr ())
    | Inr False \<Rightarrow> do { a \<leftarrow> insert_new_election cr rq now a1; Some (a, Inr ()) })"
    using go fresh root a1(1) by (simp add: ac_insert_def ensure_not_stopped_def ensure_not_recently_confirmed_def)
  show thesis
  proof (cases "upgrade = Inr False")
    case True
    have fresh1: "\<not> ac_stopped a1" "rc_get (ac_roots a1) r = None" "\<not> rcc_root_exists (ac_recently_confirmed a1) r"
      using True a1 go fresh by simp_all
    obtain a2 where "insert_new_election cr rq now a1 = Some a2" "aec_inv cr B a2" "rc_get (ac_roots a2) r \<noteq> None"
      by (rule insert_new_election_ok [OF a1(2) fresh1(1) free b root fresh1(2,3)])
    then show thesis using run True False by (intro that [of a2 "Inr ()"]) simp_all
  next
    case nf: False
    then have "rc_get (ac_roots a1) r \<noteq> None" using a1 by simp
    then show thesis using run nf False a1(2)
      by (intro that [of a1 "case upgrade of Inl err \<Rightarrow> Inl err | Inr _ \<Rightarrow> Inr ()"])
        (auto split: sum.splits bool.splits)
  qed
qed

section \<open>Forks of active elections\<close>

lemma fork_change_ok:
  assumes inv: "aec_inv cr B a" and en: "rc_get (ac_roots a) r = Some en" and free: "collision_free cr B"
    and fork: "fork \<in> B" "block_qualified_root fork = r"
    and e: "election_inv cr e" "el_behavior e = el_behavior (en_election en)" "el_qualified_root e = el_qualified_root (en_election en)"
    and blocks: "\<forall>b \<in> snd ` set (el_candidates e). mb_block b \<in> B"
    and gone: "gone \<subseteq> cands en" "candidate_hashes e = cands en - gone \<union> {block_hash_of cr fork}"
    and R': "\<And>h. R' h = (if h = block_hash_of cr fork then Some r else if h \<in> gone then None else rc_vote_router (ac_roots a) h)"
  shows "aec_inv cr B (a\<lparr> ac_roots := (rc_set_election r e (ac_roots a))\<lparr> rc_vote_router := R' \<rparr> \<rparr>)"
proof -
  let ?en = "en\<lparr> en_election := e \<rparr>" and ?c = "(rc_set_election r e (ac_roots a))\<lparr> rc_vote_router := R' \<rparr>"
  note c = aec_inv_cases [OF inv en]
  have get: "rc_get ?c = (rc_get (ac_roots a))(r \<mapsto> ?en)" by (simp add: rc_get_set_election [OF en])
  have E: "entries_ok cr B (rc_get (ac_roots a))" and R: "routes_ok (rc_get (ac_roots a)) (rc_vote_router (ac_roots a))"
    and bs: "buckets_ok (rc_get (ac_roots a)) (rc_buckets (ac_roots a))" and d: "distinct (map fst (rc_by_root (ac_roots a)))"
    using c(2) by (simp_all add: rc_ok_def)
  have "entry_ok cr B r ?en" using c(3) e blocks by (simp add: entry_ok_def)
  then have "entries_ok cr B (rc_get ?c)" using E unfolding get by (simp add: entries_ok_def)
  moreover have "routes_ok (rc_get ?c) R'"
    unfolding get
  proof (rule routes_add_fork [OF R en _ gone(1), where f = "block_hash_of cr fork"])
    fix r' en' assume "r' \<noteq> r" "rc_get (ac_roots a) r' = Some en'"
    then show "block_hash_of cr fork \<notin> cands en'" using foreign_candidate [OF free E fork(1)] fork(2) by blast
  qed (use gone(2) R' in simp_all)
  moreover have "buckets_ok (rc_get ?c) (rc_buckets (ac_roots a))"
    unfolding get using e(2) by (intro buckets_same [OF bs en]) (simp_all add: en_bucket_def)
  moreover have "counts_ok (rc_get ?c) (ac_count_by_behavior a)"
    unfolding get using inv c(1) e(2) en by (intro counts_same [of _ _ _ en]) (simp_all add: aec_inv_def)
  moreover have "cache_ok cr B (rc_get ?c) (ac_recently_confirmed a)"
    unfolding get using inv en by (auto simp: aec_inv_def cache_ok_def)
  ultimately show ?thesis using inv c(1) d by (simp add: aec_inv_def rc_ok_def)
qed

lemma candidate_hash:
  assumes "election_inv cr e" "map_of (el_candidates e) h = Some b"
  shows "mb_hash cr b = h" "h \<in> candidate_hashes e"
  using assms map_of_key [OF assms(2)] unfolding election_inv_def candidates_ok_def candidate_ok_def by blast+

lemma connect_connect: "connect h r (c\<lparr> rc_vote_router := R \<rparr>) = c\<lparr> rc_vote_router := R(h \<mapsto> r) \<rparr>"
  by (simp add: connect_def)

lemma snd_delete: "snd ` set (AList.delete k al) \<subseteq> snd ` set al"
  by (induction al) auto

lemma snd_update: "snd ` set (AList.update k v al) \<subseteq> insert v (snd ` set al)"
  by (induction al) auto

lemma try_add_fork_ok:
  assumes inv: "aec_inv cr B a" and free: "collision_free cr B" and fork: "fork \<in> B" "block_hash_of cr fork \<noteq> 0"
  obtains a' added where "ac_try_add_fork cr fork tally a = Some (a', added)" "aec_inv cr B a'"
    "added \<longrightarrow> rc_vote_router (ac_roots a') (block_hash_of cr fork) = Some (block_qualified_root fork)"
proof (cases "rc_get (ac_roots a) (block_qualified_root fork)")
  case None
  then show thesis using inv by (intro that [of a False]) (simp_all add: ac_try_add_fork_def)
next
  case (Some en)
  let ?r = "block_qualified_root fork" and ?f = "block_hash_of cr fork" and ?e = "en_election en"
  have ent: "entry_ok cr B ?r en" by (rule aec_inv_cases(3) [OF inv Some])
  then have ei: "election_inv cr ?e" and root: "?r = el_qualified_root ?e"
    and blk: "\<forall>b \<in> snd ` set (el_candidates ?e). mb_block b \<in> B"
    by (simp_all add: entry_ok_def)
  obtain e result where e: "el_try_add_fork cr ?e fork tally = Some (e, result)" "election_inv cr e"
    using try_add_fork_spec [OF ei fork(2) root, of tally] by blast
  have shape: "el_behavior e = el_behavior ?e" "el_qualified_root e = el_qualified_root ?e"
    "fork_candidates cr ?e fork result (el_candidates e)"
    using try_add_fork_shape [OF e(1)] by blast+
  note change = fork_change_ok [OF inv Some free fork(1) refl e(2) shape(1,2)]
  show thesis
  proof (cases result)
    case Added
    then have c: "el_candidates e = AList.update ?f (Unsaved fork) (el_candidates ?e)"
      using shape(3) by (simp add: fork_candidates_def)
    have "aec_inv cr B (a\<lparr> ac_roots := (rc_set_election ?r e (ac_roots a))\<lparr> rc_vote_router := (rc_vote_router (ac_roots a))(?f \<mapsto> ?r) \<rparr> \<rparr>)"
    proof (rule change [where gone = "{}"])
      show "\<forall>b \<in> snd ` set (el_candidates e). mb_block b \<in> B"
        using snd_update [of ?f "Unsaved fork" "el_candidates ?e"] blk fork(1) unfolding c by fastforce
    qed (auto simp: c dom_update)
    then show thesis using Some e(1) Added
      by (intro that [of "ac_notify (BlockAddedToElection ?f)
            (a\<lparr> ac_roots := connect ?f ?r (rc_set_election ?r e (ac_roots a)) \<rparr>)" True])
        (simp_all add: ac_try_add_fork_def ac_notify_def connect_def)
  next
    case (Replaced b)
    then obtain h where h: "map_of (el_candidates ?e) h = Some b"
      and c: "el_candidates e = AList.update ?f (Unsaved fork) (AList.delete h (el_candidates ?e))"
      using shape(3) by (auto simp: fork_candidates_def)
    note hb = candidate_hash [OF ei h]
    have "aec_inv cr B (a\<lparr> ac_roots := (rc_set_election ?r e (ac_roots a))\<lparr> rc_vote_router := (rc_vote_router (ac_roots a))(h := None, ?f \<mapsto> ?r) \<rparr> \<rparr>)"
    proof (rule change [where gone = "{h}"])
      show "\<forall>b \<in> snd ` set (el_candidates e). mb_block b \<in> B"
        using snd_update [of ?f "Unsaved fork" "AList.delete h (el_candidates ?e)"] snd_delete [of h "el_candidates ?e"] blk fork(1)
        unfolding c by fastforce
      show "{h} \<subseteq> cands en" using hb(2) by simp
      have "set (map fst (AList.delete h (el_candidates ?e))) = cands en - {h}" unfolding delete_keys by auto
      then show "candidate_hashes e = cands en - {h} \<union> {?f}" by (simp add: c dom_update)
    qed auto
    then show thesis using Some e(1) Replaced hb(1)
      by (intro that [of "(ac_notify (BlockAddedToElection ?f) (ac_notify (BlockDiscarded (mb_block b))
            (a\<lparr> ac_roots := disconnect h (rc_set_election ?r e (ac_roots a)) \<rparr>)))
            \<lparr> ac_roots := connect ?f ?r (disconnect h (rc_set_election ?r e (ac_roots a))) \<rparr>" True])
        (simp_all add: ac_try_add_fork_def ac_notify_def connect_def disconnect_def)
  qed (use set_election_keeps [OF inv Some e(2)] shape Some e(1) in
      \<open>auto simp: ac_try_add_fork_def fork_candidates_def same_shape_def intro: that\<close>)
qed

section \<open>Ending elections\<close>

definition counts_changed :: "aec \<Rightarrow> aec \<Rightarrow> bool" where
  "counts_changed a a' \<longleftrightarrow> (\<exists>obs f. a' = a\<lparr> ac_observer := obs, ac_count_by_behavior := f \<rparr>)"

lemma counts_changed_trans: "counts_changed a b \<Longrightarrow> counts_changed b c \<Longrightarrow> counts_changed a c"
  unfolding counts_changed_def by force

lemma counts_changed_refl: "counts_changed a a"
  unfolding counts_changed_def by (intro exI [of _ "ac_observer a"] exI [of _ "ac_count_by_behavior a"]) simp

lemma counts_changed_fields:
  "counts_changed a a' \<Longrightarrow> ac_roots a' = ac_roots a \<and> ac_recently_confirmed a' = ac_recently_confirmed a \<and>
    ac_stopped a' = ac_stopped a \<and> ac_cooldown a' = ac_cooldown a"
  by (auto simp: counts_changed_def)

lemma cleanup_election_ok:
  assumes "counts_ok E (ac_count_by_behavior a)" "finite (dom E)" "E r = Some en"
  obtains a' where "cleanup_election en a = Some a'" "counts_changed a a'"
    "counts_ok (E(r := None)) (ac_count_by_behavior a')"
proof -
  let ?b = "el_behavior (en_election en)"
  let ?f = "(ac_count_by_behavior a)(?b := ac_count_by_behavior a ?b - 1)"
  let ?a = "ac_notify (ElectionEndedEvent (en_election en)) (a\<lparr> ac_count_by_behavior := ?f \<rparr>)"
  note er = counts_erase [OF assms]
  have "cleanup_election en a = Some ?a" using er(1) by (simp add: cleanup_election_def count_dec_def)
  moreover have "?a = a\<lparr> ac_observer := notify (ElectionEndedEvent (en_election en)) (ac_observer a), ac_count_by_behavior := ?f \<rparr>"
    by (simp add: ac_notify_def)
  then have "counts_changed a ?a" unfolding counts_changed_def by blast
  ultimately show thesis using er(2) by (intro that [of ?a]) (simp_all add: ac_notify_def)
qed

text \<open>Ending elections \<open>ens\<close> turns the elections \<open>E\<close> into \<open>E'\<close> and keeps the counters right.\<close>

definition ends :: "elections \<Rightarrow> entry list \<Rightarrow> elections \<Rightarrow> bool" where
  "ends E ens E' \<longleftrightarrow> (\<forall>a. counts_ok E (ac_count_by_behavior a) \<longrightarrow>
    (\<exists>a'. cleanup_elections ens a = Some a' \<and> counts_changed a a' \<and> counts_ok E' (ac_count_by_behavior a')))"

lemma ends_nil: "ends E [] E"
  using counts_changed_refl by (auto simp: ends_def)

lemma cleanup_append: "cleanup_elections (xs @ ys) a = cleanup_elections xs a \<bind> cleanup_elections ys"
proof (induction xs arbitrary: a)
  case (Cons x xs)
  then show ?case by (cases "cleanup_election x a") simp_all
qed simp

lemma ends_append:
  assumes "ends E xs E'" "ends E' ys E''"
  shows "ends E (xs @ ys) E''"
  unfolding ends_def cleanup_append
proof (intro allI impI)
  fix a :: aec
  assume "counts_ok E (ac_count_by_behavior a)"
  then obtain a1 where a1: "cleanup_elections xs a = Some a1" "counts_changed a a1" "counts_ok E' (ac_count_by_behavior a1)"
    using assms(1) unfolding ends_def by blast
  then obtain a2 where "cleanup_elections ys a1 = Some a2" "counts_changed a1 a2" "counts_ok E'' (ac_count_by_behavior a2)"
    using assms(2) unfolding ends_def by blast
  with a1 show "\<exists>a'. cleanup_elections xs a \<bind> cleanup_elections ys = Some a' \<and> counts_changed a a' \<and>
      counts_ok E'' (ac_count_by_behavior a')"
    using counts_changed_trans by auto
qed

lemma ends_one:
  assumes "finite (dom E)" "E r = Some en"
  shows "ends E [en] (E(r := None))"
  unfolding ends_def
proof (intro allI impI)
  fix a :: aec
  assume "counts_ok E (ac_count_by_behavior a)"
  then obtain a' where "cleanup_election en a = Some a'" "counts_changed a a'"
    "counts_ok (E(r := None)) (ac_count_by_behavior a')"
    by (rule cleanup_election_ok [OF _ assms])
  then show "\<exists>a'. cleanup_elections [en] a = Some a' \<and> counts_changed a a' \<and>
      counts_ok (E(r := None)) (ac_count_by_behavior a')" by simp
qed

lemma ends_same:
  assumes "ends (E(r \<mapsto> en')) ens E'" "E r = Some en" "el_behavior (en_election en') = el_behavior (en_election en)"
  shows "ends E ens E'"
  using assms counts_same unfolding ends_def by blast

lemma erase_all_ok:
  "rc_ok cr B c \<Longrightarrow> \<exists>c' removed. erase_all rs c = Some (c', removed) \<and> rc_ok cr B c' \<and>
    rc_get c' = rc_get c |` (- set rs) \<and> ends (rc_get c) removed (rc_get c')"
proof (induction rs arbitrary: c)
  case Nil
  then show ?case using ends_nil by simp
next
  case (Cons r rs)
  show ?case
  proof (cases "rc_get c r")
    case None
    then have "rc_get c |` (- set rs) = rc_get c |` (- set (r # rs))"
      by (auto simp: restrict_map_def fun_eq_iff)
    moreover have "erase_all (r # rs) c = erase_all rs c \<bind> (\<lambda>(c, removed). Some (c, removed))"
      using None by (simp add: rc_erase_def)
    ultimately show ?thesis using Cons.IH [OF Cons.prems] by auto
  next
    case (Some en)
    obtain c1 where c1: "rc_erase r c = Some (c1, Some en)" "rc_ok cr B c1" "rc_get c1 = (rc_get c)(r := None)"
      using rc_erase_ok [OF Cons.prems Some] by blast
    obtain c2 removed where c2: "erase_all rs c1 = Some (c2, removed)" "rc_ok cr B c2"
      "rc_get c2 = rc_get c1 |` (- set rs)" "ends (rc_get c1) removed (rc_get c2)"
      using Cons.IH [OF c1(2)] by blast
    have "ends (rc_get c) ([en] @ removed) (rc_get c2)"
      by (rule ends_append [OF ends_one [OF finite_rc_get Some] c2(4) [unfolded c1(3)]])
    moreover have "rc_get c2 = rc_get c |` (- set (r # rs))"
      by (auto simp: c2(3) c1(3) restrict_map_def fun_eq_iff)
    ultimately show ?thesis using c1(1) c2(1,2) by simp
  qed
qed

lemma end_elections:
  assumes inv: "aec_inv cr B a" and go: "\<not> ac_stopped a" and c: "rc_ok cr B c" "ends (rc_get (ac_roots a)) ens (rc_get c)"
    and cache: "cache_ok cr B (rc_get c) (ac_recently_confirmed a)"
  obtains a' where "cleanup_elections ens (a\<lparr> ac_roots := c \<rparr>) = Some a'" "aec_inv cr B a'" "ac_roots a' = c"
    "ac_recently_confirmed a' = ac_recently_confirmed a" "ac_stopped a' = ac_stopped a"
proof -
  have "counts_ok (rc_get (ac_roots a)) (ac_count_by_behavior (a\<lparr> ac_roots := c \<rparr>))"
    using inv go by (simp add: aec_inv_def)
  then obtain a' where a': "cleanup_elections ens (a\<lparr> ac_roots := c \<rparr>) = Some a'" "counts_changed (a\<lparr> ac_roots := c \<rparr>) a'"
    "counts_ok (rc_get c) (ac_count_by_behavior a')"
    using c(2) unfolding ends_def by blast
  then show thesis
    using counts_changed_fields [OF a'(2)] inv go c(1) cache by (intro that [of a']) (simp_all add: aec_inv_def)
qed

lemma cache_ok_fewer:
  "cache_ok cr B E c \<Longrightarrow> (\<And>r. E r = None \<Longrightarrow> E' r = None) \<Longrightarrow> cache_ok cr B E' c"
  by (auto simp: cache_ok_def)

lemma erase_ok:
  assumes inv: "aec_inv cr B a"
  obtains a' where "ac_erase r a = Some (a', rc_get (ac_roots a) r \<noteq> None)" "aec_inv cr B a'"
    "rc_get (ac_roots a') = (rc_get (ac_roots a))(r := None)" "ac_recently_confirmed a' = ac_recently_confirmed a"
proof (cases "rc_get (ac_roots a) r")
  case None
  then show thesis using inv by (intro that [of a]) (simp_all add: ac_erase_def rc_erase_def fun_upd_idem)
next
  case (Some en)
  note ok = aec_inv_cases [OF inv Some]
  obtain c where c: "rc_erase r (ac_roots a) = Some (c, Some en)" "rc_ok cr B c" "rc_get c = (rc_get (ac_roots a))(r := None)"
    using rc_erase_ok [OF ok(2) Some] by blast
  have cache: "cache_ok cr B (rc_get c) (ac_recently_confirmed a)"
    using inv by (auto simp: aec_inv_def c(3) elim: cache_ok_fewer)
  obtain a' where a': "cleanup_elections [en] (a\<lparr> ac_roots := c \<rparr>) = Some a'" "aec_inv cr B a'" "ac_roots a' = c"
    "ac_recently_confirmed a' = ac_recently_confirmed a"
    using end_elections [OF inv ok(1) c(2) ends_one [OF finite_rc_get Some, folded c(3)] cache] by blast
  then show thesis using Some c by (intro that [of a']) (auto simp: ac_erase_def bind_eq_Some_conv)
qed

lemma map_elections_ok:
  assumes ok: "rc_ok cr B c" and e: "\<And>e. election_inv cr e \<Longrightarrow> election_inv cr (f e)" "\<And>e. same_shape e (f e)"
  defines "c' \<equiv> c\<lparr> rc_by_root := map (\<lambda>(r, en). (r, en\<lparr> en_election := f (en_election en) \<rparr>)) (rc_by_root c) \<rparr>"
  shows "rc_ok cr B c'" "counts_ok (rc_get c) n \<Longrightarrow> counts_ok (rc_get c') n" "rc_get c' r = None \<longleftrightarrow> rc_get c r = None"
proof -
  have get: "rc_get c' r = map_option (\<lambda>en. en\<lparr> en_election := f (en_election en) \<rparr>) (rc_get c r)" for r
    by (simp add: c'_def rc_get_def map_of_map)
  have shape: "el_candidates (f e) = el_candidates e" "el_behavior (f e) = el_behavior e"
    "el_qualified_root (f e) = el_qualified_root e" for e
    using e(2) by (simp_all add: same_shape_def)
  show "rc_get c' r = None \<longleftrightarrow> rc_get c r = None" by (simp add: get)
  have "map fst (rc_by_root c') = map fst (rc_by_root c)" by (simp add: c'_def comp_def case_prod_unfold)
  moreover have "rc_vote_router c' = rc_vote_router c" "rc_buckets c' = rc_buckets c" by (simp_all add: c'_def)
  moreover have "entry_ok cr B r en \<Longrightarrow> entry_ok cr B r (en\<lparr> en_election := f (en_election en) \<rparr>)" for r en
    using e(1) by (simp add: entry_ok_def shape)
  then have "entries_ok cr B (rc_get c')" using ok by (auto simp: rc_ok_def entries_ok_def get)
  moreover have "routes_ok (rc_get c') (rc_vote_router c)"
    using ok by (auto simp: rc_ok_def routes_ok_def get shape simp del: set_map)
  moreover have "slot (rc_get c') = slot (rc_get c)"
    by (auto simp: slot_def get en_bucket_def shape fun_eq_iff)
  then have "buckets_ok (rc_get c') (rc_buckets c)" using ok by (simp add: rc_ok_def buckets_ok_def)
  ultimately show "rc_ok cr B c'" using ok by (simp add: rc_ok_def)
  have "with_behavior (rc_get c') = with_behavior (rc_get c)"
    by (auto simp: with_behavior_def get shape fun_eq_iff)
  then show "counts_ok (rc_get c') n" if "counts_ok (rc_get c) n" using that by (simp add: counts_ok_def)
qed

lemma not_drained: "en \<in> set ens \<Longrightarrow> en_root en \<notin> set (map en_root (filter P ens)) \<Longrightarrow> \<not> P en"
  by auto

lemma transition_time_ok:
  assumes inv: "aec_inv cr B a"
  shows "\<exists>a'. ac_transition_time now a = Some a' \<and> aec_inv cr B a' \<and>
    (\<forall>r en. rc_get (ac_roots a') r = Some en \<longrightarrow> \<not> has_ended (el_state (en_election en)))"
proof (cases "ac_stopped a")
  case True
  then have none: "rc_by_root (ac_roots a) = []" using inv by (simp add: aec_inv_def)
  then have same: "a\<lparr> ac_roots := (ac_roots a)\<lparr> rc_by_root := [] \<rparr> \<rparr> = a" by (cases a; cases "ac_roots a") simp
  show ?thesis using inv rc_get_empty [OF none]
    by (simp add: ac_transition_time_def erase_ended_elections_def drain_filter_def none same)
next
  case False
  let ?c = "(ac_roots a)\<lparr> rc_by_root :=
      map (\<lambda>(r, en). (r, en\<lparr> en_election := el_transition_time (en_election en) now \<rparr>)) (rc_by_root (ac_roots a)) \<rparr>"
  have ok: "rc_ok cr B (ac_roots a)" using inv False by (simp add: aec_inv_def)
  note moved = map_elections_ok [OF ok transitions_inv(1) [of cr _ now] same_shape_simple(5) [of _ now]]
  have inv1: "aec_inv cr B (a\<lparr> ac_roots := ?c \<rparr>)"
    using inv False moved by (auto simp: aec_inv_def elim!: cache_ok_fewer)
  let ?P = "\<lambda>en. has_ended (el_state (en_election en))"
  obtain c removed where c: "drain_filter ?P ?c = Some (c, removed)" "rc_ok cr B c"
    "rc_get c = rc_get ?c |` (- set (map en_root (filter ?P (map snd (rc_by_root ?c)))))" "ends (rc_get ?c) removed (rc_get c)"
    using erase_all_ok [OF moved(1), of "map en_root (filter ?P (map snd (rc_by_root ?c)))"] unfolding drain_filter_def by blast
  let ?a = "a\<lparr> ac_roots := ?c \<rparr>"
  have go: "\<not> ac_stopped ?a" and e: "ends (rc_get (ac_roots ?a)) removed (rc_get c)" using False c(4) by simp_all
  have cache: "cache_ok cr B (rc_get c) (ac_recently_confirmed ?a)"
    using inv1 by (auto simp: aec_inv_def c(3) restrict_map_def elim: cache_ok_fewer)
  obtain a' where a': "cleanup_elections removed (?a\<lparr> ac_roots := c \<rparr>) = Some a'" "aec_inv cr B a'" "ac_roots a' = c"
    by (rule end_elections [OF inv1 go c(2) e cache])
  have "\<not> ?P en" if "rc_get c r = Some en" for r en
  proof -
    let ?D = "set (map en_root (filter ?P (map snd (rc_by_root ?c))))"
    have r: "r \<notin> ?D" and en: "rc_get ?c r = Some en"
      using that unfolding c(3) restrict_map_def by (auto simp del: set_map split: if_splits)
    then have root: "en_root en = r" using moved(1) unfolding rc_ok_def entries_ok_def entry_ok_def by blast
    have "en \<in> set (map snd (rc_by_root ?c))"
      using map_of_SomeD [OF en [unfolded rc_get_def]] rev_image_eqI [of _ _ en snd] by (simp only: set_map) force
    then show ?thesis by (rule not_drained) (unfold root, rule r)
  qed
  then show ?thesis using a' c(1) by (simp add: ac_transition_time_def erase_ended_elections_def)
qed

lemma erase_lowest_ok:
  assumes inv: "aec_inv cr B a" and i: "i < bucket_count"
  shows "\<exists>a'. erase_lowest_prio_election i a = Some a' \<and> aec_inv cr B a'"
proof -
  have "length (rc_buckets (ac_roots a)) = bucket_count"
    using inv by (auto simp: aec_inv_def rc_ok_def buckets_ok_def split: if_splits)
  then obtain lowest where l: "lowest_priority i (ac_roots a) = Some lowest" using i by (simp add: lowest_priority_def)
  show ?thesis
  proof (cases lowest)
    case None
    then show ?thesis using l inv by (simp add: erase_lowest_prio_election_def)
  next
    case (Some x)
    obtain a' b where "ac_erase (fst x) a = Some (a', b)" "aec_inv cr B a'"
      using erase_ok [OF inv, of "fst x"] by metis
    then show ?thesis using l Some by (simp add: erase_lowest_prio_election_def case_prod_unfold)
  qed
qed

end
