(* ===== verification/Active_Votes.thy ===== *)
theory Active_Votes
  imports Active_Correct
begin

text \<open>
  Applying votes to the active elections: no panic, the invariant holds afterwards, and every election
  that a vote confirms is remembered in the cache of recently confirmed elections.
\<close>

section \<open>Votes\<close>

lemma update_tallies_behavior: "update_tallies cr e w q = Some e' \<Longrightarrow> el_behavior e' = el_behavior e"
  by (auto simp: update_tallies_def recalculate_tallies_def update_vote_weights_def change_winner_to_def
      update_winner_tally_def try_set_quorum_def try_confirm_def bind_eq_Some_conv split: if_splits option.splits)

lemma update_tallies_ok:
  assumes "election_inv cr e"
  obtains e' where "update_tallies cr e w q = Some e'" "election_inv cr e'" "same_shape e e'"
proof (cases "has_ended (el_state e)")
  case True
  then show thesis using assms by (intro that [of e]) (simp_all add: update_tallies_def same_shape_def)
next
  case False
  obtain e' where e': "update_tallies cr e w q = Some e'" "election_inv cr e'" "el_candidates e' = el_candidates e"
    "el_qualified_root e' = el_qualified_root e"
    by (rule update_tallies_spec [OF assms False])
  then show thesis using update_tallies_behavior [OF e'(1)] by (intro that [OF e'(1,2)]) (simp add: same_shape_def)
qed

lemma apply_vote_to_election_ok:
  assumes inv: "election_inv cr e" and h: "h \<in> candidate_hashes e"
  obtains cache' obs' e' res where "apply_vote_to_election cr args h (cache, obs, e) = Some ((cache', obs', e'), res)"
    "election_inv cr e'" "same_shape e e'"
    "cache' = (if el_is_confirmed e' \<and> \<not> el_is_confirmed e
      then fst (rcc_put cache (el_qualified_root e) (winner_hash cr e')) else cache)"
proof -
  let ?v = "av_the_vote args"
  let ?e = "el_add_vote e (vo_voter ?v) h (vo_time ?v) (av_now args)"
  show thesis
  proof (cases "el_is_confirmed e \<or> (\<exists>err. vote_refusal args h e = Inl err)")
    case True
    then obtain err where "apply_vote_to_election cr args h (cache, obs, e) = Some ((cache, obs, e), Inl err)"
      by (cases "el_is_confirmed e") (auto simp: apply_vote_to_election_def)
    then show thesis using inv by (rule that) (simp_all add: same_shape_def)
  next
    case False
    then have live: "\<not> el_is_confirmed e" and ok: "vote_refusal args h e = Inr ()"
      by (simp, cases "vote_refusal args h e") auto
    obtain e1 where e1: "update_tallies cr ?e (av_rep_weights args) (qs_quorum_delta (av_quorum_specs args)) = Some e1"
      "election_inv cr e1" "same_shape ?e e1"
      by (rule update_tallies_ok [OF add_vote_inv [OF inv h]])
    have shape: "same_shape e e1" using e1(3) by (simp add: same_shape_def el_add_vote_def)
    then have root: "el_qualified_root e1 = el_qualified_root e" by (simp add: same_shape_def)
    obtain obs1 where run: "confirm_if_quorum cr args (cache, obs, ?e) = Some
        (if el_is_confirmed e1 then fst (rcc_put cache (el_qualified_root e) (winner_hash cr e1)) else cache, obs1, e1)"
      using e1(1) root that
      by (cases "el_is_confirmed e1")
        (auto simp: confirm_if_quorum_def notify_winner_changed_def election_got_confirmed_def el_is_final_def Let_def)
    have "apply_vote_to_election cr args h (cache, obs, e) = Some
        ((if el_is_confirmed e1 then fst (rcc_put cache (el_qualified_root e) (winner_hash cr e1)) else cache, obs1, e1), Inr ())"
      using live ok run by (simp add: apply_vote_to_election_def add_vote_to_election_def)
    then show thesis using e1(2) shape live by (intro that) auto
  qed
qed

lemma put_by_hash:
  "rcc_by_hash (fst (rcc_put c r h)) g = Some s \<Longrightarrow> rcc_by_hash c g = Some s \<or> g = h \<and> s = r"
  by (auto simp: rcc_put_def rcc_drop_oldest_def Let_def split: if_splits list.splits option.splits)

text \<open>An active election is not in the cache, so its confirmation is always recorded.\<close>

lemma confirmation_is_new:
  assumes free: "collision_free cr B" and cache: "cache_ok cr B E c" and en: "E r = Some en"
    and e: "entry_ok cr B r en'" "h \<in> cands en'"
  shows "\<not> rcc_hash_exists c h" "\<not> rcc_root_exists c r"
proof -
  show root: "\<not> rcc_root_exists c r" using cache en by (auto simp: cache_ok_def)
  show "\<not> rcc_hash_exists c h"
  proof
    assume "rcc_hash_exists c h"
    then obtain s where s: "rcc_by_hash c h = Some s" by (auto simp: rcc_hash_exists_def)
    then obtain b where b: "b \<in> B" "block_hash_of cr b = h" "block_qualified_root b = s"
      using cache unfolding cache_ok_def by blast
    obtain x where x: "x \<in> B" "block_hash_of cr x = h" "block_qualified_root x = r"
      by (rule entry_candidate_root [OF e])
    have "block_hash_of cr b = block_hash_of cr x" using b(2) x(2) by simp
    then have "s = r" using free b(1,3) x(1,3) unfolding collision_free_def by metis
    moreover have "rcc_inv c" using cache by (simp add: cache_ok_def)
    ultimately have "rcc_root_exists c r" using rcc_root_exists_iff s by blast
    with root show False ..
  qed
qed

lemma record_confirmation:
  assumes cache: "cache_ok cr B E c" and e: "entry_ok cr B r en" "h \<in> cands en"
  shows "cache_ok cr B (E(r := None)) (fst (rcc_put c r h))"
proof -
  let ?c = "fst (rcc_put c r h)"
  have inv: "rcc_inv ?c" using cache rcc_put_refines(1) by (simp add: cache_ok_def)
  obtain b where b: "b \<in> B" "block_hash_of cr b = h" "block_qualified_root b = r" by (rule entry_candidate_root [OF e])
  have old: "\<exists>b \<in> B. block_hash_of cr b = g \<and> block_qualified_root b = s" if "rcc_by_hash c g = Some s" for g s
    using cache that unfolding cache_ok_def by blast
  have known: "\<exists>b \<in> B. block_hash_of cr b = g \<and> block_qualified_root b = s" if new: "rcc_by_hash ?c g = Some s" for g s
  proof (cases "rcc_by_hash c g = Some s")
    case True
    then show ?thesis by (rule old)
  next
    case False
    then have "g = h \<and> s = r" using put_by_hash [OF new] by simp
    then show ?thesis using b by (intro bexI [of _ b]) simp_all
  qed
  moreover have "(E(r := None)) s = None" if ex: "rcc_root_exists ?c s" for s
  proof -
    obtain g where g: "rcc_by_hash ?c g = Some s" using ex rcc_root_exists_iff [OF inv, of s] by blast
    have "rcc_inv c" "rcc_root_exists c s \<Longrightarrow> E s = None" using cache by (simp_all add: cache_ok_def)
    then show ?thesis using put_by_hash [OF g] rcc_root_exists_iff [of c s] by (cases "s = r") auto
  qed
  ultimately show ?thesis using inv unfolding cache_ok_def by (intro conjI allI impI)
qed

section \<open>The blocks of a vote\<close>

definition lastn :: "nat \<Rightarrow> 'a list \<Rightarrow> 'a list" where
  "lastn n xs = drop (length xs - n) xs"

lemma lastn_append: "lastn n (lastn n xs @ ys) = lastn n (xs @ ys)"
  by (cases "length xs \<le> n") (simp_all add: lastn_def drop_append add.commute)

lemma lastn_all: "length xs \<le> n \<Longrightarrow> lastn n xs = xs"
  by (simp add: lastn_def)

lemma lastn_suffix: "length ys \<le> n \<Longrightarrow> set ys \<subseteq> set (lastn n (xs @ ys))"
  by (simp add: lastn_def drop_append)

definition was_confirmed :: "elections \<Rightarrow> qualified_root \<Rightarrow> bool" where
  "was_confirmed E r \<longleftrightarrow> (\<exists>en. E r = Some en \<and> el_is_confirmed (en_election en))"

text \<open>
  What a vote may do: elections \<open>ens\<close> end and the pairs \<open>rec\<close> are recorded. Every election that ends was
  confirmed before or is recorded with its winner.
\<close>

definition vote_outcome ::
  "crypto \<Rightarrow> block set \<Rightarrow> recently_confirmed \<Rightarrow> root_container \<Rightarrow> entry list \<Rightarrow> (qualified_root \<times> block_hash) list \<Rightarrow>
    recently_confirmed \<Rightarrow> root_container \<Rightarrow> bool" where
  "vote_outcome cr B c R ens rec c' R' \<longleftrightarrow>
    rc_ok cr B R' \<and> cache_ok cr B (rc_get R') c' \<and> ends (rc_get R) ens (rc_get R') \<and>
    rcc_max_len c' = rcc_max_len c \<and> rcc_abs c' = lastn (rcc_max_len c) (rcc_abs c @ rec) \<and>
    (\<forall>en \<in> set ens. was_confirmed (rc_get R) (en_root en) \<or> (en_root en, winner_hash cr (en_election en)) \<in> set rec) \<and>
    (\<forall>r. rc_get R r \<noteq> None \<longrightarrow> rc_get R' r \<noteq> None \<or> r \<in> en_root ` set ens) \<and>
    (\<forall>r. was_confirmed (rc_get R') r \<longrightarrow> was_confirmed (rc_get R) r)"

lemma outcome_refl:
  assumes "rc_ok cr B R" "cache_ok cr B (rc_get R) c"
  shows "vote_outcome cr B c R [] [] c R"
proof -
  have "rcc_inv c" using assms(2) by (simp add: cache_ok_def)
  then have "rcc_abs c = lastn (rcc_max_len c) (rcc_abs c)" by (simp add: rcc_inv_def lastn_all)
  then show ?thesis using assms ends_nil by (simp add: vote_outcome_def)
qed

lemma outcome_trans:
  assumes 1: "vote_outcome cr B c R ens rec c1 R1" and 2: "vote_outcome cr B c1 R1 ens' rec' c2 R2"
  shows "vote_outcome cr B c R (ens @ ens') (rec @ rec') c2 R2"
proof -
  have "ends (rc_get R) (ens @ ens') (rc_get R2)"
    using 1 2 ends_append unfolding vote_outcome_def by fast
  moreover have "rcc_abs c2 = lastn (rcc_max_len c) (rcc_abs c @ rec @ rec')"
    using 1 2 lastn_append [of "rcc_max_len c" "rcc_abs c @ rec" rec'] by (simp add: vote_outcome_def)
  moreover have "was_confirmed (rc_get R) (en_root en) \<or> (en_root en, winner_hash cr (en_election en)) \<in> set (rec @ rec')"
    if "en \<in> set (ens @ ens')" for en
    using 1 2 that unfolding vote_outcome_def by auto
  moreover have "rc_get R2 r \<noteq> None \<or> r \<in> en_root ` set (ens @ ens')" if "rc_get R r \<noteq> None" for r
  proof (cases "rc_get R1 r")
    case None
    then have "r \<in> en_root ` set ens" using 1 that unfolding vote_outcome_def by blast
    then show ?thesis by auto
  next
    case (Some x)
    then have "rc_get R2 r \<noteq> None \<or> r \<in> en_root ` set ens'" using 2 unfolding vote_outcome_def by blast
    then show ?thesis by auto
  qed
  ultimately show ?thesis using 1 2 unfolding vote_outcome_def by simp
qed

lemma vote_step:
  assumes free: "collision_free cr B" and ok: "rc_ok cr B R" and cache: "cache_ok cr B (rc_get R) c"
    and e: "election_for_block R h = Some e"
  obtains c' obs' e' res where "apply_vote_to_election cr args h (c, obs, e) = Some ((c', obs', e'), res)"
    "\<not> el_is_confirmed e' \<longrightarrow> vote_outcome cr B c R [] [] c' (rc_set_election (the (rc_vote_router R h)) e' R)"
    "el_is_confirmed e' \<longrightarrow> (\<exists>R' en rec. length rec \<le> 1 \<and> vote_outcome cr B c R [en] rec c' R' \<and>
      rc_erase (el_qualified_root e') (rc_set_election (the (rc_vote_router R h)) e' R) = Some (R', Some en))"
proof -
  obtain r en where r: "rc_vote_router R h = Some r" and en: "rc_get R r = Some en" and e': "e = en_election en"
    using e by (auto simp: election_for_block_def election_for_root_def bind_eq_Some_conv)
  have ent: "entry_ok cr B r en" using ok en by (simp add: rc_ok_def entries_ok_def)
  have root: "el_qualified_root e = r" and inv: "election_inv cr e" using ent by (simp_all add: entry_ok_def e')
  have routes: "routes_ok (rc_get R) (rc_vote_router R)" using ok by (simp add: rc_ok_def)
  then have h: "h \<in> candidate_hashes e"
    using routesD [of "rc_get R" "rc_vote_router R" h r] r en by (auto simp: e' simp del: set_map)
  obtain c' obs' e1 res where run: "apply_vote_to_election cr args h (c, obs, e) = Some ((c', obs', e1), res)"
    and e1: "election_inv cr e1" "same_shape e e1"
    and c': "c' = (if el_is_confirmed e1 \<and> \<not> el_is_confirmed e
      then fst (rcc_put c (el_qualified_root e) (winner_hash cr e1)) else c)"
    by (rule apply_vote_to_election_ok [OF inv h])
  let ?R = "rc_set_election r e1 R" and ?en = "en\<lparr> en_election := e1 \<rparr>"
  have set: "rc_ok cr B ?R" "\<And>n. counts_ok (rc_get R) n \<Longrightarrow> counts_ok (rc_get ?R) n"
    using set_election_ok [OF ok en e1(1)] e1(2) by (simp_all add: e')
  have get: "rc_get ?R = (rc_get R)(r \<mapsto> ?en)" by (rule rc_get_set_election [OF en])
  have shape: "el_behavior e1 = el_behavior e" "el_qualified_root e1 = r" using e1(2) root by (simp_all add: same_shape_def)
  show thesis
  proof (cases "el_is_confirmed e1")
    case False
    have "cache_ok cr B (rc_get ?R) c" using cache en by (auto simp: cache_ok_def get)
    moreover have "ends (rc_get R) [] (rc_get ?R)" using set(2) counts_changed_refl unfolding ends_def by simp
    moreover have "was_confirmed (rc_get R) s" if "was_confirmed (rc_get ?R) s" for s
      using that False by (auto simp: was_confirmed_def get split: if_splits)
    ultimately have "vote_outcome cr B c R [] [] c ?R"
      using outcome_refl [OF ok cache] set(1) by (auto simp: vote_outcome_def get)
    then show thesis using run False c' r by (intro that [of c' obs' e1 res]) simp_all
  next
    case True
    obtain R' where R': "rc_erase r ?R = Some (R', Some ?en)" "rc_ok cr B R'" "rc_get R' = (rc_get R)(r := None)"
      using rc_erase_ok [OF set(1), of r ?en] by (auto simp: get)
    have ent1: "entry_ok cr B r ?en" using ent e1 root by (simp add: entry_ok_def same_shape_def e')
    have win: "winner_hash cr e1 \<in> cands ?en" using winner_candidate [OF e1(1)] by simp
    have "ends (rc_get ?R) [?en] (rc_get R')"
      using ends_one [OF finite_rc_get, of ?R r ?en] by (simp add: get R'(3))
    then have E: "ends (rc_get R) [?en] (rc_get R')"
      using ends_same [where E = "rc_get R" and r = r and en = en] en shape(1) by (simp add: get e')
    have left: "was_confirmed (rc_get R) s" if "was_confirmed (rc_get R') s" for s
      using that by (auto simp: was_confirmed_def R'(3) split: if_splits)
    have n: "rcc_inv c" using cache by (simp add: cache_ok_def)
    have "\<exists>rec. length rec \<le> 1 \<and> vote_outcome cr B c R [?en] rec c' R'"
    proof (cases "el_is_confirmed e")
      case True
      then have "c' = c" using c' by simp
      moreover have "was_confirmed (rc_get R) r" using True en by (auto simp: was_confirmed_def e')
      moreover have "en_root ?en = r" using ent1 by (simp add: entry_ok_def)
      moreover have "cache_ok cr B (rc_get R') c" using cache by (auto simp: R'(3) elim: cache_ok_fewer)
      ultimately have "vote_outcome cr B c R [?en] [] c' R'"
        using outcome_refl [OF ok cache] R' E left by (auto simp: vote_outcome_def)
      then show ?thesis by (intro exI [of _ "[]"]) simp
    next
      case False
      have put: "c' = fst (rcc_put c r (winner_hash cr e1))" using c' True False root by simp
      note new = confirmation_is_new [OF free cache en ent1 win]
      have abs: "rcc_abs c' = lastn (rcc_max_len c) (rcc_abs c @ [(r, winner_hash cr e1)])"
        using rcc_put_refines(3) [OF n, of r "winner_hash cr e1"] new rcc_exists_abs [of c] n
        by (simp add: put queue_put_def lastn_def rcc_inv_def)
      have "cache_ok cr B (rc_get R') c'"
        unfolding put R'(3) by (rule record_confirmation [OF cache ent1 win])
      moreover have "en_root ?en = r" using ent1 by (simp add: entry_ok_def)
      ultimately have "vote_outcome cr B c R [?en] [(r, winner_hash cr e1)] c' R'"
        using R' E left abs rcc_put_refines(2) [OF n] by (auto simp: vote_outcome_def put)
      then show ?thesis by (intro exI [of _ "[(r, winner_hash cr e1)]"]) simp
    qed
    then show thesis using run True R'(1) r shape(2) by (intro that [of c' obs' e1 res]) auto
  qed
qed

lemma apply_vote_blocks_ok:
  assumes free: "collision_free cr B"
  shows "rc_ok cr B R \<Longrightarrow> cache_ok cr B (rc_get R) c \<Longrightarrow>
    \<exists>c' obs' R' pb' ens rec. apply_vote_blocks cr args hs (c, obs, R) (pb, conf) = Some ((c', obs', R'), pb', conf @ ens) \<and>
      vote_outcome cr B c R ens rec c' R' \<and> length rec \<le> length hs \<and> dom pb' = dom pb \<union> set hs"
proof (induction hs arbitrary: c obs R pb conf)
  case Nil
  then show ?case using outcome_refl
    by (intro exI [of _ c] exI [of _ obs] exI [of _ R] exI [of _ pb] exI [of _ "[]"]) simp
next
  case (Cons h hs)
  have finish: ?case
    if step: "vote_outcome cr B c R ens1 rec1 c1 R1" "length rec1 \<le> 1"
      and eq: "apply_vote_blocks cr args (h # hs) (c, obs, R) (pb, conf) = apply_vote_blocks cr args hs (c1, obs1, R1) (pb1, conf @ ens1)"
      and dom: "dom pb1 = dom pb \<union> {h}" for ens1 rec1 c1 R1 obs1 pb1
  proof -
    have "rc_ok cr B R1" "cache_ok cr B (rc_get R1) c1" using step by (simp_all add: vote_outcome_def)
    then obtain c' obs' R' pb' ens rec where
      "apply_vote_blocks cr args hs (c1, obs1, R1) (pb1, conf @ ens1) = Some ((c', obs', R'), pb', (conf @ ens1) @ ens)"
      "vote_outcome cr B c1 R1 ens rec c' R'" "length rec \<le> length hs" "dom pb' = dom pb1 \<union> set hs"
      using Cons.IH [of R1 c1 obs1 pb1 "conf @ ens1"] by blast
    then show ?thesis using eq dom step(2) outcome_trans [OF step(1)]
      by (intro exI [of _ c'] exI [of _ obs'] exI [of _ R'] exI [of _ pb'] exI [of _ "ens1 @ ens"] exI [of _ "rec1 @ rec"]) auto
  qed
  note stay = outcome_refl [OF Cons.prems]
  show ?case
  proof (cases "pb h = None")
    case False
    then show ?thesis by (intro finish [OF stay, of obs pb]) (auto simp: insert_absorb domIff)
  next
    case new: True
    show ?thesis
    proof (cases "election_for_block R h")
      case None
      then show ?thesis using new
        by (intro finish [OF stay, of obs "pb(h \<mapsto> Inl (if rcc_hash_exists c h then Late else Indeterminate))"]) auto
    next
      case (Some e)
      obtain c1 obs1 e1 res where run: "apply_vote_to_election cr args h (c, obs, e) = Some ((c1, obs1, e1), res)"
        and live: "\<not> el_is_confirmed e1 \<longrightarrow> vote_outcome cr B c R [] [] c1 (rc_set_election (the (rc_vote_router R h)) e1 R)"
        and conf: "el_is_confirmed e1 \<longrightarrow> (\<exists>R' en rec. length rec \<le> 1 \<and> vote_outcome cr B c R [en] rec c1 R' \<and>
          rc_erase (el_qualified_root e1) (rc_set_election (the (rc_vote_router R h)) e1 R) = Some (R', Some en))"
        by (rule vote_step [OF free Cons.prems Some])
      show ?thesis
      proof (cases "el_is_confirmed e1")
        case False
        then have "vote_outcome cr B c R [] [] c1 (rc_set_election (the (rc_vote_router R h)) e1 R)" using live by blast
        then show ?thesis using new Some run False by (intro finish [of "[]" "[]" _ _ obs1 "pb(h \<mapsto> res)"]) auto
      next
        case True
        then obtain R' en rec where "length rec \<le> 1" "vote_outcome cr B c R [en] rec c1 R'"
          "rc_erase (el_qualified_root e1) (rc_set_election (the (rc_vote_router R h)) e1 R) = Some (R', Some en)"
          using conf by blast
        then show ?thesis using new Some run True by (intro finish [of "[en]" rec _ _ obs1 "pb(h \<mapsto> res)"]) auto
      qed
    qed
  qed
qed

lemma apply_vote_stopped:
  "rc_get R = Map.empty \<Longrightarrow> \<exists>pb'. apply_vote_blocks cr args hs (c, obs, R) (pb, conf) = Some ((c, obs, R), pb', conf) \<and>
    dom pb' = dom pb \<union> set hs"
proof (induction hs arbitrary: pb)
  case (Cons h hs)
  have none: "election_for_block R h = None"
    using Cons.prems by (simp add: election_for_block_def election_for_root_def split: Option.bind_splits)
  show ?case
  proof (cases "pb h = None")
    case True
    let ?pb = "pb(h \<mapsto> Inl (if rcc_hash_exists c h then Late else Indeterminate))"
    have eq: "apply_vote_blocks cr args (h # hs) (c, obs, R) (pb, conf) = apply_vote_blocks cr args hs (c, obs, R) (?pb, conf)"
      using True none by simp
    have dom: "dom ?pb \<union> set hs = dom pb \<union> set (h # hs)" by auto
    show ?thesis unfolding eq dom [symmetric] by (rule Cons.IH [OF Cons.prems])
  next
    case False
    then show ?thesis using Cons.IH [OF Cons.prems, of pb] by (auto simp: domIff)
  qed
qed simp

lemma apply_vote_ok:
  assumes inv: "aec_inv cr B a" and free: "collision_free cr B"
  obtains a' results where "ac_apply_vote cr args a = Some (a', results)" "aec_inv cr B a'"
    "dom results = set (filtered_blocks (av_vote args))"
    "length (filtered_blocks (av_vote args)) \<le> rcc_max_len (ac_recently_confirmed a) \<longrightarrow>
      (\<forall>r. rc_get (ac_roots a) r \<noteq> None \<and> \<not> was_confirmed (rc_get (ac_roots a)) r \<and> rc_get (ac_roots a') r = None \<longrightarrow>
        rcc_root_exists (ac_recently_confirmed a') r)"
proof (cases "ac_stopped a")
  case True
  then have "rc_get (ac_roots a) = Map.empty" using inv rc_get_empty by (simp add: aec_inv_def)
  then show thesis
    using apply_vote_stopped [of "ac_roots a" cr args "filtered_blocks (av_vote args)" "ac_recently_confirmed a" "ac_observer a" Map.empty "[]"]
      inv that [of a] by (auto simp: ac_apply_vote_def)
next
  case False
  let ?c = "ac_recently_confirmed a" and ?R = "ac_roots a" and ?hs = "filtered_blocks (av_vote args)"
  have ok: "rc_ok cr B ?R" "cache_ok cr B (rc_get ?R) ?c" using inv False by (simp_all add: aec_inv_def)
  obtain c' obs' R' pb ens rec where
    run: "apply_vote_blocks cr args ?hs (?c, ac_observer a, ?R) (Map.empty, []) = Some ((c', obs', R'), pb, [] @ ens)"
    and out: "vote_outcome cr B ?c ?R ens rec c' R'" and len: "length rec \<le> length ?hs" and dom: "dom pb = dom Map.empty \<union> set ?hs"
    using apply_vote_blocks_ok [OF free ok, of args ?hs "ac_observer a" Map.empty "[]"] by blast
  let ?a = "a\<lparr> ac_recently_confirmed := c', ac_observer := obs' \<rparr>"
  have R': "rc_ok cr B R'" and cache': "cache_ok cr B (rc_get R') c'" and E: "ends (rc_get ?R) ens (rc_get R')"
    using out by (simp_all add: vote_outcome_def)
  have "counts_ok (rc_get ?R) (ac_count_by_behavior (?a\<lparr> ac_roots := R' \<rparr>))" using inv False by (simp add: aec_inv_def)
  then obtain a' where a': "cleanup_elections ens (?a\<lparr> ac_roots := R' \<rparr>) = Some a'" "counts_changed (?a\<lparr> ac_roots := R' \<rparr>) a'"
    "counts_ok (rc_get R') (ac_count_by_behavior a')"
    using E unfolding ends_def by blast
  note fields = counts_changed_fields [OF a'(2)]
  have inv': "aec_inv cr B a'" using fields inv False R' cache' a'(3) by (simp add: aec_inv_def)
  have remembered: "rcc_root_exists (ac_recently_confirmed a') r"
    if small: "length ?hs \<le> rcc_max_len ?c"
      and gone: "rc_get ?R r \<noteq> None" "\<not> was_confirmed (rc_get ?R) r" "rc_get (ac_roots a') r = None" for r
  proof -
    have "r \<in> en_root ` set ens" using out gone fields unfolding vote_outcome_def by auto
    then obtain en where en: "en \<in> set ens" "en_root en = r" by blast
    then have "(r, winner_hash cr (en_election en)) \<in> set rec" using out gone(2) unfolding vote_outcome_def by blast
    moreover have "length rec \<le> rcc_max_len ?c" using small len by simp
    then have "set rec \<subseteq> set (rcc_abs c')" using lastn_suffix [of rec "rcc_max_len ?c" "rcc_abs ?c"] out by (simp add: vote_outcome_def)
    ultimately have "r \<in> fst ` set (rcc_abs c')" by force
    then show ?thesis using rcc_exists_abs(2) [of c' r] cache' fields by (simp add: cache_ok_def rcc_inv_def)
  qed
  have "ac_apply_vote cr args a = Some (a', pb)"
    using run a'(1) by (simp add: ac_apply_vote_def)
  then show thesis using inv' dom remembered by (intro that [of a' pb]) auto
qed

end
