(* ===== verification/Active_Run.thy ===== *)
theory Active_Run
  imports Active_Votes
begin

text \<open>
  All states the active elections reach from the start by any sequence of operations, and the order
  in which the elections are iterated.
\<close>

section \<open>Runs\<close>

text \<open>Every block that occurs is in \<open>B\<close> and does not hash to zero.\<close>

inductive aec_run :: "crypto \<Rightarrow> block set \<Rightarrow> aec \<Rightarrow> bool" for cr :: crypto and B :: "block set" where
  start: "aec_run cr B (new_aec max_elections cache_size latency)"
| observe: "aec_run cr B a \<Longrightarrow> aec_run cr B (set_observer evs a)"
| insert: "aec_run cr B a \<Longrightarrow> sv_block (rq_block rq) \<in> B \<Longrightarrow> sv_hash cr (rq_block rq) \<noteq> 0 \<Longrightarrow>
    ac_insert cr rq now a = Some (a', res) \<Longrightarrow> aec_run cr B a'"
| fork: "aec_run cr B a \<Longrightarrow> fork \<in> B \<Longrightarrow> block_hash_of cr fork \<noteq> 0 \<Longrightarrow>
    ac_try_add_fork cr fork tally a = Some (a', added) \<Longrightarrow> aec_run cr B a'"
| vote: "aec_run cr B a \<Longrightarrow> ac_apply_vote cr args a = Some (a', results) \<Longrightarrow> aec_run cr B a'"
| tick: "aec_run cr B a \<Longrightarrow> ac_transition_time now a = Some a' \<Longrightarrow> aec_run cr B a'"
| activate: "aec_run cr B a \<Longrightarrow> aec_run cr B (fst (ac_transition_active h a))"
| last_voted: "aec_run cr B a \<Longrightarrow> aec_run cr B (set_last_voted cr root vt t a)"
| unvote: "aec_run cr B a \<Longrightarrow> aec_run cr B (remove_votes root voters a)"
| erase: "aec_run cr B a \<Longrightarrow> ac_erase root a = Some (a', b) \<Longrightarrow> aec_run cr B a'"
| erase_lowest: "aec_run cr B a \<Longrightarrow> i < bucket_count \<Longrightarrow> erase_lowest_prio_election i a = Some a' \<Longrightarrow> aec_run cr B a'"
| dependents: "aec_run cr B a \<Longrightarrow> aec_run cr B (confirm_dependent_elections cr confirmed now a)"
| force: "aec_run cr B a \<Longrightarrow> ac_force_confirm h now a = Some a' \<Longrightarrow> aec_run cr B a'"
| cancel: "aec_run cr B a \<Longrightarrow> aec_run cr B (ac_cancel root a)"
| forget: "aec_run cr B a \<Longrightarrow> aec_run cr B (remove_recently_confirmed h a)"
| forget_all: "aec_run cr B a \<Longrightarrow> aec_run cr B (clear_recently_confirmed a)"
| cooldown: "aec_run cr B a \<Longrightarrow> aec_run cr B (ac_set_cooldown cool_down reason a)"
| stop: "aec_run cr B a \<Longrightarrow> aec_run cr B (ac_stop a)"

lemma aec_run_inv:
  assumes "aec_run cr B a" and free: "collision_free cr B"
  shows "aec_inv cr B a"
  using assms(1)
proof induction
  case (insert a rq now a' res)
  show ?case by (rule insert_ok [OF insert.IH free insert.hyps(2,3) refl, of now]) (use insert.hyps(4) in simp)
next
  case (fork a fork tally a' added)
  show ?case by (rule try_add_fork_ok [OF fork.IH free fork.hyps(2,3), of tally]) (use fork.hyps(4) in simp)
next
  case (vote a args a' results)
  show ?case by (rule apply_vote_ok [OF vote.IH free, of args]) (use vote.hyps(2) in simp)
next
  case (tick a now a')
  then show ?case using transition_time_ok [OF tick.IH, of now] by auto
next
  case (erase a root a' b)
  show ?case by (rule erase_ok [OF erase.IH, of root]) (use erase.hyps(2) in simp)
next
  case (erase_lowest a i a')
  then show ?case using erase_lowest_ok [OF erase_lowest.IH] by force
qed (simp_all add: new_aec_inv set_observer_def single_election_ops confirm_dependent_elections_keeps
    recently_confirmed_keeps set_cooldown_keeps stop_keeps)

section \<open>Iteration\<close>

lemma length_heads: "length (heads bs) + (\<Sum>b\<leftarrow>bs. length (tl b)) = (\<Sum>b\<leftarrow>bs. length b)"
proof (induction bs)
  case (Cons b bs)
  then show ?case by (cases b) auto
qed simp

lemma set_heads: "set (heads bs) \<union> (\<Union>b \<in> set bs. set (tl b)) = (\<Union>b \<in> set bs. set b)"
proof (induction bs)
  case (Cons b bs)
  then show ?case by (cases b) auto
qed simp

lemma concat_transpose:
  "length (concat (transpose bs)) = length (concat bs) \<and> set (concat (transpose bs)) = set (concat bs)"
proof (induction "\<Sum>b\<leftarrow>bs. length b" arbitrary: bs rule: less_induct)
  case less
  show ?case
  proof (cases "\<exists>b \<in> set bs. b \<noteq> []")
    case True
    then obtain b where b: "b \<in> set bs" "b \<noteq> []" by blast
    have IH: "length (concat (transpose (map tl bs))) = length (concat (map tl bs))"
      "set (concat (transpose (map tl bs))) = set (concat (map tl bs))"
      using less [of "map tl bs"] tails_shorter [OF b] by (simp_all add: comp_def)
    show ?thesis
      unfolding transpose_round [OF True] using IH length_heads [of bs] set_heads [of bs]
      by (simp add: length_concat comp_def)
  next
    case False
    then show ?thesis using transpose_empty [of bs] by (simp add: length_concat)
  qed
qed

lemma distinct_transpose: "distinct (concat bs) \<Longrightarrow> distinct (concat (transpose bs))"
  using concat_transpose [of bs] by (metis card_distinct distinct_card)

lemma distinct_concat_map:
  "distinct js \<Longrightarrow> (\<And>i. i \<in> set js \<Longrightarrow> distinct (f i)) \<Longrightarrow>
    (\<And>i j. i \<in> set js \<Longrightarrow> j \<in> set js \<Longrightarrow> i \<noteq> j \<Longrightarrow> set (f i) \<inter> set (f j) = {}) \<Longrightarrow> distinct (concat (map f js))"
proof (induction js)
  case (Cons j js)
  have "set (f j) \<inter> (\<Union>i \<in> set js. set (f i)) = {}" using Cons.prems by fastforce
  then show ?case using Cons by simp
qed simp

lemma those_returns: "(\<And>x. x \<in> set xs \<Longrightarrow> x \<noteq> None) \<Longrightarrow> \<exists>ys. those xs = Some ys"
proof (induction xs)
  case (Cons x xs)
  then show ?case by (cases x) auto
qed simp

lemma buckets_disjoint:
  assumes "buckets_ok E bs"
  shows "distinct (concat (rev bs))" "set (concat bs) = {b. \<exists>en. E (be_root b) = Some en \<and> be_priority b = en_priority en}"
proof -
  have len: "length bs = bucket_count" and ok: "\<And>i. i < bucket_count \<Longrightarrow> distinct (bs ! i) \<and> set (bs ! i) = slot E i"
    using assms by (simp_all add: buckets_ok_def)
  have "distinct (concat (map (\<lambda>i. bs ! i) (rev [0..<bucket_count])))"
  proof -
    have "slot E i \<inter> slot E j = {}" if "i \<noteq> j" for i j using that by (auto simp: slot_def)
    then have "set (bs ! i) \<inter> set (bs ! j) = {}" if "i < bucket_count" "j < bucket_count" "i \<noteq> j" for i j
      using that ok by simp
    then show ?thesis using ok by (intro distinct_concat_map) simp_all
  qed
  moreover have "map (\<lambda>i. bs ! i) (rev [0..<bucket_count]) = rev bs"
    using map_nth [of bs] by (simp add: rev_map [symmetric] len)
  ultimately show "distinct (concat (rev bs))" by simp
  show "set (concat bs) = {b. \<exists>en. E (be_root b) = Some en \<and> be_priority b = en_priority en}"
  proof (rule set_eqI)
    fix b
    have "b \<in> set (concat bs) \<longleftrightarrow> list_ex (\<lambda>x. b \<in> set x) bs" by (simp add: list_ex_iff)
    also have "\<dots> \<longleftrightarrow> (\<exists>i < bucket_count. b \<in> slot E i)" using len ok by (simp add: list_ex_length cong: conj_cong)
    also have "\<dots> \<longleftrightarrow> (\<exists>en. E (be_root b) = Some en \<and> be_priority b = en_priority en)"
      using en_bucket_total by (auto simp: slot_def) metis
    finally show "b \<in> set (concat bs) \<longleftrightarrow> b \<in> {b. \<exists>en. E (be_root b) = Some en \<and> be_priority b = en_priority en}" by simp
  qed
qed

lemma iteration_order:
  assumes ok: "rc_ok cr B c"
  shows "rc_iter c = map (\<lambda>b. the (rc_get c (be_root b))) (concat (transpose (rev (rc_buckets c))))"
    "distinct (map en_root (rc_iter c))" "set (rc_iter c) = ran (rc_get c)"
proof -
  define bs where "bs = concat (transpose (rev (rc_buckets c)))"
  let ?get = "\<lambda>b. rc_get c (be_root b)"
  have buckets: "buckets_ok (rc_get c) (rc_buckets c)" and E: "entries_ok cr B (rc_get c)" using ok by (simp_all add: rc_ok_def)
  note dis = buckets_disjoint [OF buckets]
  have set: "set bs = {b. \<exists>en. ?get b = Some en \<and> be_priority b = en_priority en}"
    using concat_transpose [of "rev (rc_buckets c)"] dis(2) by (simp add: bs_def)
  have d: "distinct bs" unfolding bs_def by (rule distinct_transpose [OF dis(1)])
  have "takeWhile (\<lambda>x. x \<noteq> None) (map ?get bs) = map ?get bs"
    using set by (auto intro!: takeWhile_eq_all_conv [THEN iffD2])
  then have iter: "rc_iter c = map (\<lambda>b. the (?get b)) bs"
    unfolding rc_iter_def round_robin_order bs_def [symmetric] by (simp only: map_map comp_def)
  then show "rc_iter c = map (\<lambda>b. the (?get b)) (concat (transpose (rev (rc_buckets c))))" by (simp only: bs_def)
  have root: "en_root (the (?get b)) = be_root b" if "b \<in> set bs" for b
    using that set E by (auto simp: entries_ok_def entry_ok_def)
  then have "map en_root (rc_iter c) = map be_root bs" by (simp add: iter)
  moreover have "inj_on be_root (set bs)"
    using set by (auto simp: inj_on_def bucket_entry.expand)
  ultimately show "distinct (map en_root (rc_iter c))" using d by (simp add: distinct_map)
  show "set (rc_iter c) = ran (rc_get c)"
  proof
    show "set (rc_iter c) \<subseteq> ran (rc_get c)" using set by (auto simp: iter ran_def)
    show "ran (rc_get c) \<subseteq> set (rc_iter c)"
    proof
      fix en assume "en \<in> ran (rc_get c)"
      then obtain r where r: "rc_get c r = Some en" by (auto simp: ran_def)
      then have "BucketEntry r (en_priority en) \<in> set bs" using set by simp
      then show "en \<in> set (rc_iter c)" using r by (force simp: iter)
    qed
  qed
qed

lemma iter_bucket_returns:
  assumes ok: "rc_ok cr B c" and i: "i < bucket_count"
  shows "\<exists>ens. iter_bucket i c = Some ens"
proof -
  have "length (rc_buckets c) = bucket_count" "set (rc_buckets c ! i) = slot (rc_get c) i"
    using ok i by (simp_all add: rc_ok_def buckets_ok_def)
  then show ?thesis using i those_returns [of "map (\<lambda>b. rc_get c (be_root b)) (rc_buckets c ! i)"]
    by (auto simp: iter_bucket_def slot_def)
qed

end
