(* ===== verification/Quorum.thy ===== *)
theory Quorum
  imports Election_Correct
begin

text \<open>
  Agreement between nodes. Two sets of voters whose weights together exceed the total weight plus
  the weight of the faulty voters share a voter that is not faulty. Hence two nodes that confirm a
  block for the same root by final votes confirm the same block.
\<close>

section \<open>Weighted quorums\<close>

locale weighted_quorum =
  fixes weight :: "'v \<Rightarrow> nat" and voters :: "'v set" and faulty :: "'v set"
  assumes finite_voters: "finite voters" and faulty_voters: "faulty \<subseteq> voters"
begin

lemma quorum_intersection:
  assumes "A \<subseteq> voters" "B \<subseteq> voters" "sum weight voters < sum weight A + sum weight B"
  shows "A \<inter> B \<noteq> {}"
proof
  assume "A \<inter> B = {}"
  have fin: "finite A" "finite B" using assms(1,2) finite_voters finite_subset by auto
  have "sum weight A + sum weight B = sum weight (A \<union> B)"
    by (rule sum.union_disjoint [OF fin \<open>A \<inter> B = {}\<close>, symmetric])
  also have "\<dots> \<le> sum weight voters"
    using assms(1,2) by (intro sum_mono2 [OF finite_voters]) auto
  finally show False using assms(3) by simp
qed

lemma honest_intersection:
  assumes "A \<subseteq> voters" "B \<subseteq> voters" "sum weight voters + sum weight faulty < sum weight A + sum weight B"
  obtains v where "v \<in> A" "v \<in> B" "v \<notin> faulty"
proof -
  have fin: "finite A" "finite faulty" using assms(1) faulty_voters finite_voters finite_subset by auto
  have "sum weight A \<le> sum weight ((A - faulty) \<union> faulty)"
    using fin by (intro sum_mono2) auto
  also have "\<dots> = sum weight (A - faulty) + sum weight faulty"
    using fin by (intro sum.union_disjoint) auto
  finally have "sum weight voters < sum weight (A - faulty) + sum weight B"
    using assms(3) by simp
  with assms(1,2) quorum_intersection [of "A - faulty" B] that show thesis by blast
qed

end

section \<open>The weight behind a confirmation\<close>

definition rep_weight :: "rep_weights \<Rightarrow> public_key \<Rightarrow> nat" where
  "rep_weight w v = unat (unwrap_or_zero (w v))"

definition total_weight :: "rep_weights \<Rightarrow> nat" where
  "total_weight w = sum (rep_weight w) (dom w)"

definition faulty_weight :: "rep_weights \<Rightarrow> public_key set \<Rightarrow> nat" where
  "faulty_weight w F = sum (rep_weight w) (F \<inter> dom w)"

definition final_voters :: "election \<Rightarrow> block_hash \<Rightarrow> public_key set" where
  "final_voters e h = {v. \<exists>s. map_of (el_votes e) v = Some s \<and> is_final_vote s \<and> vs_hash s = h}"

lemma finite_final_voters: "finite (final_voters e h)"
proof (rule finite_subset)
  show "final_voters e h \<subseteq> fst ` set (el_votes e)"
    by (auto simp: final_voters_def dest!: map_of_SomeD intro: rev_image_eqI)
qed simp

text \<open>The tally may wrap around, so it is at most the exact sum.\<close>

lemma unat_sum_list_le: "unat (sum_list (xs :: amount list)) \<le> sum_list (map unat xs)"
proof (induction xs)
  case (Cons x xs)
  have "unat (x + sum_list xs) \<le> unat x + unat (sum_list xs)"
    by (simp add: unat_plus_if')
  with Cons show ?case by simp
qed simp

lemma unat_sum_list_exact:
  "sum_list (map unat xs) < 2 ^ 128 \<Longrightarrow> unat (sum_list (xs :: amount list)) = sum_list (map unat xs)"
  by (induction xs) (simp_all add: unat_plus_if')

lemma final_weight_parts:
  assumes "votes_ok e"
  obtains xs where "final_weight_for e w h = sum_list xs"
    "sum_list (map unat xs) = sum (rep_weight w) (final_voters e h)"
proof -
  let ?vs = "filter (\<lambda>(_, v). is_final_vote v \<and> vs_hash v = h) (el_votes e)"
  let ?xs = "map (\<lambda>(k, _). unwrap_or_zero (w k)) ?vs"
  have d: "distinct (map fst (el_votes e))" using assms by (simp add: votes_ok_def)
  then have dk: "distinct (map fst ?vs)" by (simp add: distinct_map_filter)
  have keys: "set (map fst ?vs) = final_voters e h"
    using d by (auto simp: final_voters_def intro: rev_image_eqI)
  have "sum_list (map unat ?xs) = sum_list (map (rep_weight w) (map fst ?vs))"
    by (simp add: rep_weight_def comp_def case_prod_unfold)
  also have "\<dots> = sum (rep_weight w) (final_voters e h)"
    using sum_list_distinct_conv_sum_set [OF dk, of "rep_weight w"] keys by simp
  finally show thesis by (intro that [of ?xs]) (simp_all add: final_weight_for_def)
qed

lemma final_weight_le:
  assumes "votes_ok e"
  shows "unat (final_weight_for e w h) \<le> sum (rep_weight w) (final_voters e h)"
proof -
  obtain xs where "final_weight_for e w h = sum_list xs"
    "sum_list (map unat xs) = sum (rep_weight w) (final_voters e h)"
    by (rule final_weight_parts [OF assms])
  with unat_sum_list_le [of xs] show ?thesis by simp
qed

lemma final_voters_weight_le:
  assumes "finite (dom w)"
  shows "sum (rep_weight w) (final_voters e h) \<le> total_weight w"
proof -
  have "sum (rep_weight w) (final_voters e h) = sum (rep_weight w) (final_voters e h \<inter> dom w)"
    by (rule sum.mono_neutral_right)
      (auto simp: finite_final_voters rep_weight_def unwrap_or_zero_def split: option.splits)
  also have "\<dots> \<le> total_weight w"
    unfolding total_weight_def by (rule sum_mono2) (use assms in auto)
  finally show ?thesis .
qed

lemma confirmed_by_quorum:
  assumes "election_inv cr e" "\<not> has_ended (el_state e)" "update_tallies cr e w q = Some e'" "el_state e' = Confirmed"
  shows "unat q \<le> sum (rep_weight w) (final_voters e (winner_hash cr e'))"
proof -
  obtain e'' where "update_tallies cr e w q = Some e''"
    "el_winner_final_tally e'' = final_weight_for e w (winner_hash cr e'')"
    "el_state e'' = (if q \<le> el_winner_final_tally e'' then Confirmed else el_state e)"
    by (rule update_tallies_spec [OF assms(1,2)])
  then have "q \<le> final_weight_for e w (winner_hash cr e')"
    using assms(2,3,4) by (auto simp: has_ended_def split: if_splits)
  then show ?thesis
    using final_weight_le [of e w "winner_hash cr e'"] assms(1) by (simp add: election_inv_def word_le_nat_alt)
qed

section \<open>Agreement\<close>

text \<open>
  The voters of two elections: the representatives of the weight cache and whoever else voted. A
  key without an entry in the cache has no weight.
\<close>

definition electorate :: "(public_key, amount) rbt \<Rightarrow> public_key set \<Rightarrow> public_key set \<Rightarrow> public_key set" where
  "electorate t A B = {v. RBT.lookup t v \<noteq> None \<or> v \<in> A \<or> v \<in> B}"

interpretation finals: weighted_quorum "rep_weight (RBT.lookup t)"
  "electorate t (final_voters e1 h1) (final_voters e2 h2)"
  "F \<inter> electorate t (final_voters e1 h1) (final_voters e2 h2)" for t e1 h1 e2 h2 F
proof unfold_locales
  have "electorate t (final_voters e1 h1) (final_voters e2 h2) =
      dom (RBT.lookup t) \<union> final_voters e1 h1 \<union> final_voters e2 h2"
    by (auto simp: electorate_def)
  then show "finite (electorate t (final_voters e1 h1) (final_voters e2 h2))"
    using finite_final_voters by simp
qed simp

lemma weight_of_electorate:
  assumes "finite A" "finite B"
  shows "sum (rep_weight (RBT.lookup t)) (F \<inter> electorate t A B) = faulty_weight (RBT.lookup t) F"
  unfolding faulty_weight_def
proof (rule sum.mono_neutral_right)
  have "electorate t A B \<subseteq> dom (RBT.lookup t) \<union> A \<union> B" by (auto simp: electorate_def)
  then show "finite (F \<inter> electorate t A B)" using assms finite_subset by blast
qed (auto simp: electorate_def rep_weight_def unwrap_or_zero_def split: option.splits)

lemma confirmed_winners_agree:
  assumes e1: "election_inv cr e1" "\<not> has_ended (el_state e1)"
      "update_tallies cr e1 (RBT.lookup t) q1 = Some e1'" "el_state e1' = Confirmed"
    and e2: "election_inv cr e2" "\<not> has_ended (el_state e2)"
      "update_tallies cr e2 (RBT.lookup t) q2 = Some e2'" "el_state e2' = Confirmed"
    and q: "total_weight (RBT.lookup t) + faulty_weight (RBT.lookup t) F < unat q1 + unat q2"
    and honest: "\<And>v s1 s2. v \<notin> F \<Longrightarrow> map_of (el_votes e1) v = Some s1 \<Longrightarrow> is_final_vote s1 \<Longrightarrow>
      map_of (el_votes e2) v = Some s2 \<Longrightarrow> is_final_vote s2 \<Longrightarrow> vs_hash s1 = vs_hash s2"
  shows "winner_hash cr e1' = winner_hash cr e2'"
proof -
  let ?w = "rep_weight (RBT.lookup t)"
  let ?A = "final_voters e1 (winner_hash cr e1')" and ?B = "final_voters e2 (winner_hash cr e2')"
  let ?V = "electorate t ?A ?B"
  have "sum ?w ?V + sum ?w (F \<inter> ?V) < sum ?w ?A + sum ?w ?B"
    using q confirmed_by_quorum [OF e1] confirmed_by_quorum [OF e2]
      weight_of_electorate [OF finite_final_voters finite_final_voters, of t UNIV]
      weight_of_electorate [OF finite_final_voters finite_final_voters, of t F]
    by (simp add: total_weight_def faulty_weight_def)
  then obtain v where "v \<in> ?A" "v \<in> ?B" "v \<notin> F \<inter> ?V"
    by (rule finals.honest_intersection [rotated 2]) (auto simp: electorate_def)
  then show ?thesis using honest by (auto simp: final_voters_def electorate_def)
qed

end
