(* ===== verification/Example_Ledger.thy ===== *)
theory Example_Ledger
  imports Ledger_Processing
begin

text \<open>
  A small concrete network on which the theorems are instantiated: a transparent hash function, a
  genesis account that owns the whole supply, a block that sends 10 raw to a new account, and a
  block that opens this account.
\<close>

text \<open>
  The hash of a state block is its representative field, that of a legacy send its destination;
  every other block hashes to the first field it hashes. All signatures are valid.
\<close>

definition demo_crypto :: crypto where
  "demo_crypto =
    \<lparr> blake2b = (\<lambda>n bs. take n (drop (if length bs = 176 then 96 else if length bs = 80 then 32 else 0) bs)),
      ed25519_verify = (\<lambda>_ _ _. True) \<rparr>"

definition demo_genesis :: open_block where
  "demo_genesis =
    \<lparr> opn_source = 5, opn_representative = 7, opn_account = 7, opn_signature = 0, opn_work = 0 \<rparr>"

definition demo_constants :: ledger_constants where
  "demo_constants = new_ledger_constants (work_none demo_crypto) demo_genesis 9"

lemma demo_hash [simp]:
  "build_hash demo_crypto (state_hashables s) = st_representative s"
  "build_hash demo_crypto (open_hashables g) = opn_source g"
  "build_hash demo_crypto (send_hashables x) = snd_destination x"
  by (simp_all add: be_bytes_roundtrip demo_crypto_def build_hash_def state_hashables_def open_hashables_def
      send_hashables_def)

lemma demo_signatures [simp]: "verify_signature demo_crypto a h s"
  by (simp add: verify_signature_def demo_crypto_def)

lemma demo_work [simp]: "is_valid_pow (work_none demo_crypto) b (new_details Epoch0 s r e)"
  by (simp add: is_valid_pow_def threshold_def work_none_def with_difficulty_def new_details_def)

lemma demo_genesis_ok: "genesis_ok demo_crypto demo_constants"
  unfolding genesis_ok_def demo_constants_def
  by (intro exI conjI) (rule refl, simp_all add: demo_genesis_def)

text \<open>Epoch links end in zero bytes.\<close>

lemma epoch_link_bytes_roundtrip: "be_bytes 32 (of_be_bytes (epoch_link_bytes d) :: link) = epoch_link_bytes d"
  using be_bytes_of_be_bytes [of "epoch_link_bytes d", where 'a = 256] by (simp add: epoch_link_bytes_def)

lemma epoch_link_low_byte:
  "ucast epoch_v1_link = (0 :: u8)" "ucast epoch_v2_link = (0 :: u8)"
proof -
  have last: "last (be_bytes 32 x) = ucast x" for x :: link
    using le_bytes.simps(2) [of 31 x] by (simp add: be_bytes_def last_rev)
  have "ucast (of_be_bytes (epoch_link_bytes d) :: link) = (0 :: u8)" for d
    using last [of "of_be_bytes (epoch_link_bytes d)"] epoch_link_bytes_roundtrip [of d]
    by (simp add: epoch_link_bytes_def)
  then show "ucast epoch_v1_link = (0 :: u8)" "ucast epoch_v2_link = (0 :: u8)"
    by (simp_all add: epoch_v1_link_def epoch_v2_link_def)
qed

lemma le_bytes_zero: "le_bytes n (0 :: 'a::len word) = replicate n 0"
  by (induction n) simp_all

lemma epoch_v1_link_nonzero: "epoch_v1_link \<noteq> 0"
proof
  assume "epoch_v1_link = 0"
  then have "epoch_link_bytes 0x31 = replicate 32 0"
    using epoch_link_bytes_roundtrip [of "0x31"] by (simp add: epoch_v1_link_def be_bytes_def le_bytes_zero)
  then have "hd (epoch_link_bytes 0x31) = hd (replicate 32 0)" by simp
  then show False by (simp add: epoch_link_bytes_def hd_replicate)
qed

lemma not_epoch_link: "ucast x \<noteq> (0 :: u8) \<Longrightarrow> epoch_v1_link \<noteq> x \<and> epoch_v2_link \<noteq> x"
  using epoch_link_low_byte by auto

lemma demo_start:
  obtains L where "initialize_ledger demo_crypto demo_constants 0 empty_ledger = Some L"
    "ledger_inv demo_crypto 0 L" "reachable demo_crypto demo_constants 0 L"
    "block_get L = [5 \<mapsto> stored_genesis demo_genesis]"
    "account_get L = [7 \<mapsto> genesis_info demo_crypto demo_genesis]"
    "pending_get L = Map.empty" "lg_next_id L = 1" "lg_pruned L = RBT.empty"
    "conf_height_get L = [7 \<mapsto> \<lparr> ch_height = 1, ch_frontier = 5 \<rparr>]" "final_vote_get L = Map.empty"
proof -
  obtain i d where L: "initialize_ledger demo_crypto demo_constants 0 empty_ledger
      = Some (genesis_ledger demo_crypto 0 demo_genesis i d)"
    "block_get (genesis_ledger demo_crypto 0 demo_genesis i d)
      = [block_hash_of demo_crypto (LegacyOpen demo_genesis) \<mapsto> stored_genesis demo_genesis]"
    by (rule initialize_effects [OF demo_constants_def])
  have g: "opn_account demo_genesis = 7" "opn_source demo_genesis = 5"
    by (simp_all add: demo_genesis_def)
  show thesis
    using L initialize_inv [OF demo_genesis_ok, of 0] reachable.start [OF L(1)]
      genesis_views [of demo_crypto 0 demo_genesis i d]
    by (intro that [OF L(1)])
      (simp_all add: g final_vote_get_def genesis_ledger_def empty_ledger_def store_get_empty)
qed

definition demo_send :: block where
  "demo_send = State
    \<lparr> st_account = 7, st_previous = 5, st_representative = 11, st_balance = amount_max - 10,
      st_link = 20, st_signature = 0, st_work = 0 \<rparr>"

lemma demo_send_valid:
  assumes B: "block_get L = [5 \<mapsto> stored_genesis demo_genesis]"
    and A: "account_get L = [7 \<mapsto> genesis_info demo_crypto demo_genesis]"
    and P: "pending_get L = Map.empty" and inv: "ledger_inv demo_crypto 0 L"
  shows "\<exists>ins. validate_block demo_crypto demo_constants L demo_send now = Inr ins \<and> in_account ins = 7 \<and>
    in_delete_pending ins = None \<and> in_insert_pending ins =
      Some (PendingKey 20 11, \<lparr> pi_source = 7, pi_amount = 10, pi_epoch = Epoch0 \<rparr>)"
proof -
  have lt: "amount_max - 10 < amount_max" by (simp add: amount_max_def word_less_nat_alt unsigned_minus_1_eq_mask mask_eq_exp_minus_1)
  have fresh: "\<not> any_block_exists_or_pruned L 11"
    using inv B exists_or_pruned_iff [of L 11] by (simp add: ledger_inv_def)
  have links: "epoch_v1_link \<noteq> 20" "epoch_v2_link \<noteq> 20"
    using not_epoch_link [of 20] by simp_all
  have ge: "\<not> amount_max < amount_max - 10" "\<not> amount_max \<le> amount_max - 10"
    using lt by simp_all
  show ?thesis
    using lt ge fresh links
    by (simp add: validate_block_def validate_Inr validation_checks_def check_defs helper_defs create_instructions_def
       create_validator_def Let_def demo_send_def load_previous_block_def any_get_block_def B validator_account_def A P
       sv_account_def sv_balance_def stored_genesis_def new_saved_block_def genesis_sideband_def genesis_info_def new_pending_info_def
       demo_genesis_def demo_constants_def new_ledger_constants_def is_epoch_link_def epochs_add_def source_or_link_def pending_key_for_send_block_def)
qed

lemma demo_batch_ok:
  assumes "block_get L = [5 \<mapsto> stored_genesis demo_genesis]" "lg_next_id L = 1"
  shows "batch_ok demo_crypto demo_constants L [(demo_send, now)]"
proof -
  have "\<not> amount_max < amount_max - 10"
    by (simp add: amount_max_def word_less_nat_alt unsigned_minus_1_eq_mask mask_eq_exp_minus_1)
  then show ?thesis
    using assms
    by (simp add: batch_ok_def epoch_link_increase_def demo_send_def load_previous_block_def any_get_block_def
        stored_genesis_def new_saved_block_def sv_balance_def genesis_sideband_def)
qed

text \<open>The ledger after the send.\<close>

lemma demo_sent:
  obtains L L' sv where "reachable demo_crypto demo_constants 0 L" "ledger_inv demo_crypto 0 L"
    "batch_ok demo_crypto demo_constants L [(demo_send, 0)]"
    "process_batch demo_crypto demo_constants 0 L [(demo_send, 0)] = Some (L', [(Ok, Some sv)])"
    "reachable demo_crypto demo_constants 0 L'" "ledger_inv demo_crypto 0 L'"
    "block_get L = [5 \<mapsto> stored_genesis demo_genesis]" "block_get L' = (block_get L)(11 \<mapsto> sv)"
    "sv_block sv = demo_send"
    "pending_get L' = [PendingKey 20 11 \<mapsto> \<lparr> pi_source = 7, pi_amount = 10, pi_epoch = Epoch0 \<rparr>]"
    "lg_next_id L' = 2" "account_get L' 20 = None"
proof -
  obtain L where L: "reachable demo_crypto demo_constants 0 L" "ledger_inv demo_crypto 0 L"
    "block_get L = [5 \<mapsto> stored_genesis demo_genesis]"
    "account_get L = [7 \<mapsto> genesis_info demo_crypto demo_genesis]" "pending_get L = Map.empty"
    "lg_next_id L = 1"
    by (rule demo_start)
  have ok: "batch_ok demo_crypto demo_constants L [(demo_send, 0)]"
    by (rule demo_batch_ok [OF L(3,6)])
  obtain ins where v: "validate_block demo_crypto demo_constants L demo_send 0 = Inr ins" "in_account ins = 7"
    "in_delete_pending ins = None"
    "in_insert_pending ins = Some (PendingKey 20 11, \<lparr> pi_source = 7, pi_amount = 10, pi_epoch = Epoch0 \<rparr>)"
    using demo_send_valid [OF L(3,4,5,2)] by blast
  have ins: "insertable demo_crypto L demo_send ins"
    using ok by (intro validated_insertable [OF v(1) L(2)]) (simp_all add: batch_ok_def)
  have room: "lg_next_id L < - 1"
    by (simp add: L(6) word_less_nat_alt unsigned_minus_1_eq_mask mask_eq_exp_minus_1)
  let ?sv = "new_saved_block demo_send (in_set_sideband ins)"
  obtain L' where L': "insert_block demo_crypto 0 L demo_send ins = Some (L', Some ?sv)"
    and eff: "inserted demo_crypto L demo_send ins L'" "block_store_inv L'" "weight_inv 0 L'" "supply_inv L'"
    by (rule insert_effects [OF L(2) ins room])
  have p: "process_batch demo_crypto demo_constants 0 L [(demo_send, 0)] = Some (L', [(Ok, Some ?sv)])"
    by (simp add: process_batch_def v(1) L')
  have hash: "block_hash_of demo_crypto demo_send = 11"
    by (simp add: demo_send_def)
  show thesis
    using eff(1)
    by (intro that [OF L(1,2) ok p reachable.batch [OF L(1) ok p] inserted_ledger_inv [OF L(2) ins room eff] L(3)])
      (simp_all add: inserted_def hash v pending_after_def L(4,5,6) new_saved_block_def)
qed

text \<open>The block that opens the receiving account.\<close>

definition demo_open :: block where
  "demo_open = State
    \<lparr> st_account = 20, st_previous = 0, st_representative = 12, st_balance = 10,
      st_link = 11, st_signature = 0, st_work = 0 \<rparr>"

lemma demo_open_valid:
  assumes B: "block_get L 11 = Some sv" "block_get L 12 = None"
    and A: "account_get L 20 = None" and inv: "ledger_inv demo_crypto 0 L"
    and P: "pending_get L = [PendingKey 20 11 \<mapsto> \<lparr> pi_source = 7, pi_amount = 10, pi_epoch = Epoch0 \<rparr>]"
  shows "\<exists>ins. validate_block demo_crypto demo_constants L demo_open now = Inr ins \<and>
    in_delete_pending ins = Some (PendingKey 20 11)"
proof -
  have ex: "any_block_exists_or_pruned L 11" "\<not> any_block_exists_or_pruned L 12"
    using inv B exists_or_pruned_iff [of L 11] exists_or_pruned_iff [of L 12] by (simp_all add: ledger_inv_def)
  have links: "epoch_v1_link \<noteq> 11" "epoch_v2_link \<noteq> 11"
    using not_epoch_link [of 11] by simp_all
  show ?thesis
    using ex links
    by (simp add: validate_block_def validate_Inr validation_checks_def check_defs helper_defs create_instructions_def
       create_validator_def Let_def demo_open_def load_previous_block_def validator_account_def A P
       demo_constants_def new_ledger_constants_def is_epoch_link_def epochs_add_def source_or_link_def)
qed

lemma demo_open_batch_ok:
  assumes "lg_next_id L = 2"
  shows "batch_ok demo_crypto demo_constants L [(demo_open, now)]"
  using assms not_epoch_link [of 11]
  by (simp add: batch_ok_def epoch_link_increase_def demo_open_def demo_constants_def new_ledger_constants_def
      is_epoch_link_def epochs_add_def Let_def)

text \<open>A block that opens an account with an epoch link and a balance of 1000 raw.\<close>

definition demo_mint :: block where
  "demo_mint = State
    \<lparr> st_account = 20, st_previous = 0, st_representative = 13, st_balance = 1000,
      st_link = epoch_v1_link, st_signature = 0, st_work = 0 \<rparr>"

lemma demo_mint_increase: "epoch_link_increase demo_constants L demo_mint"
  by (simp add: epoch_link_increase_def demo_mint_def demo_constants_def new_ledger_constants_def
      is_epoch_link_def epochs_add_def Let_def load_previous_block_def)

lemma demo_mint_valid:
  assumes B: "block_get L 13 = None" and A: "account_get L 20 = None" and P: "pending_get L = Map.empty"
    and inv: "ledger_inv demo_crypto 0 L"
  shows "\<exists>ins. validate_block demo_crypto demo_constants L demo_mint now = Inr ins"
proof -
  have ex: "\<not> any_block_exists_or_pruned L 13"
    using inv B exists_or_pruned_iff [of L 13] by (simp add: ledger_inv_def)
  show ?thesis
    using ex epoch_v1_link_nonzero
    by (simp add: validate_block_def validate_Inr validation_checks_def check_defs helper_defs create_instructions_def
       create_validator_def Let_def demo_mint_def load_previous_block_def validator_account_def A P
       demo_constants_def new_ledger_constants_def is_epoch_link_def epochs_add_def source_or_link_def)
qed

text \<open>A legacy send of nothing.\<close>

definition demo_zero_send :: block where
  "demo_zero_send = LegacySend
    \<lparr> snd_previous = 5, snd_destination = 21, snd_balance = amount_max, snd_signature = 0, snd_work = 0 \<rparr>"

lemma demo_zero_send_valid:
  assumes B: "block_get L = [5 \<mapsto> stored_genesis demo_genesis]"
    and A: "account_get L = [7 \<mapsto> genesis_info demo_crypto demo_genesis]"
    and P: "pending_get L = Map.empty" and inv: "ledger_inv demo_crypto 0 L"
  shows "\<exists>ins. validate_block demo_crypto demo_constants L demo_zero_send now = Inr ins \<and>
    ai_balance (in_set_account_info ins) = ai_balance (in_old_account_info ins)"
proof -
  have fresh: "\<not> any_block_exists_or_pruned L 21"
    using inv B exists_or_pruned_iff [of L 21] by (simp add: ledger_inv_def)
  show ?thesis
    using fresh
    by (simp add: validate_block_def validate_Inr validation_checks_def check_defs helper_defs create_instructions_def
       create_validator_def Let_def demo_zero_send_def load_previous_block_def any_get_block_def B validator_account_def A P
       sv_account_def sv_balance_def stored_genesis_def new_saved_block_def genesis_sideband_def genesis_info_def new_pending_info_def new_account_info_def new_balance_def
       demo_genesis_def demo_constants_def new_ledger_constants_def is_epoch_link_def epochs_add_def source_or_link_def)
qed

lemma demo_zero_send_batch_ok:
  "lg_next_id L = 1 \<Longrightarrow> batch_ok demo_crypto demo_constants L [(demo_zero_send, now)]"
  by (simp add: batch_ok_def epoch_link_increase_def demo_zero_send_def)

end
