(* ===== verification/Dependencies.thy ===== *)
theory Dependencies
  imports Ledger_Processing
begin

text \<open>
  The dependency graph of a ledger (previous blocks and sources): every dependency of a stored block
  is stored, and the graph has no cycles. Both hold because a block is only inserted when its
  predecessor and its source are there.
\<close>

abbreviation deps :: "ledger_constants \<Rightarrow> saved_block \<Rightarrow> block_hash list" where
  "deps c b \<equiv> dependents_iter (dependent_blocks b (lc_epochs c) (lc_genesis_account c))"

lemma deps_nonzero: "d \<in> set (deps c b) \<Longrightarrow> d \<noteq> 0"
  by (cases "dependent_blocks b (lc_epochs c) (lc_genesis_account c)") (auto split: if_splits)

lemma previous_in_deps: "sv_previous b \<noteq> 0 \<Longrightarrow> sv_previous b \<in> set (deps c b)"
  by (cases "sv_block b") (auto simp: dependent_blocks_def)

text \<open>A block is grounded when all chains of dependencies from it end.\<close>

inductive grounded :: "ledger_constants \<Rightarrow> (block_hash \<rightharpoonup> saved_block) \<Rightarrow> block_hash \<Rightarrow> bool"
  for c :: ledger_constants and B :: "block_hash \<rightharpoonup> saved_block" where
  "B h = Some b \<Longrightarrow> (\<And>d. d \<in> set (deps c b) \<Longrightarrow> grounded c B d) \<Longrightarrow> grounded c B h"

lemma grounded_mono: "grounded c B h \<Longrightarrow> B \<subseteq>\<^sub>m B' \<Longrightarrow> grounded c B' h"
  by (induction rule: grounded.induct) (metis map_le_lookup grounded.intros)

lemma grounded_irrefl: "grounded c B h \<Longrightarrow> B h = Some b \<Longrightarrow> h \<notin> set (deps c b)"
  by (induction arbitrary: b rule: grounded.induct) fastforce

definition deps_inv :: "ledger_constants \<Rightarrow> ledger \<Rightarrow> bool" where
  "deps_inv c L \<longleftrightarrow> (\<forall>h b. block_get L h = Some b \<longrightarrow> grounded c (block_get L) h)"

definition deps_stored :: "ledger_constants \<Rightarrow> ledger \<Rightarrow> block \<Rightarrow> block_insert_instructions \<Rightarrow> bool" where
  "deps_stored c L b ins \<longleftrightarrow>
    (\<forall>d \<in> set (deps c (new_saved_block b (in_set_sideband ins))). block_get L d \<noteq> None)"

lemma deps_stored_mono: "deps_stored c L b ins \<Longrightarrow> block_get L \<subseteq>\<^sub>m block_get L' \<Longrightarrow> deps_stored c L' b ins"
  unfolding deps_stored_def by (metis map_le_lookup not_None_eq)

lemma validated_previous_stored:
  assumes ok: "first_error (validation_checks cr (create_validator cr c L b now)) = Ok"
    and inv: "ledger_inv cr mw L" and nz: "block_previous b \<noteq> 0"
  shows "block_get L (block_previous b) \<noteq> None"
proof (cases "account_get L (account_for L b)")
  case None
  with validated_new_account [OF ok None] nz show ?thesis by simp
next
  case (Some i)
  obtain p where "block_previous b = ai_head i" "block_get L (ai_head i) = Some p"
    using validated_old_account [OF ok Some inv] by metis
  then show ?thesis by simp
qed

lemma validated_source_stored:
  assumes ok: "first_error (validation_checks cr (create_validator cr c L b now)) = Ok"
    and inv: "ledger_inv cr mw L" and rcv: "is_receive (create_validator cr c L b now)"
  shows "block_get L (source_or_link b) \<noteq> None"
proof -
  have "bv_source_block_exists (create_validator cr c L b now)"
    using ok rcv by (simp add: validation_checks_def ensure_pending_receive_is_correct_def ensure_source_block_exists_def)
  then have "any_block_exists_or_pruned L (source_or_link b)"
    by (simp add: create_validator_def Let_def)
  with exists_or_pruned_iff [of L "source_or_link b"] inv show ?thesis by (simp add: ledger_inv_def)
qed

lemma validated_deps_stored:
  assumes val: "validate_block cr c L b now = Inr ins" and inv: "ledger_inv cr mw L"
  shows "deps_stored c L b ins"
proof -
  let ?v = "create_validator cr c L b now"
  have ok: "first_error (validation_checks cr ?v) = Ok" and ins: "ins = create_instructions cr ?v"
    using val by (simp_all add: validate_block_def validate_Inr)
  note prev = validated_previous_stored [OF ok inv] and src = validated_source_stored [OF ok inv]
  let ?sv = "new_saved_block b (in_set_sideband ins)"
  show ?thesis
  proof (cases b)
    case (State s)
    have snd: "sv_is_send ?sv \<longleftrightarrow> is_send ?v"
      by (simp add: State sv_is_send_def new_saved_block_def ins create_instructions_def new_sideband_def
          validator_details_def new_details_def)
    have "is_receive ?v" if "\<not> is_send ?v" "\<not> is_epoch_link (lc_epochs c) (st_link s)" "st_link s \<noteq> 0"
      using that State by (auto simp: is_send_def is_receive_def has_epoch_link_def split: option.splits)
    with State snd prev src show ?thesis
      by (auto simp: deps_stored_def dependent_blocks_def new_saved_block_def split: if_splits)
  qed (use prev src in \<open>auto simp: deps_stored_def dependent_blocks_def new_saved_block_def is_receive_def
      split: if_splits\<close>)
qed

lemma inserted_deps_inv:
  assumes ins: "insertable cr L b ins" and eff: "inserted cr L b ins L'"
    and st: "deps_stored c L b ins" and inv: "deps_inv c L"
  shows "deps_inv c L'"
  unfolding deps_inv_def
proof (intro allI impI)
  fix h x assume x: "block_get L' h = Some x"
  note sub = inserted_extends [OF ins eff]
  show "grounded c (block_get L') h"
  proof (cases "h = block_hash_of cr b")
    case False
    then have "block_get L h = Some x" using x eff by (simp add: inserted_def)
    with inv sub show ?thesis by (auto simp: deps_inv_def intro: grounded_mono)
  next
    case True
    then have new: "x = new_saved_block b (in_set_sideband ins)" using x eff by (simp add: inserted_def)
    have "grounded c (block_get L') d" if "d \<in> set (deps c x)" for d
    proof -
      have "block_get L d \<noteq> None"
        using that by (intro st [unfolded deps_stored_def, rule_format]) (simp only: new)
      then obtain y where "block_get L d = Some y" by (cases "block_get L d") simp_all
      then have "grounded c (block_get L) d" using inv by (simp add: deps_inv_def)
      then show ?thesis using sub by (rule grounded_mono)
    qed
    then show ?thesis by (rule grounded.intros [of "block_get L'", OF x])
  qed
qed

lemma process_batch_deps_inv:
  assumes inv: "ledger_inv cr mw L" and ok: "batch_ok cr c L batch" and deps: "deps_inv c L"
    and p: "process_batch cr c mw L batch = Some (L', out)"
  shows "deps_inv c L'"
proof -
  have "\<exists>L' out. process_batch cr c mw L batch = Some (L', out) \<and> ledger_inv cr mw L' \<and> deps_inv c L' \<and>
      length out = length batch"
    by (rule process_batch_keeps [where V = "deps_stored c" and K = "deps_inv c", OF inv ok deps])
      (auto intro: validated_deps_stored [OF _ inv] deps_stored_mono inserted_deps_inv)
  with p show ?thesis by auto
qed

lemma initialize_deps_inv:
  assumes "genesis_ok cr c" "initialize_ledger cr c mw empty_ledger = Some L"
  shows "deps_inv c L"
proof -
  obtain wt g signer where c: "c = new_ledger_constants wt g signer"
    using assms(1) by (auto simp: genesis_ok_def)
  obtain i d where "initialize_ledger cr c mw empty_ledger = Some (genesis_ledger cr mw g i d)"
    and get: "block_get (genesis_ledger cr mw g i d) = [block_hash_of cr (LegacyOpen g) \<mapsto> stored_genesis g]"
    by (rule initialize_effects [OF c])
  then have L: "L = genesis_ledger cr mw g i d" using assms(2) by simp
  have none: "deps c (stored_genesis g) = []"
    by (simp add: dependent_blocks_def stored_genesis_def new_saved_block_def c new_ledger_constants_def Let_def)
  show ?thesis
    unfolding deps_inv_def L
  proof (intro allI impI)
    fix h b assume b: "block_get (genesis_ledger cr mw g i d) h = Some b"
    then have "b = stored_genesis g" by (simp add: get split: if_splits)
    then show "grounded c (block_get (genesis_ledger cr mw g i d)) h"
      using none by (intro grounded.intros [of "block_get (genesis_ledger cr mw g i d)", OF b]) simp
  qed
qed

lemma reachable_deps_inv: "reachable cr c mw L \<Longrightarrow> genesis_ok cr c \<Longrightarrow> deps_inv c L"
proof (induction rule: reachable.induct)
  case (start L)
  then show ?case using initialize_deps_inv by blast
next
  case (batch L bs L' out)
  then show ?case using process_batch_deps_inv [OF reachable_ledger_inv] by blast
qed

end
