(* ===== verification/Cementing.thy ===== *)
theory Cementing
  imports Dependencies Account_Chain
begin

text \<open>
  Cementing of blocks (\<open>ledger/src/block_cementer.rs\<close> and \<open>confirm_batch\<close> of
  \<open>ledger/src/ledger.rs\<close>): the dependencies of a block are confirmed before the block itself, with
  an explicit, bounded stack. \<open>refresh n L\<close> is what the transaction sees after the \<open>n\<close>-th chance to
  refresh it: \<open>None\<close> when it was not refreshed, otherwise the ledger as other writers left it.
\<close>

section \<open>The model\<close>

definition is_confirmed :: "ledger \<Rightarrow> block_hash \<Rightarrow> bool" where
  "is_confirmed L h =
    (if pruned_exists L h then True
     else case block_get L h of
       None \<Rightarrow> False
     | Some b \<Rightarrow>
         (case conf_height_get L (sv_account b) of
           None \<Rightarrow> False
         | Some info \<Rightarrow> sv_height b \<le> ch_height info))"

text \<open>The back of the deque is the head of the list, the front its last element.\<close>

fun push_dependents :: "ledger \<Rightarrow> nat \<Rightarrow> block_hash list \<Rightarrow> block_hash list \<Rightarrow> block_hash list" where
  "push_dependents L max_blocks [] stack = stack"
| "push_dependents L max_blocks (d # ds) stack =
    (if d \<noteq> 0 \<and> \<not> is_confirmed L d
     then push_dependents L max_blocks ds
            (if max_blocks < length (d # stack) then butlast (d # stack) else d # stack)
     else push_dependents L max_blocks ds stack)"

definition cement_block :: "crypto \<Rightarrow> ledger \<Rightarrow> saved_block \<Rightarrow> ledger" where
  "cement_block cr L b =
    (conf_height_put L (sv_account b) \<lparr> ch_height = sv_height b, ch_frontier = sv_hash cr b \<rparr>)
      \<lparr> lg_confirmed_count := lg_confirmed_count L + 1 \<rparr>"

partial_function (option) confirm_loop ::
  "crypto \<Rightarrow> ledger_constants \<Rightarrow> nat \<Rightarrow> (nat \<Rightarrow> ledger \<Rightarrow> ledger option) \<Rightarrow> block_hash \<Rightarrow> nat \<Rightarrow>
    ledger \<Rightarrow> block_hash list \<Rightarrow> saved_block list \<Rightarrow> (ledger \<times> saved_block list) option" where
  "confirm_loop cr c max_blocks refresh target n L stack result =
    (case stack of
      [] \<Rightarrow> Some (L, result)
    | h # _ \<Rightarrow> do {
        b \<leftarrow> block_get L h;
        let stack = push_dependents L max_blocks
          (dependents_iter (dependent_blocks b (lc_epochs c) (lc_genesis_account c))) stack;
        let (L, stack, result) =
          (if take 1 stack = [h]
           then (if is_confirmed L h then (L, tl stack, result)
                 else (cement_block cr L b, tl stack, result @ [b]))
           else (L, stack, result));
        (case refresh n L of
          Some L' \<Rightarrow>
            if \<not> block_exists_store L' target then Some (L', result)
            else if max_blocks \<le> length result then Some (L', result)
            else confirm_loop cr c max_blocks refresh target (n + 1) L' stack result
        | None \<Rightarrow>
            if max_blocks \<le> length result then Some (L, result)
            else confirm_loop cr c max_blocks refresh target (n + 1) L stack result) })"

definition confirm_max ::
  "crypto \<Rightarrow> ledger_constants \<Rightarrow> (nat \<Rightarrow> ledger \<Rightarrow> ledger option) \<Rightarrow> ledger \<Rightarrow> block_hash \<Rightarrow> nat \<Rightarrow>
    (ledger \<times> saved_block list) option" where
  "confirm_max cr c refresh L target max_blocks = confirm_loop cr c max_blocks refresh target 0 L [target] []"

definition confirm ::
  "crypto \<Rightarrow> ledger_constants \<Rightarrow> (nat \<Rightarrow> ledger \<Rightarrow> ledger option) \<Rightarrow> ledger \<Rightarrow> block_hash \<Rightarrow>
    (ledger \<times> saved_block list) option" where
  "confirm cr c refresh L target = confirm_max cr c refresh L target (1024 * 128)"

text \<open>
  \<open>confirm_batch\<close>: what the observer is told. In round \<open>n\<close> the transaction may be refreshed
  (\<open>env n\<close>) and the node may be stopping (\<open>stopped n\<close>).
\<close>

datatype cementing_event =
    BatchConfirmed "(saved_block \<times> block_hash) list"
  | AlreadyConfirmed block_hash
  | CementingFailed block_hash

record cementing_state =
  ct_ledger :: ledger
  ct_confirmed :: "(saved_block \<times> block_hash) list"
  ct_blocks_confirmed :: nat
  ct_events :: "cementing_event list"
  ct_round :: nat

definition root_cemented :: "ledger \<Rightarrow> block_hash \<Rightarrow> bool" where
  "root_cemented L h =
    (case block_get L h of
      None \<Rightarrow> False
    | Some b \<Rightarrow>
        (case conf_height_get L (sv_account b) of
          None \<Rightarrow> False
        | Some info \<Rightarrow> sv_height b \<le> ch_height info))"

definition notify_intermediate :: "nat \<Rightarrow> cementing_state \<Rightarrow> cementing_state" where
  "notify_intermediate max_blocks s =
    (if max_blocks \<le> ct_blocks_confirmed s
     then s\<lparr> ct_blocks_confirmed := 0, ct_events := ct_events s @ [BatchConfirmed (ct_confirmed s)],
            ct_confirmed := [] \<rparr>
     else s)"

text \<open>\<open>Inl\<close>: the node was stopped; \<open>Inr success\<close>: this root is done.\<close>

partial_function (option) confirm_root ::
  "crypto \<Rightarrow> ledger_constants \<Rightarrow> (nat \<Rightarrow> nat \<Rightarrow> ledger \<Rightarrow> ledger option) \<Rightarrow> (nat \<Rightarrow> ledger \<Rightarrow> ledger) \<Rightarrow>
    (nat \<Rightarrow> bool) \<Rightarrow> nat \<Rightarrow> block_hash \<Rightarrow> cementing_state \<Rightarrow> (cementing_state \<times> (unit + bool)) option" where
  "confirm_root cr c refresh env stopped max_blocks root s =
    (let n = ct_round s; s = s\<lparr> ct_ledger := env n (ct_ledger s), ct_round := n + 1 \<rparr> in
     if stopped n then Some (s, Inl ())
     else
       (let s = notify_intermediate max_blocks s in
        if \<not> block_exists_store (ct_ledger s) root then Some (s, Inr False)
        else do {
          (L, added) \<leftarrow> confirm_max cr c (refresh n) (ct_ledger s) root max_blocks;
          let s = s\<lparr> ct_ledger := L \<rparr>;
          let s =
            (if added \<noteq> []
             then s\<lparr> ct_blocks_confirmed := ct_blocks_confirmed s + length added,
                    ct_confirmed := ct_confirmed s @ map (\<lambda>b. (b, root)) added \<rparr>
             else if confirmed_block_exists L root
             then s\<lparr> ct_events := ct_events s @ [AlreadyConfirmed root] \<rparr>
             else s);
          (if root_cemented L root then Some (s, Inr True)
           else confirm_root cr c refresh env stopped max_blocks root s) }))"

fun confirm_roots ::
  "crypto \<Rightarrow> ledger_constants \<Rightarrow> (nat \<Rightarrow> nat \<Rightarrow> ledger \<Rightarrow> ledger option) \<Rightarrow> (nat \<Rightarrow> ledger \<Rightarrow> ledger) \<Rightarrow>
    (nat \<Rightarrow> bool) \<Rightarrow> nat \<Rightarrow> block_hash list \<Rightarrow> cementing_state \<Rightarrow> cementing_state option" where
  "confirm_roots cr c refresh env stopped max_blocks [] s =
    Some (if ct_confirmed s = [] then s
          else s\<lparr> ct_events := ct_events s @ [BatchConfirmed (ct_confirmed s)] \<rparr>)"
| "confirm_roots cr c refresh env stopped max_blocks (root # batch) s = do {
    (s, r) \<leftarrow> confirm_root cr c refresh env stopped max_blocks root s;
    (case r of
      Inl _ \<Rightarrow> Some s
    | Inr True \<Rightarrow> confirm_roots cr c refresh env stopped max_blocks batch s
    | Inr False \<Rightarrow>
        confirm_roots cr c refresh env stopped max_blocks batch
          (s\<lparr> ct_events := ct_events s @ [CementingFailed root] \<rparr>)) }"

definition confirm_batch ::
  "crypto \<Rightarrow> ledger_constants \<Rightarrow> (nat \<Rightarrow> nat \<Rightarrow> ledger \<Rightarrow> ledger option) \<Rightarrow> (nat \<Rightarrow> ledger \<Rightarrow> ledger) \<Rightarrow>
    (nat \<Rightarrow> bool) \<Rightarrow> ledger \<Rightarrow> block_hash list \<Rightarrow> nat \<Rightarrow> (ledger \<times> cementing_event list) option" where
  "confirm_batch cr c refresh env stopped L batch max_blocks = do {
    s \<leftarrow> confirm_roots cr c refresh env stopped max_blocks batch
      \<lparr> ct_ledger = L, ct_confirmed = [], ct_blocks_confirmed = 0, ct_events = [], ct_round = 0 \<rparr>;
    Some (ct_ledger s, ct_events s) }"

section \<open>Cementing one block\<close>

text \<open>The dependencies of a cemented block are cemented.\<close>

definition deps_closed :: "ledger_constants \<Rightarrow> ledger \<Rightarrow> bool" where
  "deps_closed c L \<longleftrightarrow> (\<forall>h b. block_get L h = Some b \<longrightarrow> is_confirmed L h \<longrightarrow>
    (\<forall>d \<in> set (deps c b). is_confirmed L d))"

lemma cement_block_views [simp]:
  "block_get (cement_block cr L b) = block_get L"
  "account_get (cement_block cr L b) = account_get L"
  "pending_get (cement_block cr L b) = pending_get L"
  "successor_get (cement_block cr L b) = successor_get L"
  "rep_weight_get (cement_block cr L b) = rep_weight_get L"
  "lg_rep_cache (cement_block cr L b) = lg_rep_cache L"
  "lg_pruned (cement_block cr L b) = lg_pruned L"
  "lg_final_vote (cement_block cr L b) = lg_final_vote L"
  "lg_next_id (cement_block cr L b) = lg_next_id L"
  "lg_block_count (cement_block cr L b) = lg_block_count L"
  "lg_account_count (cement_block cr L b) = lg_account_count L"
  "lg_confirmed_count (cement_block cr L b) = lg_confirmed_count L + 1"
  using block_get_frame [of "cement_block cr L b" L]
  by (simp_all add: cement_block_def conf_height_put_def account_get_def pending_get_def successor_get_def
      rep_weight_get_def)

lemma cement_block_conf [simp]:
  "conf_height_get (cement_block cr L b) =
    (conf_height_get L)(sv_account b \<mapsto> \<lparr> ch_height = sv_height b, ch_frontier = sv_hash cr b \<rparr>)"
  by (simp add: cement_block_def conf_height_put_def conf_height_get_def confirmation_height_codec.store_get_put)

lemma cement_block_store [simp]: "block_store_inv (cement_block cr L b) \<longleftrightarrow> block_store_inv L"
  using block_store_inv_frame [of L "cement_block cr L b"] block_store_inv_frame [of "cement_block cr L b" L]
  by (auto simp: cement_block_def conf_height_put_def)

text \<open>Confirmed means: at or below the confirmation height of the account.\<close>

lemma is_confirmed_iff:
  assumes "unpruned L" "block_get L h = Some b"
  shows "is_confirmed L h \<longleftrightarrow> (\<exists>ci. conf_height_get L (sv_account b) = Some ci \<and> sv_height b \<le> ch_height ci)"
  using assms by (auto simp: is_confirmed_def split: option.splits)

text \<open>A block whose dependencies are confirmed is the next one of its account to be confirmed.\<close>

lemma next_to_confirm:
  assumes inv: "ledger_inv cr mw L" and b: "block_get L h = Some b" and un: "\<not> is_confirmed L h"
    and prev: "sv_previous b \<noteq> 0 \<Longrightarrow> is_confirmed L (sv_previous b)"
  shows "case conf_height_get L (sv_account b) of
      None \<Rightarrow> unat (sv_height b) = 1
    | Some ci \<Rightarrow> unat (sv_height b) = unat (ch_height ci) + 1"
proof -
  have up: "unpruned L" using inv by (simp add: ledger_inv_def)
  show ?thesis
  proof (cases "sv_previous b = 0")
    case True
    have h1: "sv_height b = 1" using open_block_unique(2) [OF inv b True] .
    have "conf_height_get L (sv_account b) = None"
    proof (cases "conf_height_get L (sv_account b)")
      case (Some ci)
      then obtain f where "block_get L (ch_frontier ci) = Some f" "sv_height f = ch_height ci"
        using inv by (auto simp: ledger_inv_def conf_inv_def)
      with height_positive [OF inv] have "1 \<le> unat (ch_height ci)" by metis
      with un up b Some h1 show ?thesis by (auto simp: is_confirmed_iff word_le_nat_alt)
    qed
    with h1 show ?thesis by simp
  next
    case False
    obtain p where p: "block_get L (sv_previous b) = Some p" "sv_account p = sv_account b"
      "unat (sv_height b) = unat (sv_height p) + 1"
      using previous_block_stored [OF inv b False] by blast
    with prev [OF False] up obtain ci where "conf_height_get L (sv_account b) = Some ci" "sv_height p \<le> ch_height ci"
      by (auto simp: is_confirmed_iff)
    moreover from this un up b have "\<not> sv_height b \<le> ch_height ci" by (auto simp: is_confirmed_iff)
    ultimately show ?thesis using p(3) by (auto simp: word_le_nat_alt)
  qed
qed

lemma cement_block_confirms:
  assumes inv: "ledger_inv cr mw L" and b: "block_get L h = Some b" and un: "\<not> is_confirmed L h"
    and prev: "sv_previous b \<noteq> 0 \<Longrightarrow> is_confirmed L (sv_previous b)"
  shows "is_confirmed (cement_block cr L b) x \<longleftrightarrow> is_confirmed L x \<or> x = h"
proof (cases "block_get L x")
  case None
  then show ?thesis using b by (auto simp: is_confirmed_def pruned_exists_def)
next
  case (Some y)
  have up: "unpruned L" "unpruned (cement_block cr L b)" using inv by (simp_all add: ledger_inv_def unpruned_def)
  note nxt = next_to_confirm [OF inv b un prev]
  show ?thesis
  proof (cases "sv_account y = sv_account b")
    case False
    with Some b up show ?thesis by (auto simp: is_confirmed_iff)
  next
    case True
    have uniq: "unat (sv_height y) = unat (sv_height b) \<longleftrightarrow> x = h"
      using block_at_height_unique [OF inv, of y _ b x h] Some b True by auto
    have pos: "1 \<le> unat (sv_height y)" using height_positive [OF inv Some] .
    show ?thesis
      using up Some True uniq nxt pos
      by (auto simp: is_confirmed_iff [of _ x y] word_le_nat_alt split: option.splits)
  qed
qed

lemma cement_block_inv:
  assumes inv: "ledger_inv cr mw L" and b: "block_get L h = Some b" and un: "\<not> is_confirmed L h"
    and prev: "sv_previous b \<noteq> 0 \<Longrightarrow> is_confirmed L (sv_previous b)"
  shows "ledger_inv cr mw (cement_block cr L b)"
proof -
  let ?L = "cement_block cr L b" and ?a = "sv_account b"
  have hash: "sv_hash cr b = h" using inv_block [OF inv b] by (simp add: block_ok_def)
  have ci: "conf_inv L" using inv by (simp add: ledger_inv_def)
  have "map_sum (unat \<circ> ch_height) (conf_height_get ?L) = map_sum (unat \<circ> ch_height) (conf_height_get L) + 1"
    using next_to_confirm [OF inv b un prev] map_sum_split [of "conf_height_get L" "unat \<circ> ch_height" ?a]
      map_sum_split [of "conf_height_get ?L" "unat \<circ> ch_height" ?a]
    by (auto split: option.splits)
  then have "conf_inv ?L"
    using ci b hash by (auto simp: conf_inv_def)
  then show ?thesis
    using inv
    unfolding ledger_inv_def chain_inv_def block_ok_def account_inv_def account_ok_def pending_inv_def
      supply_inv_def total_supply_def weight_inv_def weight_exact_def delegated_def count_inv_def unpruned_def
      cement_block_views cement_block_store
    by blast
qed

lemma cement_block_deps_inv [simp]: "deps_inv c (cement_block cr L b) = deps_inv c L"
  by (simp add: deps_inv_def)

lemma cement_block_deps_closed:
  assumes inv: "ledger_inv cr mw L" and b: "block_get L h = Some b" and un: "\<not> is_confirmed L h"
    and all: "\<forall>d \<in> set (deps c b). is_confirmed L d" and closed: "deps_closed c L"
  shows "deps_closed c (cement_block cr L b)"
proof -
  have iff: "is_confirmed (cement_block cr L b) x \<longleftrightarrow> is_confirmed L x \<or> x = h" for x
    using all previous_in_deps [of b c] by (intro cement_block_confirms [OF inv b un]) (rule bspec)
  show ?thesis
    unfolding deps_closed_def cement_block_views iff
  proof (intro allI impI ballI)
    fix x y d
    assume y: "block_get L x = Some y" "is_confirmed L x \<or> x = h" "d \<in> set (deps c y)"
    have "is_confirmed L d"
    proof (cases "x = h")
      case True
      then have "y = b" using y(1) b by simp
      with all y(3) show ?thesis by blast
    next
      case False
      with closed y show ?thesis by (simp add: deps_closed_def)
    qed
    then show "is_confirmed L d \<or> d = h" ..
  qed
qed

section \<open>The loop\<close>

definition cement_inv :: "crypto \<Rightarrow> ledger_constants \<Rightarrow> amount \<Rightarrow> ledger \<Rightarrow> bool" where
  "cement_inv cr c mw L \<longleftrightarrow> ledger_inv cr mw L \<and> deps_inv c L \<and> deps_closed c L"

text \<open>What other writers may do while the transaction is refreshed: they keep the invariant and never
  take back a confirmation.\<close>

definition refresh_ok ::
  "crypto \<Rightarrow> ledger_constants \<Rightarrow> amount \<Rightarrow> (nat \<Rightarrow> ledger \<Rightarrow> ledger option) \<Rightarrow> bool" where
  "refresh_ok cr c mw refresh \<longleftrightarrow> (\<forall>n L L'. refresh n L = Some L' \<longrightarrow> cement_inv cr c mw L \<longrightarrow>
    cement_inv cr c mw L' \<and> (\<forall>x. is_confirmed L x \<longrightarrow> is_confirmed L' x))"

lemma push_dependents_top:
  assumes "stack \<noteq> []"
  shows "push_dependents L m ds stack \<noteq> [] \<and>
    (hd (push_dependents L m ds stack) \<in> set ds \<or>
     hd (push_dependents L m ds stack) = hd stack \<and> (\<forall>d \<in> set ds. d = 0 \<or> is_confirmed L d))"
  using assms
proof (induction ds arbitrary: stack)
  case Nil
  then show ?case by simp
next
  case (Cons d ds)
  have ne: "butlast (d # stack) \<noteq> []" "hd (butlast (d # stack)) = d" using Cons.prems by simp_all
  show ?case
    using Cons.IH [of stack] Cons.IH [of "d # stack"] Cons.IH [OF ne(1)] ne(2) Cons.prems
    by (auto split: if_splits)
qed

lemma top_is_ready:
  assumes "deps_inv c L" "block_get L h = Some b"
    and "take 1 (push_dependents L m (deps c b) (h # rest)) = [h]"
  shows "\<forall>d \<in> set (deps c b). is_confirmed L d"
proof -
  have "grounded c (block_get L) h"
    using assms(1,2) by (simp add: deps_inv_def)
  then have "h \<notin> set (deps c b)"
    using grounded_irrefl assms(2) by blast
  moreover have "hd (push_dependents L m (deps c b) (h # rest)) = h"
    using assms(3) by (cases "push_dependents L m (deps c b) (h # rest)") simp_all
  ultimately show ?thesis
    using push_dependents_top [of "h # rest" L m "deps c b"] deps_nonzero [where c = c and b = b] by auto
qed

text \<open>What every cemented block and every refresh keeps, the whole loop keeps.\<close>

definition cement_step_keeps :: "crypto \<Rightarrow> ledger_constants \<Rightarrow> nat \<Rightarrow> (ledger \<Rightarrow> bool) \<Rightarrow> bool" where
  "cement_step_keeps cr c m K \<longleftrightarrow> (\<forall>L h b rest. K L \<longrightarrow> block_get L h = Some b \<longrightarrow> \<not> is_confirmed L h \<longrightarrow>
    take 1 (push_dependents L m (deps c b) (h # rest)) = [h] \<longrightarrow> K (cement_block cr L b))"

lemma confirm_loop_invariant:
  assumes "confirm_loop cr c m refresh target n L stack result = Some y"
  shows "cement_step_keeps cr c m K \<longrightarrow> (\<forall>n L L'. refresh n L = Some L' \<longrightarrow> K L \<longrightarrow> K L') \<longrightarrow> K L \<longrightarrow> K (fst y)"
proof (induction rule: confirm_loop.raw_induct [OF _ assms])
  case (1 f cr c m refresh target n L stack result y)
  show ?case
  proof (intro impI)
    assume ck: "cement_step_keeps cr c m K" and ro: "\<forall>n L L'. refresh n L = Some L' \<longrightarrow> K L \<longrightarrow> K L'" and K: "K L"
    show "K (fst y)"
    proof (cases stack)
      case Nil
      with 1(2) K show ?thesis by auto
    next
      case (Cons h rest)
      obtain b where b: "block_get L h = Some b"
        using 1(2) Cons by (auto simp: bind_eq_Some_conv)
      define s1 where "s1 = push_dependents L m (deps c b) (h # rest)"
      define L1 where "L1 = (if take 1 s1 = [h] \<and> \<not> is_confirmed L h then cement_block cr L b else L)"
      define s2 where "s2 = (if take 1 s1 = [h] then tl s1 else s1)"
      define r2 where "r2 = (if take 1 s1 = [h] \<and> \<not> is_confirmed L h then result @ [b] else result)"
      have state: "(if take 1 s1 = [h]
          then (if is_confirmed L h then (L, tl s1, result) else (cement_block cr L b, tl s1, result @ [b]))
          else (L, s1, result)) = (L1, s2, r2)"
        by (simp add: L1_def s2_def r2_def)
      have body: "(case refresh n L1 of
          Some L' \<Rightarrow> if \<not> block_exists_store L' target then Some (L', r2)
            else if m \<le> length r2 then Some (L', r2) else f cr c m refresh target (n + 1) L' s2 r2
        | None \<Rightarrow> if m \<le> length r2 then Some (L1, r2) else f cr c m refresh target (n + 1) L1 s2 r2) = Some y"
        using 1(2) unfolding Cons list.case b Option.bind.bind_lunit Let_def s1_def [symmetric] state prod.case .
      have K1: "K L1"
        using ck K b unfolding cement_step_keeps_def L1_def s1_def by (auto simp del: take_Suc_Cons)
      show ?thesis
      proof (cases "refresh n L1")
        case None
        then show ?thesis
          using body K1 1(1) [of cr c m refresh target "n + 1" L1 s2 r2 y] ck ro by (auto split: if_splits)
      next
        case (Some L')
        with ro K1 have "K L'" by blast
        then show ?thesis
          using Some body 1(1) [of cr c m refresh target "n + 1" L' s2 r2 y] ck ro by (auto split: if_splits)
      qed
    qed
  qed
qed

lemma cement_step_keeps_inv:
  "cement_step_keeps cr c m (\<lambda>M. cement_inv cr c mw M \<and> (\<forall>x. is_confirmed L x \<longrightarrow> is_confirmed M x))"
  unfolding cement_step_keeps_def
proof (intro allI impI)
  fix M h b rest
  assume K: "cement_inv cr c mw M \<and> (\<forall>x. is_confirmed L x \<longrightarrow> is_confirmed M x)" and b: "block_get M h = Some b"
    and un: "\<not> is_confirmed M h" and top: "take 1 (push_dependents M m (deps c b) (h # rest)) = [h]"
  have li: "ledger_inv cr mw M" "deps_inv c M" "deps_closed c M"
    using K by (simp_all add: cement_inv_def)
  have all: "\<forall>d \<in> set (deps c b). is_confirmed M d"
    using top by (rule top_is_ready [OF li(2) b])
  then have prev: "sv_previous b \<noteq> 0 \<Longrightarrow> is_confirmed M (sv_previous b)"
    using previous_in_deps [of b c] by blast
  show "cement_inv cr c mw (cement_block cr M b) \<and> (\<forall>x. is_confirmed L x \<longrightarrow> is_confirmed (cement_block cr M b) x)"
    using K li cement_block_inv [OF li(1) b un prev] cement_block_deps_closed [OF li(1) b un all li(3)]
      cement_block_confirms [OF li(1) b un prev]
    by (simp add: cement_inv_def)
qed

lemma confirm_loop_keeps:
  assumes loop: "confirm_loop cr c m refresh target n L stack result = Some y"
    and inv: "cement_inv cr c mw L" and ro: "refresh_ok cr c mw refresh"
  shows "cement_inv cr c mw (fst y) \<and> (\<forall>x. is_confirmed L x \<longrightarrow> is_confirmed (fst y) x)"
  by (rule confirm_loop_invariant [OF loop, rule_format, OF cement_step_keeps_inv])
    (use inv ro in \<open>auto simp: refresh_ok_def\<close>)

end
