(* ===== verification/Cementing_Live.thy ===== *)
theory Cementing_Live
  imports Cementing
begin

text \<open>
  Cementing makes progress: when no other writer interferes and the bound on the stack is large
  enough for the dependency tree of the block, the loop ends and the block is confirmed.
\<close>

abbreviation no_refresh :: "nat \<Rightarrow> ledger \<Rightarrow> ledger option" where
  "no_refresh \<equiv> \<lambda>_ _. None"

definition settled ::
  "crypto \<Rightarrow> ledger_constants \<Rightarrow> amount \<Rightarrow> ledger \<Rightarrow> block_hash list \<Rightarrow> nat \<Rightarrow> ledger \<Rightarrow> saved_block list \<Rightarrow> bool" where
  "settled cr c mw L hs k L' new \<longleftrightarrow> cement_inv cr c mw L' \<and> block_get L' = block_get L \<and>
    (\<forall>x. is_confirmed L x \<longrightarrow> is_confirmed L' x) \<and> (\<forall>h \<in> set hs. is_confirmed L' h) \<and> length new \<le> k"

text \<open>The blocks \<open>hs\<close> on top of the stack are worked off within \<open>k\<close> entries of stack and result.\<close>

definition settles ::
  "crypto \<Rightarrow> ledger_constants \<Rightarrow> amount \<Rightarrow> (block_hash \<rightharpoonup> saved_block) \<Rightarrow> block_hash \<Rightarrow> nat \<Rightarrow> block_hash list \<Rightarrow> bool" where
  "settles cr c mw B target k hs \<longleftrightarrow>
    (\<forall>L stack result n m. cement_inv cr c mw L \<longrightarrow> block_get L = B \<longrightarrow>
      length stack + k \<le> m \<longrightarrow> length result + k < m \<longrightarrow>
      (\<exists>L' new n'. settled cr c mw L hs k L' new \<and>
        confirm_loop cr c m no_refresh target n L (hs @ stack) result =
        confirm_loop cr c m no_refresh target n' L' stack (result @ new)))"

lemma settlesI:
  assumes "\<And>L stack result n m. cement_inv cr c mw L \<Longrightarrow> block_get L = B \<Longrightarrow>
    length stack + k \<le> m \<Longrightarrow> length result + k < m \<Longrightarrow>
    \<exists>L' new n'. settled cr c mw L hs k L' new \<and>
      confirm_loop cr c m no_refresh target n L (hs @ stack) result =
      confirm_loop cr c m no_refresh target n' L' stack (result @ new)"
  shows "settles cr c mw B target k hs"
  unfolding settles_def using assms by blast

lemma settlesD:
  assumes "settles cr c mw B target k hs" "cement_inv cr c mw L" "block_get L = B"
    and "length stack + k \<le> m" "length result + k < m"
  obtains L' new n' where "settled cr c mw L hs k L' new"
    "confirm_loop cr c m no_refresh target n L (hs @ stack) result =
     confirm_loop cr c m no_refresh target n' L' stack (result @ new)"
  using assms(1) [unfolded settles_def, rule_format, OF assms(2-5), of n] that by blast

lemma settled_trans:
  assumes "settled cr c mw L hs k L1 new1" "settled cr c mw L1 hs' k' L2 new2"
  shows "settled cr c mw L (hs @ hs') (k + k') L2 (new1 @ new2)"
  using assms by (auto simp: settled_def)

lemma settled_mono: "settled cr c mw L hs k L' new \<Longrightarrow> k \<le> k' \<Longrightarrow> settled cr c mw L hs k' L' new"
  by (simp add: settled_def)

lemma settles_Nil: "settles cr c mw B target k []"
proof (rule settlesI, goal_cases)
  case (1 L stack result n m)
  then have "settled cr c mw L [] k L []" by (simp add: settled_def)
  then show ?case by fastforce
qed

text \<open>Settling one block after the other.\<close>

lemma settles_Cons:
  assumes h: "settles cr c mw B target k [h]" and hs: "settles cr c mw B target k' hs"
    and len: "length hs + k \<le> K" "k + k' \<le> K"
  shows "settles cr c mw B target K (h # hs)"
proof (rule settlesI, goal_cases)
  case (1 L stack result n m)
  have le: "length (hs @ stack) + k \<le> m" "length result + k < m" using 1(3,4) len by simp_all
  obtain L1 new1 n1 where s1: "settled cr c mw L [h] k L1 new1"
    and eq1: "confirm_loop cr c m no_refresh target n L ([h] @ (hs @ stack)) result =
      confirm_loop cr c m no_refresh target n1 L1 (hs @ stack) (result @ new1)"
    by (rule settlesD [OF h 1(1,2) le])
  have L1: "cement_inv cr c mw L1" "block_get L1 = B" and le': "length stack + k' \<le> m" "length (result @ new1) + k' < m"
    using s1 1 len by (simp_all add: settled_def)
  obtain L2 new2 n2 where s2: "settled cr c mw L1 hs k' L2 new2"
    and eq2: "confirm_loop cr c m no_refresh target n1 L1 (hs @ stack) (result @ new1) =
      confirm_loop cr c m no_refresh target n2 L2 stack ((result @ new1) @ new2)"
    by (rule settlesD [OF hs L1 le'])
  have "settled cr c mw L (h # hs) K L2 (new1 @ new2)"
    using settled_mono [OF settled_trans [OF s1 s2] len(2)] by simp
  moreover have "confirm_loop cr c m no_refresh target n L ((h # hs) @ stack) result =
      confirm_loop cr c m no_refresh target n2 L2 stack (result @ (new1 @ new2))"
    using eq1 eq2 by simp
  ultimately show ?case by blast
qed

lemma settles_mono:
  assumes "settles cr c mw B target k hs" "k \<le> k'"
  shows "settles cr c mw B target k' hs"
proof (rule settlesI, goal_cases)
  case (1 L stack result n m)
  have le: "length stack + k \<le> m" "length result + k < m" using 1(3,4) assms(2) by simp_all
  obtain L' new n' where "settled cr c mw L hs k L' new"
    "confirm_loop cr c m no_refresh target n L (hs @ stack) result =
     confirm_loop cr c m no_refresh target n' L' stack (result @ new)"
    by (rule settlesD [OF assms(1) 1(1,2) le])
  then show ?case using settled_mono [OF _ assms(2)] by blast
qed

lemma settles_list:
  "\<forall>h \<in> set hs. settles cr c mw B target k [h] \<Longrightarrow> settles cr c mw B target (length hs * (k + 1)) hs"
proof (induction hs)
  case Nil
  show ?case by (rule settles_Nil)
next
  case (Cons h hs)
  have "settles cr c mw B target k [h]" "settles cr c mw B target (length hs * (k + 1)) hs"
    using Cons by simp_all
  then show ?case by (rule settles_Cons) simp_all
qed

lemma settles_uniform:
  "\<forall>h \<in> set hs. \<exists>k. settles cr c mw B target k [h] \<Longrightarrow> \<exists>k. \<forall>h \<in> set hs. settles cr c mw B target k [h]"
proof (induction hs)
  case Nil
  show ?case by simp
next
  case (Cons h hs)
  then obtain k k' where "settles cr c mw B target k [h]" "\<forall>h \<in> set hs. settles cr c mw B target k' [h]"
    by auto
  then have "\<forall>x \<in> set (h # hs). settles cr c mw B target (k + k') [x]"
    by (auto intro: settles_mono)
  then show ?case ..
qed

section \<open>One round of the loop\<close>

lemma push_dependents_bounded:
  "length ds + length stack \<le> m \<Longrightarrow>
    push_dependents L m ds stack = rev (filter (\<lambda>d. d \<noteq> 0 \<and> \<not> is_confirmed L d) ds) @ stack"
  by (induction ds arbitrary: stack) auto

lemma round_ready:
  assumes b: "block_get L h = Some b" and all: "\<forall>d \<in> set (deps c b). is_confirmed L d"
    and len: "length (deps c b) + length (h # stack) \<le> m" "length result + 1 < m"
  shows "confirm_loop cr c m no_refresh target n L (h # stack) result =
    (if is_confirmed L h then confirm_loop cr c m no_refresh target (n + 1) L stack result
     else confirm_loop cr c m no_refresh target (n + 1) (cement_block cr L b) stack (result @ [b]))"
proof -
  have "filter (\<lambda>d. d \<noteq> 0 \<and> \<not> is_confirmed L d) (deps c b) = []"
    using all by (simp add: filter_empty_conv)
  then have "push_dependents L m (deps c b) (h # stack) = h # stack"
    using push_dependents_bounded [OF len(1), of L] by simp
  then show ?thesis
    using len(2) by (subst confirm_loop.simps) (simp add: b)
qed

lemma round_push:
  assumes b: "block_get L h = Some b" and nself: "h \<notin> set (deps c b)"
    and un: "us = rev (filter (\<lambda>d. d \<noteq> 0 \<and> \<not> is_confirmed L d) (deps c b))" "us \<noteq> []"
    and len: "length (deps c b) + length (h # stack) \<le> m" "length result < m"
  shows "confirm_loop cr c m no_refresh target n L (h # stack) result =
    confirm_loop cr c m no_refresh target (n + 1) L (us @ h # stack) result"
proof -
  have "push_dependents L m (deps c b) (h # stack) = us @ h # stack"
    using push_dependents_bounded [OF len(1), of L] un(1) by simp
  moreover have "hd us \<noteq> h"
  proof -
    have "hd us \<in> set us" using un(2) by (rule hd_in_set)
    then have "hd us \<in> set (deps c b)" unfolding un(1) set_rev by (rule subsetD [OF filter_is_subset])
    with nself show ?thesis by auto
  qed
  then have "take 1 (us @ h # stack) \<noteq> [h]"
    using un(2) by (cases us) auto
  ultimately show ?thesis
    using len(2) by (subst confirm_loop.simps) (simp add: b)
qed

section \<open>The loop ends with the block confirmed\<close>

lemma settles_ready:
  assumes b: "B h = Some b" and L: "cement_inv cr c mw L" "block_get L = B"
    and all: "\<forall>d \<in> set (deps c b). is_confirmed L d"
    and len: "length (deps c b) + length (h # stack) \<le> m" "length result + 1 < m"
  obtains L' new n' where "settled cr c mw L [h] 1 L' new"
    "confirm_loop cr c m no_refresh target n L (h # stack) result =
     confirm_loop cr c m no_refresh target n' L' stack (result @ new)"
proof -
  have b': "block_get L h = Some b" using b L(2) by simp
  note eq = round_ready [OF b' all len, of cr target n]
  show thesis
  proof (cases "is_confirmed L h")
    case True
    with L eq show ?thesis by (intro that [of L "[]" "n + 1"]) (simp_all add: settled_def)
  next
    case False
    have li: "ledger_inv cr mw L" "deps_inv c L" "deps_closed c L" using L by (simp_all add: cement_inv_def)
    have prev: "sv_previous b \<noteq> 0 \<Longrightarrow> is_confirmed L (sv_previous b)"
      using all previous_in_deps by blast
    have "settled cr c mw L [h] 1 (cement_block cr L b) [b]"
      using li cement_block_inv [OF li(1) b' False prev] cement_block_deps_closed [OF li(1) b' False all li(3)]
        cement_block_confirms [OF li(1) b' False prev]
      by (simp add: settled_def cement_inv_def)
    with eq False show ?thesis by (intro that [of "cement_block cr L b" "[b]" "n + 1"]) simp_all
  qed
qed

lemma settles_block:
  assumes b: "B h = Some b" and ds: "\<forall>d \<in> set (deps c b). settles cr c mw B target k [d]"
    and irr: "h \<notin> set (deps c b)" and K: "K = length (deps c b) * (k + 1)"
  shows "settles cr c mw B target (K + length (deps c b) + 2) [h]"
proof (rule settlesI, goal_cases)
  case (1 L stack result n m)
  let ?us = "rev (filter (\<lambda>d. d \<noteq> 0 \<and> \<not> is_confirmed L d) (deps c b))"
  let ?loop = "confirm_loop cr c m no_refresh target"
  have b': "block_get L h = Some b" using b 1(2) by simp
  have len: "length (deps c b) + length (h # stack) \<le> m" using 1(3) by simp
  have us: "set ?us = {d \<in> set (deps c b). \<not> is_confirmed L d}" using deps_nonzero by auto
  have "settles cr c mw B target (length ?us * (k + 1)) ?us" using ds us by (intro settles_list) blast
  moreover have "length ?us \<le> length (deps c b)" by simp
  ultimately have sus: "settles cr c mw B target K ?us" unfolding K by (meson mult_le_mono1 settles_mono)
  have le: "length (h # stack) + K \<le> m" "length result + K < m" using 1(3,4) by simp_all
  obtain L1 new1 n0 n1 where s1: "settled cr c mw L ?us K L1 new1"
    and eq1: "?loop n L (h # stack) result = ?loop n1 L1 (h # stack) (result @ new1)"
  proof (cases "?us = []")
    case True
    with 1 show ?thesis by (intro that [of L "[]" n]) (simp_all add: settled_def)
  next
    case False
    obtain L1 new1 n1 where "settled cr c mw L ?us K L1 new1"
      "?loop (n + 1) L (?us @ h # stack) result = ?loop n1 L1 (h # stack) (result @ new1)"
      by (rule settlesD [OF sus 1(1,2) le])
    with round_push [OF b' irr refl False len, of result cr target n] 1(4) show ?thesis
      by (intro that [of L1 new1 n1]) simp_all
  qed
  have L1: "cement_inv cr c mw L1" "block_get L1 = B" and all: "\<forall>d \<in> set (deps c b). is_confirmed L1 d"
    and len1: "length (result @ new1) + 1 < m"
    using s1 us 1 unfolding settled_def by auto
  obtain L2 new2 n2 where s2: "settled cr c mw L1 [h] 1 L2 new2"
    and eq2: "?loop n1 L1 (h # stack) (result @ new1) = ?loop n2 L2 stack ((result @ new1) @ new2)"
    by (rule settles_ready [OF b L1 all len len1])
  have "settled cr c mw L [h] (K + length (deps c b) + 2) L2 (new1 @ new2)"
    using s1 s2 by (simp add: settled_def)
  with eq1 eq2 show ?case by (intro exI [of _ L2] exI [of _ "new1 @ new2"] exI [of _ n2]) simp
qed

lemma grounded_settles: "grounded c B h \<Longrightarrow> \<exists>k. settles cr c mw B target k [h]"
proof (induction rule: grounded.induct)
  case (1 h b)
  obtain k where "\<forall>d \<in> set (deps c b). settles cr c mw B target k [d]"
    using settles_uniform [of "deps c b"] 1(3) by blast
  moreover have "h \<notin> set (deps c b)"
    using grounded_irrefl grounded.intros [OF 1(1,2)] 1(1) by blast
  ultimately show ?case using settles_block [where B = B, OF 1(1) _ _ refl] by blast
qed

lemma confirm_max_returns:
  assumes inv: "cement_inv cr c mw L" and b: "block_get L h = Some b"
  obtains N where "\<forall>m \<ge> N. \<exists>L' new. confirm_max cr c no_refresh L h m = Some (L', new) \<and>
    settled cr c mw L [h] N L' new"
proof -
  have "grounded c (block_get L) h" using inv b by (auto simp: cement_inv_def deps_inv_def)
  then obtain k where k: "settles cr c mw (block_get L) h k [h]" using grounded_settles by blast
  have "\<exists>L' new. confirm_max cr c no_refresh L h m = Some (L', new) \<and> settled cr c mw L [h] (k + 1) L' new"
    if m: "k + 1 \<le> m" for m
  proof -
    have le: "length [] + k \<le> m" "length [] + k < m" using m by simp_all
    obtain L' new n' where s: "settled cr c mw L [h] k L' new"
      and eq: "confirm_loop cr c m no_refresh h 0 L ([h] @ []) [] = confirm_loop cr c m no_refresh h n' L' [] ([] @ new)"
      by (rule settlesD [OF k inv refl le])
    have "confirm_max cr c no_refresh L h m = Some (L', new)"
      using eq by (simp add: confirm_max_def confirm_loop.simps [of _ _ _ _ _ n'])
    with settled_mono [OF s, of "k + 1"] show ?thesis by simp
  qed
  with that show thesis by blast
qed

end
