(* ===== verification/Voting.thy ===== *)
theory Voting
  imports Cementing_Live Rollback_Correct
begin

text \<open>
  The ledger's part in voting: the dependencies of a block that is not stored yet
  (\<open>dependent_blocks_finder.rs\<close>) and the check whether a vote may be generated for a block
  (\<open>vote_verifier.rs\<close>). A final vote is recorded under the qualified root of its block before it
  leaves the node, and nothing the ledger does ever removes the record.
\<close>

section \<open>Finding dependencies\<close>

definition find_dependent_blocks :: "ledger_constants \<Rightarrow> saved_block \<Rightarrow> dependent_blocks" where
  "find_dependent_blocks c b = dependent_blocks b (lc_epochs c) (lc_genesis_account c)"

definition state_is_send :: "ledger \<Rightarrow> state_block \<Rightarrow> bool" where
  "state_is_send L s =
    (if st_previous s = 0 then False
     else st_balance s < unwrap_or_zero (any_block_balance L (st_previous s)))"

definition is_receive_or_change :: "ledger_constants \<Rightarrow> ledger \<Rightarrow> state_block \<Rightarrow> bool" where
  "is_receive_or_change c L s \<longleftrightarrow> \<not> is_epoch_link (lc_epochs c) (st_link s) \<and> \<not> state_is_send L s"

definition find_dependent_blocks_for_unsaved_block ::
  "ledger_constants \<Rightarrow> ledger \<Rightarrow> block \<Rightarrow> dependent_blocks" where
  "find_dependent_blocks_for_unsaved_block c L b =
    (case b of
      LegacySend i \<Rightarrow> (snd_previous i, 0)
    | LegacyChange i \<Rightarrow> (chg_previous i, 0)
    | LegacyReceive i \<Rightarrow> (rcv_previous i, rcv_source i)
    | LegacyOpen i \<Rightarrow> if opn_account i = lc_genesis_account c then (0, 0) else (opn_source i, 0)
    | State s \<Rightarrow> (block_previous b, if is_receive_or_change c L s then st_link s else 0))"

section \<open>Verifying votes\<close>

text \<open>\<open>debug_assert\<close> is not compiled into release builds and has no counterpart here.\<close>

definition should_vote_non_final :: "ledger_constants \<Rightarrow> ledger \<Rightarrow> root \<Rightarrow> block_hash \<Rightarrow> bool" where
  "should_vote_non_final c L root h =
    (case any_get_block L h of
      None \<Rightarrow> False
    | Some b \<Rightarrow> dependents_confirmed L (lc_epochs c) (lc_genesis_account c) b)"

definition should_vote_final :: "ledger_constants \<Rightarrow> ledger \<Rightarrow> root \<Rightarrow> block_hash \<Rightarrow> ledger \<times> bool" where
  "should_vote_final c L root h =
    (case any_get_block L h of
      None \<Rightarrow> (L, False)
    | Some b \<Rightarrow>
        if dependents_confirmed L (lc_epochs c) (lc_genesis_account c) b
        then final_vote_put L (block_qualified_root (sv_block b)) h
        else (L, False))"

text \<open>\<open>env n\<close> is what other writers do while the transaction is refreshed before candidate \<open>n\<close>.\<close>

fun verify_final ::
  "ledger_constants \<Rightarrow> (nat \<Rightarrow> ledger \<Rightarrow> ledger) \<Rightarrow> nat \<Rightarrow> ledger \<Rightarrow> (root \<times> block_hash) list \<Rightarrow>
    ledger \<times> (root \<times> block_hash) list" where
  "verify_final c env n L [] = (L, [])"
| "verify_final c env n L ((root, h) # candidates) =
    (let (L, vote) = should_vote_final c (env n L) root h;
         (L, verified) = verify_final c env (n + 1) L candidates
     in (L, if vote then (root, h) # verified else verified))"

fun verify_non_final ::
  "ledger_constants \<Rightarrow> (nat \<Rightarrow> ledger \<Rightarrow> ledger) \<Rightarrow> nat \<Rightarrow> ledger \<Rightarrow> (root \<times> block_hash) list \<Rightarrow>
    ledger \<times> (root \<times> block_hash) list" where
  "verify_non_final c env n L [] = (L, [])"
| "verify_non_final c env n L ((root, h) # candidates) =
    (let L = env n L; (L', verified) = verify_non_final c env (n + 1) L candidates
     in (L', if should_vote_non_final c L root h then (root, h) # verified else verified))"

definition verify_votes ::
  "ledger_constants \<Rightarrow> (nat \<Rightarrow> ledger \<Rightarrow> ledger) \<Rightarrow> ledger \<Rightarrow> (root \<times> block_hash) list \<Rightarrow> bool \<Rightarrow>
    ledger \<times> (root \<times> block_hash) list" where
  "verify_votes c env L candidates is_final =
    (if is_final then verify_final c env 0 L candidates else verify_non_final c env 0 L candidates)"

section \<open>The dependencies do not change when a block is saved\<close>

lemma validated_is_send:
  assumes val: "validate_block cr c L (State s) now = Inr ins" and inv: "ledger_inv cr mw L"
    and nz: "block_hash_of cr (State s) \<noteq> 0"
  shows "sv_is_send (new_saved_block (State s) (in_set_sideband ins)) \<longleftrightarrow> state_is_send L s"
proof -
  let ?v = "create_validator cr c L (State s) now"
  have ins: "ins = create_instructions cr ?v"
    using val by (simp_all add: validate_block_def validate_Inr)
  have acc: "in_account ins = bv_account ?v" and old: "bv_old_account_info ?v = account_get L (bv_account ?v)"
    by (simp_all add: ins create_instructions_def create_validator_def Let_def)
  have pos: "position_ok cr L (State s) ins"
    by (rule placeable_position [OF validated_placeable [OF val inv nz]])
  have "is_send ?v \<longleftrightarrow> state_is_send L s"
  proof (cases "account_get L (in_account ins)")
    case None
    with pos acc old show ?thesis
      by (simp add: position_ok_def is_send_def state_is_send_def create_validator_def Let_def)
  next
    case (Some i)
    obtain b where b: "block_get L (ai_head i) = Some b" "sv_balance b = ai_balance i"
      using inv_account [OF inv Some] by (auto simp: account_ok_def)
    have "ai_head i \<noteq> 0" by (rule account_head_nonzero [OF inv Some])
    with Some pos acc old b show ?thesis
      by (simp add: position_ok_def is_send_def state_is_send_def any_block_balance_def any_get_block_def
          create_validator_def Let_def)
  qed
  then show ?thesis
    by (simp add: sv_is_send_def new_saved_block_def ins create_instructions_def new_sideband_def
        validator_details_def new_details_def)
qed

lemma saved_dependencies:
  assumes val: "validate_block cr c L b now = Inr ins" and inv: "ledger_inv cr mw L" and nz: "block_hash_of cr b \<noteq> 0"
  shows "find_dependent_blocks c (new_saved_block b (in_set_sideband ins)) =
    find_dependent_blocks_for_unsaved_block c L b"
proof (cases b)
  case (State s)
  with validated_is_send [of cr c L s now ins mw] assms show ?thesis
    by (auto simp: find_dependent_blocks_def find_dependent_blocks_for_unsaved_block_def dependent_blocks_def
        is_receive_or_change_def new_saved_block_def)
qed (simp_all add: find_dependent_blocks_def find_dependent_blocks_for_unsaved_block_def dependent_blocks_def
    new_saved_block_def)

section \<open>Nothing removes a final vote\<close>

text \<open>A rollback is a sequence of executed instructions.\<close>

definition executes :: "amount \<Rightarrow> ledger \<Rightarrow> ledger \<Rightarrow> bool" where
  "executes mw L L' \<longleftrightarrow> (\<exists>ins. execute_rollback mw L ins = Some L')"

lemma roll_back_impl_executes:
  assumes "roll_back_impl cr c mw clock n L targets rolled_back = Some y"
  shows "(executes mw)\<^sup>*\<^sup>* L (fst y)"
proof (induction rule: roll_back_impl.raw_induct [OF _ assms])
  case (1 f cr c mw clock n L targets rolled_back y)
  show ?case
  proof (cases targets)
    case Nil
    with 1(2) show ?thesis by auto
  next
    case (Cons x rest)
    obtain t b where x: "x = (t, b)" by (cases x)
    show ?thesis
    proof (cases "any_block_exists L (sv_hash cr t)")
      case False
      with 1 Cons x show ?thesis by auto
    next
      case True
      then obtain step where step: "roll_back_head_block cr c L b (clock n) = Some step"
        using 1(2) Cons x by (auto simp: bind_eq_Some_conv)
      note body = 1(2) [unfolded Cons x, simplified, simplified True step, simplified]
      consider (err) e where "step = Inl e" | (roll) ins where "step = Inr (RollBackBlock ins)"
        | (dep) d where "step = Inr (RequestDependencyRollback d)"
        by (cases step; metis rollback_step.exhaust)
      then show ?thesis
      proof cases
        case err
        with body show ?thesis by auto
      next
        case roll
        obtain L1 where ex: "execute_rollback mw L ins = Some L1"
          using body roll by (auto simp: bind_eq_Some_conv)
        then have one: "executes mw L L1" by (auto simp: executes_def)
        have IH: "(executes mw)\<^sup>*\<^sup>* L (fst y)" if "f cr c mw clock (Suc n) L1 ts rb = Some y" for ts rb
          using 1(1) [OF that] one by (rule converse_rtranclp_into_rtranclp [rotated])
        show ?thesis
        proof (cases "sv_hash cr b \<noteq> sv_hash cr t")
          case False
          with body roll ex IH show ?thesis by (auto simp: Let_def)
        next
          case True
          then obtain hd where "load_account_head L1 t = Some hd"
            using body roll ex by (auto simp: bind_eq_Some_conv Let_def)
          with True body roll ex one IH show ?thesis by (cases hd) (auto simp: Let_def)
        qed
      next
        case dep
        show ?thesis
        proof (cases "load_block L d")
          case (Inl e)
          with dep body show ?thesis by auto
        next
          case (Inr blk)
          then obtain hd where "load_account_head L t = Some hd"
            using dep body by (auto simp: bind_eq_Some_conv)
          with Inr dep body 1(1) show ?thesis by (cases hd) auto
        qed
      qed
    qed
  qed
qed

lemma roll_back_performer_executes:
  assumes "roll_back_performer cr c mw clock L h = Some (L', rolled_back, r)"
  shows "(executes mw)\<^sup>*\<^sup>* L L'"
proof (cases "load_block L h")
  case (Inl e)
  with assms show ?thesis by (simp add: roll_back_performer_def)
next
  case (Inr t)
  then obtain hd where hd: "load_account_head L t = Some hd"
    using assms by (auto simp: roll_back_performer_def bind_eq_Some_conv)
  show ?thesis
  proof (cases hd)
    case (Inl e)
    with Inr hd assms show ?thesis by (simp add: roll_back_performer_def)
  next
    case (Inr b)
    then have "roll_back_impl cr c mw clock 0 L [(t, b)] [] = Some (L', rolled_back, r)"
      using \<open>load_block L h = Inr t\<close> hd assms by (simp add: roll_back_performer_def)
    from roll_back_impl_executes [OF this] show ?thesis by simp
  qed
qed

lemma roll_back_batch_executes:
  "roll_back_batch_from cr c mw clock maxr can i count L targets = Some (L', results) \<Longrightarrow> (executes mw)\<^sup>*\<^sup>* L L'"
proof (induction targets arbitrary: L i count results)
  case Nil
  then show ?case by simp
next
  case (Cons h targets)
  show ?case
  proof (cases "can h \<and> block_get L h \<noteq> None")
    case False
    with Cons show ?thesis by (auto simp: bind_eq_Some_conv split: if_splits)
  next
    case True
    then obtain b where b: "block_get L h = Some b" by auto
    then obtain L1 rb r where perf: "roll_back_performer cr c mw (clock i) L (sv_hash cr b) = Some (L1, rb, r)"
      using Cons.prems True by (auto simp: roll_back_with_tx_def bind_eq_Some_conv)
    have tx: "roll_back_with_tx cr c mw (clock i) L (sv_hash cr b)
        = Some (L1, rb, case r of Inr _ \<Rightarrow> None | Inl e \<Rightarrow> Some e)"
      using perf by (simp add: roll_back_with_tx_def)
    show ?thesis
      using Cons.prems True b tx roll_back_performer_executes [OF perf]
      by (auto simp: Let_def bind_eq_Some_conv split: if_splits dest!: Cons.IH)
  qed
qed

lemma execute_final_votes:
  assumes "execute_rollback mw L ins = Some L'"
  shows "lg_final_vote L' = lg_final_vote L"
proof -
  obtain L1 L2 L3 L4 L5 where 1: "update_pending_table L ins = Some L1"
    and 2: "update_account_table L1 ins = Some L2" and 3: "block_del L2 (ri_block_hash ins) = Some L3"
    and 4: "(case ri_clear_successor ins of Some h \<Rightarrow> successor_del L3 h | None \<Rightarrow> Some L3) = Some L4"
    and 5: "roll_back_representative_cache mw L4 ins = Some L5"
    and L': "L' = L5\<lparr> lg_block_count := lg_block_count L5 - 1 \<rparr>"
    using assms by (auto simp: execute_rollback_def update_block_table_def bind_eq_Some_conv)
  have "lg_final_vote L1 = lg_final_vote L" using update_pending_frame [OF 1] by fastforce
  moreover have "lg_final_vote L2 = lg_final_vote L1"
    using update_account_frame [OF 2 [unfolded update_account_table_def]] by fastforce
  moreover have "lg_final_vote L3 = lg_final_vote L2"
    using 3 by (auto simp: block_del_def bind_eq_Some_conv split: option.splits)
  moreover have "lg_final_vote L4 = lg_final_vote L3" using clear_successor_frame [OF 4] by auto
  moreover have "lg_final_vote L5 = lg_final_vote L4" using rollback_representative_frame [OF 5] by auto
  ultimately show ?thesis by (simp add: L')
qed

lemma executes_final_votes: "(executes mw)\<^sup>*\<^sup>* L L' \<Longrightarrow> lg_final_vote L' = lg_final_vote L"
  by (induction rule: rtranclp_induct) (auto simp: executes_def execute_final_votes)

lemma insert_block_final_votes:
  assumes "insert_block cr mw L b ins = Some (L', r)"
  shows "lg_final_vote L' = lg_final_vote L"
proof (cases "account_changed_since_validation L ins")
  case True
  with assms show ?thesis by (simp add: insert_block_def)
next
  case False
  let ?sv = "new_saved_block b (in_set_sideband ins)"
  obtain L1 L2 L3 L4 where 1: "block_put cr L ?sv = Some L1"
    and 2: "update_account (if sv_previous ?sv \<noteq> 0 then successor_put L1 (sv_previous ?sv) (sv_hash cr ?sv) else L1)
      (in_account ins) (in_old_account_info ins) (in_set_account_info ins) = Some L2"
    and 3: "delete_old_pending_info L2 ins = Some L3"
    and 4: "update_representative_cache mw (insert_new_pending_info L3 ins) ins = Some L4"
    and L': "L' = L4\<lparr> lg_block_count := lg_block_count L4 + 1 \<rparr>"
    using assms False by (auto simp: insert_block_def bind_eq_Some_conv Let_def)
  have "lg_final_vote L1 = lg_final_vote L"
    using 1 by (auto simp: block_put_def raw_put_def bind_eq_Some_conv Let_def split: option.splits)
  moreover have "lg_final_vote L2 = lg_final_vote L1"
    using 2 by (auto simp: successor_put_def elim!: update_account_frame split: if_splits)
  moreover have "lg_final_vote L3 = lg_final_vote L2"
    using 3 by (auto simp: delete_old_pending_info_def pending_del_def bind_eq_Some_conv split: option.splits)
  moreover have "lg_final_vote (insert_new_pending_info L3 ins) = lg_final_vote L3"
    by (auto simp: insert_new_pending_info_def pending_put_def split: option.splits)
  moreover have "lg_final_vote L4 = lg_final_vote (insert_new_pending_info L3 ins)"
    using 4 by (auto simp: update_representative_cache_def split: if_splits
        dest!: representation_add_frame representation_add_dual_frame)
  ultimately show ?thesis by (simp add: L')
qed

lemma insert_batch_final_votes:
  "insert_batch cr mw L results = Some (L', out) \<Longrightarrow> lg_final_vote L' = lg_final_vote L"
proof (induction cr mw L results arbitrary: L' out rule: insert_batch.induct)
  case (3 cr mw L ins b results)
  obtain L1 saved processed where "insert_block cr mw L b ins = Some (L1, saved)"
    "insert_batch cr mw L1 results = Some (L', processed)"
    using 3(2) by (auto simp: bind_eq_Some_conv)
  then show ?case using 3(1) [of "(L1, saved)" L1 saved] insert_block_final_votes by fastforce
qed (auto simp: bind_eq_Some_conv)

lemma confirm_loop_final_votes:
  assumes "confirm_loop cr c m no_refresh target n L stack result = Some y"
  shows "lg_final_vote (fst y) = lg_final_vote L"
  by (rule confirm_loop_invariant [OF assms, rule_format, where K = "\<lambda>M. lg_final_vote M = lg_final_vote L"])
    (simp_all add: cement_step_keeps_def)

section \<open>Final votes\<close>

lemma final_vote_put_record:
  assumes "final_vote_put L q h = (L', ok)"
  shows "final_vote_get L \<subseteq>\<^sub>m final_vote_get L'" "ok \<Longrightarrow> final_vote_get L' q = Some h" "block_get L' = block_get L"
proof -
  have *: "final_vote_get (L\<lparr> lg_final_vote := store_put (be_bytes 32) (lg_final_vote L) q h \<rparr>) = (final_vote_get L)(q \<mapsto> h)"
    by (simp add: final_vote_get_def u256_be.store_get_put)
  show "final_vote_get L \<subseteq>\<^sub>m final_vote_get L'" "ok \<Longrightarrow> final_vote_get L' q = Some h" "block_get L' = block_get L"
    using assms * by (auto simp: final_vote_put_def map_le_def split: option.splits intro!: block_get_frame)
qed

text \<open>
  One run of the verifier (without other writers in between) only adds records, and every vote it
  lets pass is on record under the qualified root of its block.
\<close>

lemma verify_final_records:
  assumes "verify_final c (\<lambda>_ L. L) n L candidates = (L', verified)"
  shows "final_vote_get L \<subseteq>\<^sub>m final_vote_get L' \<and> block_get L' = block_get L \<and>
    (\<forall>(root, h) \<in> set verified. \<exists>b. block_get L h = Some b \<and>
      final_vote_get L' (block_qualified_root (sv_block b)) = Some h)"
  using assms
proof (induction candidates arbitrary: n L L' verified)
  case Nil
  then show ?case by simp
next
  case (Cons x candidates)
  obtain root h where x: "x = (root, h)" by (cases x)
  obtain L1 vote where one: "should_vote_final c L root h = (L1, vote)" by fastforce
  obtain L2 vs where rest: "verify_final c (\<lambda>_ L. L) (n + 1) L1 candidates = (L2, vs)" by fastforce
  have L': "L' = L2" "verified = (if vote then (root, h) # vs else vs)"
    using Cons.prems x one rest by (auto simp: Let_def)
  note IH = Cons.IH [OF rest]
  have "final_vote_get L \<subseteq>\<^sub>m final_vote_get L1 \<and> block_get L1 = block_get L \<and>
    (vote \<longrightarrow> (\<exists>b. block_get L h = Some b \<and> final_vote_get L1 (block_qualified_root (sv_block b)) = Some h))"
  proof (cases "\<exists>b. any_get_block L h = Some b \<and> dependents_confirmed L (lc_epochs c) (lc_genesis_account c) b")
    case True
    then obtain b where b: "any_get_block L h = Some b" "dependents_confirmed L (lc_epochs c) (lc_genesis_account c) b"
      by blast
    then have "final_vote_put L (block_qualified_root (sv_block b)) h = (L1, vote)"
      using one by (simp add: should_vote_final_def)
    from final_vote_put_record [OF this] b show ?thesis
      by (auto simp: any_get_block_def split: if_splits)
  next
    case False
    then have "L1 = L \<and> \<not> vote"
      using one by (auto simp: should_vote_final_def split: option.splits if_splits)
    then show ?thesis by simp
  qed
  with IH L' show ?case
    by (auto simp: map_le_def dom_def split: if_splits prod.splits)
qed

text \<open>
  What a node does to its ledger, and the final votes it lets pass, each with the qualified root of
  the block at that time. No assumption is made about the blocks, rollbacks and cementings.
\<close>

inductive voting_run :: "crypto \<Rightarrow> ledger_constants \<Rightarrow> amount \<Rightarrow> ledger \<Rightarrow> (qualified_root \<times> block_hash) list \<Rightarrow> bool"
  for cr :: crypto and c :: ledger_constants and mw :: amount where
  start: "voting_run cr c mw L []"
| batch: "voting_run cr c mw L vs \<Longrightarrow> process_batch cr c mw L bs = Some (L', out) \<Longrightarrow> voting_run cr c mw L' vs"
| rollback: "voting_run cr c mw L vs \<Longrightarrow> roll_back_batch cr c mw clock L targets maxr can = Some (L', results) \<Longrightarrow>
    voting_run cr c mw L' vs"
| replace: "voting_run cr c mw L vs \<Longrightarrow> roll_back_competitors cr c mw clock i L blocks = Some (L', results) \<Longrightarrow>
    voting_run cr c mw L' vs"
| cement: "voting_run cr c mw L vs \<Longrightarrow> confirm_max cr c no_refresh L h m = Some (L', new) \<Longrightarrow> voting_run cr c mw L' vs"
| vote: "voting_run cr c mw L vs \<Longrightarrow> verify_votes c (\<lambda>_ L. L) L candidates True = (L', verified) \<Longrightarrow>
    voting_run cr c mw L'
      (vs @ map (\<lambda>(_, h). (block_qualified_root (sv_block (the (block_get L h))), h)) verified)"

lemma roll_back_competitors_executes:
  "roll_back_competitors cr c mw clock i L blocks = Some (L', results) \<Longrightarrow> (executes mw)\<^sup>*\<^sup>* L L'"
proof (induction blocks arbitrary: i L results)
  case Nil
  then show ?case by simp
next
  case (Cons b blocks)
  obtain L1 rb results' where one: "rollback_competitor cr c mw (clock i) L b = Some (L1, rb)"
    and rest: "roll_back_competitors cr c mw clock (i + 1) L1 blocks = Some (L', results')"
    using Cons.prems by (auto simp: bind_eq_Some_conv)
  have "(executes mw)\<^sup>*\<^sup>* L L1"
    using one by (auto simp: rollback_competitor_def roll_back_with_tx_def bind_eq_Some_conv
        split: option.splits if_splits dest: roll_back_performer_executes)
  with Cons.IH [OF rest] show ?case by (rule rtranclp_trans [rotated])
qed

lemma voting_run_records: "voting_run cr c mw L vs \<Longrightarrow> (q, h) \<in> set vs \<Longrightarrow> final_vote_get L q = Some h"
proof (induction arbitrary: q h rule: voting_run.induct)
  case (batch L vs bs L' out)
  then have "lg_final_vote L' = lg_final_vote L"
    using insert_batch_final_votes by (auto simp: process_batch_def)
  with batch show ?case by (simp add: final_vote_get_def)
next
  case (rollback L vs clock targets maxr can L' results)
  have "lg_final_vote L' = lg_final_vote L"
    by (rule executes_final_votes [OF roll_back_batch_executes [OF rollback(2) [unfolded roll_back_batch_def]]])
  with rollback show ?case by (simp add: final_vote_get_def)
next
  case (replace L vs clock i blocks L' results)
  have "lg_final_vote L' = lg_final_vote L"
    by (rule executes_final_votes [OF roll_back_competitors_executes [OF replace(2)]])
  with replace show ?case by (simp add: final_vote_get_def)
next
  case (cement L vs h m L' new)
  have "lg_final_vote L' = lg_final_vote L"
    using confirm_loop_final_votes [OF cement(2) [unfolded confirm_max_def]] by simp
  with cement show ?case by (simp add: final_vote_get_def)
next
  case (vote L vs candidates L' verified)
  have rec: "final_vote_get L \<subseteq>\<^sub>m final_vote_get L'"
    "\<forall>(root, h) \<in> set verified. \<exists>b. block_get L h = Some b \<and>
      final_vote_get L' (block_qualified_root (sv_block b)) = Some h"
    using verify_final_records vote(2) by (simp_all add: verify_votes_def)
  show ?case
  proof (cases "(q, h) \<in> set vs")
    case True
    with vote.IH rec(1) show ?thesis by (metis domI map_le_def)
  next
    case False
    with vote.prems rec(2) show ?thesis by auto
  qed
qed simp

end
