(* ===== verification/Ledger_Run.thy ===== *)
theory Ledger_Run
  imports Voting
begin

text \<open>
  The ledger of a running node: it starts with the genesis block, processes batches of blocks and
  cements blocks, in any order. Every such ledger satisfies the ledger invariant, its dependencies
  are acyclic and present, and the dependencies of a cemented block are cemented.
\<close>

inductive ledger_run :: "crypto \<Rightarrow> ledger_constants \<Rightarrow> amount \<Rightarrow> ledger \<Rightarrow> bool"
  for cr :: crypto and c :: ledger_constants and mw :: amount where
  start: "initialize_ledger cr c mw empty_ledger = Some L \<Longrightarrow> ledger_run cr c mw L"
| batch: "ledger_run cr c mw L \<Longrightarrow> batch_ok cr c L bs \<Longrightarrow>
    process_batch cr c mw L bs = Some (L', out) \<Longrightarrow> ledger_run cr c mw L'"
| cement: "ledger_run cr c mw L \<Longrightarrow> refresh_ok cr c mw refresh \<Longrightarrow>
    confirm_max cr c refresh L h m = Some (L', new) \<Longrightarrow> ledger_run cr c mw L'"

lemma reachable_run: "reachable cr c mw L \<Longrightarrow> ledger_run cr c mw L"
  by (induction rule: reachable.induct) (auto intro: ledger_run.intros)

text \<open>A new block is never confirmed already.\<close>

lemma inserted_confirmed:
  assumes inv: "ledger_inv cr mw L" and ins: "insertable cr L b ins" and eff: "inserted cr L b ins L'"
    and inv': "ledger_inv cr mw L'"
  shows "is_confirmed L' x \<longleftrightarrow> is_confirmed L x"
proof (cases "x = block_hash_of cr b")
  case False
  then show ?thesis
    using eff by (simp add: inserted_def is_confirmed_def pruned_exists_def split: option.splits)
next
  case True
  let ?sv = "new_saved_block b (in_set_sideband ins)" and ?a = "in_account ins"
  have fresh: "block_get L x = None" using insertable_basic(3) [OF ins] True by simp
  have new: "block_get L' x = Some ?sv" "account_get L' ?a = Some (in_set_account_info ins)" "sv_account ?sv = ?a"
    using eff insertable_basic(5) [OF ins] True by (simp_all add: inserted_def)
  have up: "unpruned L" "unpruned L'" using inv inv' by (simp_all add: ledger_inv_def)
  have "\<not> is_confirmed L' x"
  proof
    assume "is_confirmed L' x"
    then obtain ci where ci: "conf_height_get L ?a = Some ci" "sv_height ?sv \<le> ch_height ci"
      using new up eff by (auto simp: is_confirmed_iff inserted_def)
    then obtain f where f: "block_get L (ch_frontier ci) = Some f" "sv_account f = ?a" "sv_height f = ch_height ci"
      using inv by (auto simp: ledger_inv_def conf_inv_def)
    then have f': "block_get L' (ch_frontier ci) = Some f"
      using inserted_extends [OF ins eff] by (auto dest: map_le_lookup)
    have "unat (sv_height f) \<le> unat (sv_height ?sv)"
      using height_le_block_count [OF inv' f'] f new insertable_basic(8) [OF ins] by simp
    then have "unat (sv_height f) = unat (sv_height ?sv)"
      using ci f by (simp add: word_le_nat_alt)
    then have "ch_frontier ci = x"
      using block_at_height_unique [OF inv' _ _ f' new(1)] f new by simp
    with f fresh show False by simp
  qed
  moreover have "\<not> is_confirmed L x" using fresh up by (simp add: is_confirmed_def)
  ultimately show ?thesis by simp
qed

lemma inserted_cement_inv:
  assumes inv: "cement_inv cr c mw L" and ins: "insertable cr L b ins" and st: "deps_stored c L b ins"
    and eff: "inserted cr L b ins L'" and inv': "ledger_inv cr mw L'"
  shows "cement_inv cr c mw L'"
proof -
  have li: "ledger_inv cr mw L" "deps_inv c L" "deps_closed c L" using inv by (simp_all add: cement_inv_def)
  note same = inserted_confirmed [OF li(1) ins eff inv']
  have "deps_closed c L'"
    unfolding deps_closed_def same
  proof (intro allI impI)
    fix h y assume y: "block_get L' h = Some y" "is_confirmed L h"
    have "block_get L h \<noteq> None"
      using y(2) li(1) by (auto simp: is_confirmed_def ledger_inv_def split: option.splits)
    then have "block_get L h = Some y"
      using y(1) inserted_extends [OF ins eff] by (auto dest: map_le_lookup)
    with y li(3) show "\<forall>d \<in> set (deps c y). is_confirmed L d" by (simp add: deps_closed_def)
  qed
  with inv' inserted_deps_inv [OF ins eff st li(2)] show ?thesis by (simp add: cement_inv_def)
qed

lemma process_batch_cement_inv:
  assumes inv: "cement_inv cr c mw L" and ok: "batch_ok cr c L batch"
    and p: "process_batch cr c mw L batch = Some (L', out)"
  shows "cement_inv cr c mw L'"
proof -
  have li: "ledger_inv cr mw L" using inv by (simp add: cement_inv_def)
  have "\<exists>L' out. process_batch cr c mw L batch = Some (L', out) \<and> ledger_inv cr mw L' \<and> cement_inv cr c mw L' \<and>
      length out = length batch"
    by (rule process_batch_keeps [where V = "deps_stored c" and K = "cement_inv cr c mw", OF li ok inv])
      (auto intro: validated_deps_stored [OF _ li] deps_stored_mono inserted_cement_inv)
  with p show ?thesis by auto
qed

lemma initialize_cement_inv:
  assumes "genesis_ok cr c" "initialize_ledger cr c mw empty_ledger = Some L"
  shows "cement_inv cr c mw L"
proof -
  obtain wt g signer where c: "c = new_ledger_constants wt g signer"
    using assms(1) by (auto simp: genesis_ok_def)
  obtain i d where "initialize_ledger cr c mw empty_ledger = Some (genesis_ledger cr mw g i d)"
    and get: "block_get (genesis_ledger cr mw g i d) = [block_hash_of cr (LegacyOpen g) \<mapsto> stored_genesis g]"
    by (rule initialize_effects [OF c])
  then have L: "L = genesis_ledger cr mw g i d" using assms(2) by simp
  have none: "deps c (stored_genesis g) = []"
    by (simp add: dependent_blocks_def stored_genesis_def new_saved_block_def c new_ledger_constants_def Let_def)
  then have "deps_closed c L"
    by (auto simp: deps_closed_def L get split: if_splits)
  moreover have "ledger_inv cr mw L" using initialize_inv [OF assms(1), of mw] assms(2) by simp
  ultimately show ?thesis using initialize_deps_inv [OF assms] by (simp add: cement_inv_def)
qed

lemma ledger_run_inv: "ledger_run cr c mw L \<Longrightarrow> genesis_ok cr c \<Longrightarrow> cement_inv cr c mw L"
proof (induction rule: ledger_run.induct)
  case (start L)
  then show ?case by (simp add: initialize_cement_inv)
next
  case (batch L bs L' out)
  then show ?case using process_batch_cement_inv by blast
next
  case (cement L refresh h m L' new)
  then show ?case using confirm_loop_keeps [of cr c m refresh h 0 L "[h]" "[]" "(L', new)" mw]
    by (simp add: confirm_max_def)
qed

lemmas ledger_run_ledger_inv = ledger_run_inv [unfolded cement_inv_def, THEN conjunct1]

end
