(* ===== verification/Consensus_Properties.thy ===== *)
theory Consensus_Properties
  imports Quorum Example_Ledger Ledger_Run
begin

text \<open>
  The properties of votes and elections, and agreement between nodes: the tallies of one node
  (\<open>Elections\<close>), the intersection of quorums (\<open>Quorum\<close>) and the final votes each honest
  representative lets pass (\<open>Voting\<close>) together.
\<close>

unbundle bit_operations_syntax

section \<open>An example election\<close>

definition demo_election :: election where
  "demo_election =
    el_add_vote (new_election demo_crypto (stored_genesis demo_genesis) Priority 0 0) 1 5 (- 1) 0"

definition demo_weights :: "(public_key, amount) rbt" where
  "demo_weights = RBT.insert 1 10 RBT.empty"

lemma demo_genesis_hash [simp]: "sv_hash demo_crypto (stored_genesis demo_genesis) = 5"
  by (simp add: stored_genesis_def new_saved_block_def) (simp add: demo_genesis_def)

lemma demo_election_parts [simp]:
  "el_state demo_election = Passive" "map fst (el_candidates demo_election) = [5]"
  "el_votes demo_election = [(1, new_vote_summary 1 5 (- 1) 0)]"
  "el_qualified_root demo_election = block_qualified_root (sv_block (stored_genesis demo_genesis))"
  by (simp_all add: demo_election_def el_add_vote_def new_election_def)

lemma demo_election_inv: "election_inv demo_crypto demo_election"
  unfolding demo_election_def
  by (intro add_vote_inv new_election_inv) (simp_all, simp add: new_election_def)

lemma demo_weights_lookup [simp]: "RBT.lookup demo_weights = [1 \<mapsto> 10]"
  by (simp add: demo_weights_def)

lemma demo_final_weight: "final_weight_for demo_election [1 \<mapsto> 10] 5 = 10"
  by (simp add: final_weight_for_def is_final_vote_def new_vote_summary_def)

lemma demo_election_confirmed:
  assumes "q \<le> 10"
  obtains e where "update_tallies demo_crypto demo_election [1 \<mapsto> 10] q = Some e" "el_state e = Confirmed"
    "winner_hash demo_crypto e = 5"
proof -
  obtain e where e: "update_tallies demo_crypto demo_election [1 \<mapsto> 10] q = Some e" "election_inv demo_crypto e"
    "el_winner_final_tally e = final_weight_for demo_election [1 \<mapsto> 10] (winner_hash demo_crypto e)"
    "el_state e = (if q \<le> el_winner_final_tally e then Confirmed else el_state demo_election)"
    "el_candidates e = el_candidates demo_election"
    by (rule update_tallies_spec [OF demo_election_inv, of "[1 \<mapsto> 10]" q]) (simp_all add: has_ended_def)
  have "winner_hash demo_crypto e = 5"
    using winner_candidate [OF e(2)] e(5) by simp
  with e that demo_final_weight assms show thesis by simp
qed

lemma demo_voting_run:
  obtains L where "voting_run demo_crypto demo_constants 0 L
    [(block_qualified_root (sv_block (stored_genesis demo_genesis)), 5)]"
proof -
  obtain L where L: "ledger_inv demo_crypto 0 L" "block_get L = [5 \<mapsto> stored_genesis demo_genesis]"
    "final_vote_get L = Map.empty"
    by (rule demo_start)
  let ?g = "stored_genesis demo_genesis" and ?q = "block_qualified_root (sv_block (stored_genesis demo_genesis))"
  have "dependents_confirmed L (lc_epochs demo_constants) (lc_genesis_account demo_constants) ?g"
    by (simp add: dependents_confirmed_def dependent_blocks_def stored_genesis_def new_saved_block_def
        demo_constants_def new_ledger_constants_def Let_def)
  then have "verify_votes demo_constants (\<lambda>_ L. L) L [(0, 5)] True =
      (fst (final_vote_put L ?q 5), if snd (final_vote_put L ?q 5) then [(0, 5)] else [])"
    using L(2) by (simp add: verify_votes_def should_vote_final_def any_get_block_def Let_def split: prod.splits)
  moreover have "snd (final_vote_put L ?q 5)"
    by (simp add: final_vote_put_def L(3))
  ultimately have "voting_run demo_crypto demo_constants 0 (fst (final_vote_put L ?q 5)) [(?q, 5)]"
    using voting_run.vote [OF voting_run.start, of demo_constants L "[(0, 5)]"] L(2) by simp
  then show thesis by (rule that)
qed

section \<open>Agreement\<close>

text \<open>
  C3. Nodes agree. Two nodes count votes for the same root with the same weights of the
  representatives. Every representative outside of a set \<open>F\<close> casts only final votes that its own node
  lets pass, whatever that node processes, rolls back, replaces or cements in between. If the two
  quorums together exceed the total weight plus the weight of \<open>F\<close>, and counting confirms an
  election on both nodes, then both have the same winner.
\<close>

theorem nodes_agree:
  assumes "election_inv cr e1" "\<not> has_ended (el_state e1)"
    "update_tallies cr e1 (RBT.lookup t) q1 = Some e1'" "el_state e1' = Confirmed"
    and "election_inv cr e2" "\<not> has_ended (el_state e2)"
    "update_tallies cr e2 (RBT.lookup t) q2 = Some e2'" "el_state e2' = Confirmed"
    and root: "el_qualified_root e1 = root" "el_qualified_root e2 = root"
    and "total_weight (RBT.lookup t) + faulty_weight (RBT.lookup t) F < unat q1 + unat q2"
    and honest: "\<And>v. v \<notin> F \<Longrightarrow> \<exists>c mw L vs. voting_run cr c mw L vs \<and>
      (\<forall>e s. e \<in> {e1, e2} \<and> map_of (el_votes e) v = Some s \<and> is_final_vote s \<longrightarrow>
        (el_qualified_root e, vs_hash s) \<in> set vs)"
  shows "winner_hash cr e1' = winner_hash cr e2'"
proof (rule confirmed_winners_agree [OF assms(1-8) assms(11)])
  fix v s1 s2
  assume v: "v \<notin> F" and s: "map_of (el_votes e1) v = Some s1" "is_final_vote s1"
    "map_of (el_votes e2) v = Some s2" "is_final_vote s2"
  obtain c mw L vs where run: "voting_run cr c mw L vs"
    and cast: "\<And>e s. e \<in> {e1, e2} \<Longrightarrow> map_of (el_votes e) v = Some s \<Longrightarrow> is_final_vote s \<Longrightarrow>
      (el_qualified_root e, vs_hash s) \<in> set vs"
    using honest [OF v] by blast
  have "(root, vs_hash s1) \<in> set vs" "(root, vs_hash s2) \<in> set vs"
    using cast [OF _ s(1,2)] cast [OF _ s(3,4)] root by auto
  from voting_run_records [OF run this(1)] voting_run_records [OF run this(2)]
  show "vs_hash s1 = vs_hash s2" by simp
qed

theorem nodes_agree_witness:
  "\<exists>e1' e2'. update_tallies demo_crypto demo_election (RBT.lookup demo_weights) 10 = Some e1' \<and> el_state e1' = Confirmed \<and>
    update_tallies demo_crypto demo_election (RBT.lookup demo_weights) 9 = Some e2' \<and> el_state e2' = Confirmed \<and>
    winner_hash demo_crypto e1' = winner_hash demo_crypto e2'"
proof -
  have w: "(10 :: amount) \<le> 10" "(9 :: amount) \<le> 10" by simp_all
  obtain e1 where e1: "update_tallies demo_crypto demo_election [1 \<mapsto> 10] 10 = Some e1" "el_state e1 = Confirmed"
    by (rule demo_election_confirmed [OF w(1)])
  obtain e2 where e2: "update_tallies demo_crypto demo_election [1 \<mapsto> 10] 9 = Some e2" "el_state e2 = Confirmed"
    by (rule demo_election_confirmed [OF w(2)])
  obtain L where L: "voting_run demo_crypto demo_constants 0 L
    [(block_qualified_root (sv_block (stored_genesis demo_genesis)), 5)]"
    by (rule demo_voting_run)
  have go: "\<not> has_ended (el_state demo_election)" by (simp add: has_ended_def)
  have weights: "total_weight (RBT.lookup demo_weights) + faulty_weight (RBT.lookup demo_weights) {}
      < unat (10 :: amount) + unat (9 :: amount)"
    by (simp add: total_weight_def faulty_weight_def rep_weight_def)
  have honest: "\<exists>c mw L vs. voting_run demo_crypto c mw L vs \<and>
      (\<forall>e s. e \<in> {demo_election, demo_election} \<and> map_of (el_votes e) v = Some s \<and> is_final_vote s \<longrightarrow>
        (el_qualified_root e, vs_hash s) \<in> set vs)" for v
    by (intro exI conjI, rule L) (auto simp: new_vote_summary_def split: if_splits)
  note e = e1 [folded demo_weights_lookup] e2 [folded demo_weights_lookup]
  have "winner_hash demo_crypto e1 = winner_hash demo_crypto e2"
    by (rule nodes_agree [OF demo_election_inv go e(1,2) demo_election_inv go e(3,4) refl refl weights honest])
  with e show ?thesis by blast
qed

text \<open>
  C15. Final votes never conflict: whatever blocks a node processes, rolls back, replaces or cements
  in between, it never lets two final votes pass for different blocks with the same qualified root.
\<close>

theorem final_votes_never_conflict:
  assumes "voting_run cr c mw L vs" "(q, h) \<in> set vs" "(q, h') \<in> set vs"
  shows "h = h'"
  using voting_run_records [OF assms(1,2)] voting_run_records [OF assms(1,3)] by simp

theorem final_votes_never_conflict_witness:
  "\<exists>L vs q. voting_run demo_crypto demo_constants 0 L vs \<and> (q, 5) \<in> set vs \<and> {h. (q, h) \<in> set vs} = {5}"
proof -
  let ?q = "block_qualified_root (sv_block (stored_genesis demo_genesis))"
  obtain L where L: "voting_run demo_crypto demo_constants 0 L [(?q, 5)]" by (rule demo_voting_run)
  with final_votes_never_conflict [OF L, of ?q] show ?thesis
    by (intro exI [of _ L] exI [of _ "[(?q, 5)]"] exI [of _ ?q]) auto
qed

section \<open>Counting\<close>

text \<open>
  C9. Counting the votes of a running election never panics and keeps the invariant of elections: at
  most ten candidates, all for the root of the election, a candidate as winner, votes and tallies
  only for candidates. The election is confirmed exactly when the weights of the final votes for its
  winner reach the quorum.
\<close>

theorem counting_confirms_by_quorum:
  assumes "election_inv cr e" "\<not> has_ended (el_state e)"
  shows "\<exists>e'. update_tallies cr e w q = Some e' \<and> election_inv cr e' \<and>
    el_candidates e' = el_candidates e \<and> map fst (el_votes e') = map fst (el_votes e) \<and>
    (el_state e' = Confirmed \<longleftrightarrow> q \<le> final_weight_for e w (winner_hash cr e'))"
proof -
  obtain e' where e': "update_tallies cr e w q = Some e'" "election_inv cr e'"
    "el_winner_final_tally e' = final_weight_for e w (winner_hash cr e')"
    "el_state e' = (if q \<le> el_winner_final_tally e' then Confirmed else el_state e)"
    "el_candidates e' = el_candidates e" "el_votes e' = el_votes (update_vote_weights e w)"
    by (rule update_tallies_spec [OF assms])
  moreover have "map fst (el_votes e') = map fst (el_votes e)"
    by (simp add: e'(6) update_vote_weights_def comp_def case_prod_unfold)
  moreover have "el_state e' = Confirmed \<longleftrightarrow> q \<le> el_winner_final_tally e'"
    using e'(4) assms(2) by (auto simp: has_ended_def)
  ultimately show ?thesis by auto
qed

theorem counting_confirms_by_quorum_witness:
  "\<exists>e'. update_tallies demo_crypto demo_election [1 \<mapsto> 10] 10 = Some e' \<and> el_state e' = Confirmed"
proof -
  obtain e' where e': "update_tallies demo_crypto demo_election [1 \<mapsto> 10] 10 = Some e'" "election_inv demo_crypto e'"
    "el_candidates e' = el_candidates demo_election"
    "el_state e' = Confirmed \<longleftrightarrow> 10 \<le> final_weight_for demo_election [1 \<mapsto> 10] (winner_hash demo_crypto e')"
    using counting_confirms_by_quorum [OF demo_election_inv, of "[1 \<mapsto> 10]" 10] by (auto simp: has_ended_def)
  have "winner_hash demo_crypto e' = 5" using winner_candidate [OF e'(2)] e'(3) by simp
  with e' demo_final_weight show ?thesis by simp
qed




section \<open>Forks\<close>

text \<open>
  C16. Adding a fork to an election never panics, whether the election has room, replaces a candidate
  with a lower tally or refuses the fork. It keeps the invariant of elections and the winner, and
  when it reports the fork as added or replacing another block, the fork is a candidate.
\<close>

theorem adding_forks_is_safe:
  assumes "election_inv cr e" "block_hash_of cr fork \<noteq> 0" "block_qualified_root fork = el_qualified_root e"
  shows "\<exists>e' r. el_try_add_fork cr e fork tally = Some (e', r) \<and> election_inv cr e' \<and> el_winner e' = el_winner e \<and>
    (r = Added \<or> (\<exists>x. r = Replaced x) \<longrightarrow> block_hash_of cr fork \<in> candidate_hashes e')"
  by (rule try_add_fork_spec [OF assms])

definition demo_fork :: block where
  "demo_fork = LegacyOpen (demo_genesis\<lparr> opn_source := 6 \<rparr>)"

theorem adding_forks_is_safe_witness:
  "\<exists>e'. el_try_add_fork demo_crypto demo_election demo_fork 3 = Some (e', Added) \<and> election_inv demo_crypto e' \<and>
    el_winner e' = el_winner demo_election"
proof -
  have root: "block_qualified_root demo_fork = el_qualified_root demo_election"
    by (simp add: demo_fork_def demo_genesis_def stored_genesis_def new_saved_block_def block_qualified_root_def)
  have hash: "block_hash_of demo_crypto demo_fork = 6" by (simp add: demo_fork_def)
  then have nz: "block_hash_of demo_crypto demo_fork \<noteq> 0" by simp
  obtain e' r where e': "el_try_add_fork demo_crypto demo_election demo_fork 3 = Some (e', r)"
    "election_inv demo_crypto e'" "el_winner e' = el_winner demo_election"
    using adding_forks_is_safe [OF demo_election_inv nz root, of 3] by blast
  have "length (el_candidates demo_election) = 1"
    by (simp add: demo_election_def el_add_vote_def new_election_def)
  then have "\<not> has_max_blocks demo_election" by (simp add: has_max_blocks_def max_blocks_def)
  then have "r = Added"
    using e'(1) hash by (auto simp: el_try_add_fork_def has_ended_def contains_block_def bind_eq_Some_conv
        simp del: set_map split: if_splits)
  with e' show ?thesis by blast
qed

section \<open>Votes\<close>

text \<open>
  C30. Writing a vote of at most 255 hashes and reading the bytes gives the vote back, and the number
  of bytes is the announced size.
\<close>

theorem vote_wire_roundtrip:
  assumes "length (vo_hashes v) \<le> max_hashes"
  shows "vote_deserialize (vote_serialize v) = Some (v, []) \<and>
    length (vote_serialize v) = vote_serialized_size (length (vo_hashes v))"
  using vote_roundtrip [OF assms] vote_serialized_length by simp

theorem vote_wire_roundtrip_witness:
  "vote_deserialize (vote_serialize \<lparr> vo_timestamp = vt_final, vo_voter = 1, vo_signature = 2, vo_hashes = [5, 6] \<rparr>) =
    Some (\<lparr> vo_timestamp = vt_final, vo_voter = 1, vo_signature = 2, vo_hashes = [5, 6] \<rparr>, [])"
  using vote_wire_roundtrip [of "\<lparr> vo_timestamp = vt_final, vo_voter = 1, vo_signature = 2, vo_hashes = [5, 6] \<rparr>"]
  by (simp add: max_hashes_def)



end
