(* ===== verification/Active_Properties.thy ===== *)
theory Active_Properties
  imports Active_Run Consensus_Properties
begin

text \<open>
  The properties of the active elections, over all states they reach (\<open>Active_Run\<close>), with a
  concrete run: an election for the genesis block of the example network, and the final vote that
  confirms it.
\<close>

section \<open>Auxiliary facts\<close>

lemma cleanup_elections_stopped: "cleanup_elections ens a = Some a' \<Longrightarrow> ac_stopped a' = ac_stopped a"
proof (induction ens arbitrary: a)
  case (Cons en ens)
  then obtain b where b: "cleanup_election en a = Some b" "cleanup_elections ens b = Some a'"
    by (cases "cleanup_election en a") auto
  then have "ac_stopped b = ac_stopped a"
    by (auto simp: cleanup_election_def count_dec_def ac_notify_def split: if_splits)
  with Cons.IH [OF b(2)] show ?case by simp
qed simp

lemma apply_vote_stopped_flag: "ac_apply_vote cr args a = Some (a', results) \<Longrightarrow> ac_stopped a' = ac_stopped a"
  unfolding ac_apply_vote_def
  by (cases "apply_vote_blocks cr args (filtered_blocks (av_vote args))
      (ac_recently_confirmed a, ac_observer a, ac_roots a) (Map.empty, [])")
    (auto split: bind_splits dest!: cleanup_elections_stopped)

lemma insert_recently_confirmed:
  assumes "\<not> ac_stopped a" "rcc_root_exists (ac_recently_confirmed a) (block_qualified_root (sv_block (rq_block rq)))"
  shows "ac_insert cr rq now a = Some (a, Inl RecentlyConfirmed)"
  using assms by (simp add: ac_insert_def ensure_not_stopped_def ensure_not_recently_confirmed_def)

lemma apply_vote_confirms:
  assumes inv: "election_inv cr e" and h: "h \<in> candidate_hashes e"
    and go: "\<not> el_is_confirmed e" "vote_refusal args h e = Inr ()"
    and quorum: "update_tallies cr (el_add_vote e (vo_voter (av_the_vote args)) h (vo_time (av_the_vote args)) (av_now args))
      (av_rep_weights args) (qs_quorum_delta (av_quorum_specs args)) = Some e'" "el_is_confirmed e'"
  obtains cache' obs' where "apply_vote_to_election cr args h (cache, obs, e) = Some ((cache', obs', e'), Inr ())"
    "el_qualified_root e' = el_qualified_root e" "election_inv cr e'" "same_shape e e'"
proof -
  let ?e = "el_add_vote e (vo_voter (av_the_vote args)) h (vo_time (av_the_vote args)) (av_now args)"
  have ok: "election_inv cr e' \<and> same_shape ?e e'"
    by (rule update_tallies_ok [OF add_vote_inv [OF inv h, of "vo_voter (av_the_vote args)" "vo_time (av_the_vote args)" "av_now args"],
          of "av_rep_weights args" "qs_quorum_delta (av_quorum_specs args)"]) (use quorum(1) in simp)
  then have shape: "same_shape e e'" by (simp add: same_shape_def el_add_vote_def)
  obtain cache' obs' where "confirm_if_quorum cr args (cache, obs, ?e) = Some (cache', obs', e')"
    using quorum by (simp add: confirm_if_quorum_def notify_winner_changed_def election_got_confirmed_def el_is_final_def Let_def)
  then have "apply_vote_to_election cr args h (cache, obs, e) = Some ((cache', obs', e'), Inr ())"
    using go by (simp add: apply_vote_to_election_def add_vote_to_election_def)
  then show thesis using ok shape that by (simp add: same_shape_def)
qed

lemma quorum_vote_ends:
  assumes inv: "aec_inv cr B a" and vote: "ac_apply_vote cr args a = Some (a', results)"
    and blocks: "filtered_blocks (av_vote args) = [h]"
    and en: "rc_vote_router (ac_roots a) h = Some r" "rc_get (ac_roots a) r = Some en"
    and go: "\<not> el_is_confirmed (en_election en)" "vote_refusal args h (en_election en) = Inr ()"
    and quorum: "update_tallies cr (el_add_vote (en_election en) (vo_voter (av_the_vote args)) h (vo_time (av_the_vote args))
        (av_now args)) (av_rep_weights args) (qs_quorum_delta (av_quorum_specs args)) = Some e'" "el_is_confirmed e'"
  shows "results h = Some (Inr ()) \<and> rc_get (ac_roots a') r = None"
proof -
  let ?R = "ac_roots a"
  note live = aec_inv_cases [OF inv en(2)]
  have ent: "election_inv cr (en_election en)" "el_qualified_root (en_election en) = r" using live(3) by (simp_all add: entry_ok_def)
  have "routes_ok (rc_get ?R) (rc_vote_router ?R)" using live(2) by (simp add: rc_ok_def)
  then have h: "h \<in> cands en" using routesD [of "rc_get ?R" "rc_vote_router ?R" h r] en by (auto simp del: set_map)
  obtain c o' where run: "apply_vote_to_election cr args h (ac_recently_confirmed a, ac_observer a, en_election en) =
      Some ((c, o', e'), Inr ())" and e': "el_qualified_root e' = r" "election_inv cr e'" "same_shape (en_election en) e'"
    using apply_vote_confirms [OF ent(1) h go quorum] ent(2) by metis
  let ?S = "rc_set_election r e' ?R"
  have S: "rc_ok cr B ?S" "rc_get ?S r = Some (en\<lparr> en_election := e' \<rparr>)"
    using set_election_ok [OF live(2) en(2) e'(2,3)] by (simp_all add: rc_get_set_election [OF en(2)])
  obtain R' where R': "rc_erase r ?S = Some (R', Some (en\<lparr> en_election := e' \<rparr>))" "rc_get R' = (rc_get ?S)(r := None)"
    using rc_erase_ok [OF S] by blast
  have e: "election_for_block ?R h = Some (en_election en)" using en by (simp add: election_for_block_def election_for_root_def)
  have "apply_vote_blocks cr args [h] (ac_recently_confirmed a, ac_observer a, ?R) (Map.empty, []) =
      Some ((c, o', R'), [h \<mapsto> Inr ()], [en\<lparr> en_election := e' \<rparr>])"
    using e run en(1) R'(1) quorum(2) e'(1) by simp
  then have "results = [h \<mapsto> Inr ()] \<and> ac_roots a' = R'"
    using vote blocks by (auto simp: ac_apply_vote_def cleanup_election_def count_dec_def ac_notify_def split: bind_splits if_splits)
  then show ?thesis using R'(2) by simp
qed

section \<open>A concrete run\<close>

abbreviation demo_block :: block where
  "demo_block \<equiv> sv_block (stored_genesis demo_genesis)"

abbreviation demo_root :: qualified_root where
  "demo_root \<equiv> block_qualified_root demo_block"

definition demo_request :: aec_insert_request where
  "demo_request = \<lparr> rq_block = stored_genesis demo_genesis, rq_behavior = Priority, rq_priority = BlockPriority 0 0 \<rparr>"

definition demo_vote :: apply_vote_args where
  "demo_vote = \<lparr> av_vote = unfiltered \<lparr> rv_vote = \<lparr> vo_timestamp = - 1, vo_voter = 1, vo_signature = 0, vo_hashes = [5] \<rparr>,
       rv_source = Live \<rparr>,
     av_rep_weights = [1 \<mapsto> 10], av_quorum_specs = \<lparr> qs_online_weight = 10, qs_quorum_delta = 10 \<rparr>, av_now = 0 \<rparr>"

lemma demo_collision_free: "collision_free demo_crypto {demo_block}"
  by (simp add: collision_free_def)

definition demo_entry :: entry where
  "demo_entry = \<lparr> en_root = demo_root, en_election = new_election demo_crypto (stored_genesis demo_genesis) Priority 0 0,
    en_priority = BlockPriority 0 0 \<rparr>"

lemma demo_active:
  obtains a where "aec_run demo_crypto {demo_block} a" "\<not> ac_stopped a"
    "ac_recently_confirmed a = new_recently_confirmed 1" "rc_get (ac_roots a) = [demo_root \<mapsto> demo_entry]"
    "rc_vote_router (ac_roots a) = [5 \<mapsto> demo_root]"
proof -
  obtain i where i: "prio_bucket_index 0 = Some i" "i < bucket_count"
    using bucket_index_total [of Priority 0] by auto
  then obtain a where a: "ac_insert demo_crypto demo_request 0 (new_aec 5 1 0) = Some (a, Inr ())" "\<not> ac_stopped a"
    "ac_recently_confirmed a = new_recently_confirmed 1"
    "rc_by_root (ac_roots a) = [(demo_root, demo_entry)]"
    "rc_vote_router (ac_roots a) = [5 \<mapsto> demo_root]"
    by (simp add: ac_insert_def ensure_not_stopped_def ensure_not_recently_confirmed_def new_aec_def
        new_recently_confirmed_def rcc_root_exists_def try_upgrade_priority_election_def demo_entry_def
        try_upgrade_to_priority_election_def rc_get_def default_root_container_def insert_new_election_def
        rc_insert_def en_bucket_def demo_request_def new_election_def modify_bucket_def connect_def
        count_inc_def ac_notify_def Let_def)
  have "aec_run demo_crypto {demo_block} a"
    by (rule aec_run.insert [OF aec_run.start _ _ a(1)]) (simp_all add: demo_request_def)
  then show thesis using a by (intro that [of a]) (simp_all add: rc_get_def fun_eq_iff)
qed

lemma demo_vote_counts:
  assumes "ac_recently_confirmed a = new_recently_confirmed 1" "rc_get (ac_roots a) = [demo_root \<mapsto> demo_entry]"
    "rc_vote_router (ac_roots a) = [5 \<mapsto> demo_root]"
  shows "filtered_blocks (av_vote demo_vote) = [5]" "vote_refusal demo_vote 5 (en_election demo_entry) = Inr ()"
  using assms
  by (simp_all add: demo_vote_def filtered_blocks_def unfiltered_def vote_refusal_def demo_entry_def new_election_def)

lemma demo_vote_confirms:
  obtains e where "update_tallies demo_crypto (el_add_vote (en_election demo_entry) (vo_voter (av_the_vote demo_vote)) 5
      (vo_time (av_the_vote demo_vote)) (av_now demo_vote)) (av_rep_weights demo_vote)
      (qs_quorum_delta (av_quorum_specs demo_vote)) = Some e" "el_is_confirmed e"
proof -
  have "vo_time (av_the_vote demo_vote) = - 1"
    by (simp add: demo_vote_def unfiltered_def vo_time_def vt_unix_timestamp_def vt_is_final_def vt_final_def)
  then have e: "el_add_vote (en_election demo_entry) (vo_voter (av_the_vote demo_vote)) 5
      (vo_time (av_the_vote demo_vote)) (av_now demo_vote) = demo_election"
    by (simp add: demo_election_def demo_entry_def demo_vote_def unfiltered_def)
  have w: "av_rep_weights demo_vote = [1 \<mapsto> 10]" "qs_quorum_delta (av_quorum_specs demo_vote) = 10"
    by (simp_all add: demo_vote_def)
  obtain x where "update_tallies demo_crypto demo_election [1 \<mapsto> 10] 10 = Some x" "el_state x = Confirmed"
    by (rule demo_election_confirmed [of 10]) simp
  then show thesis using that [of x] unfolding e w by (simp add: el_is_confirmed_def state_is_confirmed_def)
qed

section \<open>Bookkeeping\<close>



text \<open>
  C21. Well-formed elections: every election of a reachable state is stored under its own root, has between
  one and ten candidates, each stored under its own hash and with the root of the election, its winner
  is a candidate, and every vote is stored under its voter and is for a candidate.
\<close>

theorem active_elections_well_formed:
  assumes "aec_run cr B a" "collision_free cr B" "rc_get (ac_roots a) r = Some en"
  shows "en_root en = r \<and> el_qualified_root (en_election en) = r \<and>
    0 < length (el_candidates (en_election en)) \<and> length (el_candidates (en_election en)) \<le> 10 \<and>
    map_of (el_candidates (en_election en)) (winner_hash cr (en_election en)) = Some (el_winner (en_election en)) \<and>
    (\<forall>h b. map_of (el_candidates (en_election en)) h = Some b \<longrightarrow>
      mb_hash cr b = h \<and> block_qualified_root (mb_block b) = r) \<and>
    (\<forall>v s. map_of (el_votes (en_election en)) v = Some s \<longrightarrow>
      vs_voter s = v \<and> vs_hash s \<in> set (map fst (el_candidates (en_election en))))"
proof -
  have "entry_ok cr B r en" by (rule aec_inv_cases(3) [OF aec_run_inv [OF assms(1,2)] assms(3)])
  then have en: "en_root en = r" "el_qualified_root (en_election en) = r" "election_inv cr (en_election en)"
    by (simp_all add: entry_ok_def)
  then have c: "candidates_ok cr (en_election en)" and v: "votes_ok (en_election en)" by (simp_all add: election_inv_def)
  moreover from c have "el_candidates (en_election en) \<noteq> []" by (auto simp: candidates_ok_def)
  ultimately show ?thesis using en unfolding candidates_ok_def votes_ok_def candidate_ok_def max_blocks_def by simp
qed

theorem active_elections_well_formed_witness:
  "\<exists>a en. aec_run demo_crypto {demo_block} a \<and> rc_get (ac_roots a) demo_root = Some en \<and> en_root en = demo_root \<and>
    length (el_candidates (en_election en)) \<le> 10"
proof -
  obtain a where a: "aec_run demo_crypto {demo_block} a" "rc_get (ac_roots a) = [demo_root \<mapsto> demo_entry]"
    by (rule demo_active)
  show ?thesis
    using a(2) active_elections_well_formed [OF a(1) demo_collision_free, of demo_root demo_entry]
    by (intro exI [of _ a] exI [of _ demo_entry] conjI a(1)) auto
qed

section \<open>Operations\<close>

text \<open>
  C12. No panic: in every reachable state, starting an election, adding a fork, applying a vote, the
  timer and erasing elections return. A vote is answered for exactly its blocks.
\<close>

theorem active_elections_never_panic:
  assumes "aec_run cr B a" "collision_free cr B"
    and "sv_block (rq_block rq) \<in> B" "sv_hash cr (rq_block rq) \<noteq> 0" "fork \<in> B" "block_hash_of cr fork \<noteq> 0"
    and "i < bucket_count"
  shows "ac_insert cr rq now a \<noteq> None \<and> ac_try_add_fork cr fork tally a \<noteq> None \<and>
    (\<exists>a' results. ac_apply_vote cr args a = Some (a', results) \<and> dom results = set (filtered_blocks (av_vote args))) \<and>
    ac_transition_time now a \<noteq> None \<and> ac_erase root a \<noteq> None \<and> erase_lowest_prio_election i a \<noteq> None"
proof (intro conjI)
  have inv: "aec_inv cr B a" by (rule aec_run_inv [OF assms(1,2)])
  show "ac_insert cr rq now a \<noteq> None" by (rule insert_ok [OF inv assms(2-4) refl, of now]) simp
  show "ac_try_add_fork cr fork tally a \<noteq> None" by (rule try_add_fork_ok [OF inv assms(2,5,6), of tally]) simp
  show "\<exists>a' results. ac_apply_vote cr args a = Some (a', results) \<and> dom results = set (filtered_blocks (av_vote args))"
    by (rule apply_vote_ok [OF inv assms(2), of args]) blast
  show "ac_transition_time now a \<noteq> None" using transition_time_ok [OF inv, of now] by auto
  show "ac_erase root a \<noteq> None" by (rule erase_ok [OF inv, of root]) simp
  show "erase_lowest_prio_election i a \<noteq> None" using erase_lowest_ok [OF inv assms(7)] by auto
qed

theorem active_elections_never_panic_witness:
  "\<exists>a. aec_run demo_crypto {demo_block} a \<and> rc_get (ac_roots a) demo_root \<noteq> None \<and>
    ac_insert demo_crypto demo_request 0 a \<noteq> None \<and> ac_transition_time 0 a \<noteq> None"
proof -
  obtain a where a: "aec_run demo_crypto {demo_block} a" "rc_get (ac_roots a) = [demo_root \<mapsto> demo_entry]"
    by (rule demo_active)
  have rq: "sv_block (rq_block demo_request) \<in> {demo_block}" "sv_hash demo_crypto (rq_block demo_request) \<noteq> 0"
    "demo_block \<in> {demo_block}" "block_hash_of demo_crypto demo_block \<noteq> 0" "0 < bucket_count"
    by (simp_all add: demo_request_def bucket_count_def)
  show ?thesis
    using a active_elections_never_panic [OF a(1) demo_collision_free rq, of 0] by (intro exI [of _ a]) simp
qed

text \<open>
  C11. A vote that completes a quorum ends the election: if counting the vote confirms the election, then the
  vote is accepted, the root is no longer active, it is remembered as recently confirmed, and a new
  election for it is refused.
\<close>

theorem quorum_vote_closes_election:
  assumes "aec_run cr B a" "collision_free cr B" "filtered_blocks (av_vote args) = [h]"
    and "rc_vote_router (ac_roots a) h = Some r" "rc_get (ac_roots a) r = Some en"
    and "\<not> el_is_confirmed (en_election en)" "vote_refusal args h (en_election en) = Inr ()"
    and "update_tallies cr (el_add_vote (en_election en) (vo_voter (av_the_vote args)) h (vo_time (av_the_vote args))
        (av_now args)) (av_rep_weights args) (qs_quorum_delta (av_quorum_specs args)) = Some e'" "el_is_confirmed e'"
    and "0 < rcc_max_len (ac_recently_confirmed a)" "block_qualified_root (sv_block (rq_block rq)) = r"
  shows "\<exists>a' results. ac_apply_vote cr args a = Some (a', results) \<and> results h = Some (Inr ()) \<and>
    rc_get (ac_roots a') r = None \<and> rcc_root_exists (ac_recently_confirmed a') r \<and>
    ac_insert cr rq now a' = Some (a', Inl RecentlyConfirmed)"
proof -
  have inv: "aec_inv cr B a" by (rule aec_run_inv [OF assms(1,2)])
  obtain a' results where vote: "ac_apply_vote cr args a = Some (a', results)"
    and rec: "\<forall>r. rc_get (ac_roots a) r \<noteq> None \<and> \<not> was_confirmed (rc_get (ac_roots a)) r \<and>
      rc_get (ac_roots a') r = None \<longrightarrow> rcc_root_exists (ac_recently_confirmed a') r"
    by (rule apply_vote_ok [OF inv assms(2), of args]) (use assms(3,10) in auto)
  have ended: "results h = Some (Inr ())" "rc_get (ac_roots a') r = None"
    using quorum_vote_ends [OF inv vote assms(3-9)] by simp_all
  moreover have "rcc_root_exists (ac_recently_confirmed a') r"
    using rec ended(2) assms(5,6) by (simp add: was_confirmed_def)
  moreover have "\<not> ac_stopped a'" using aec_inv_cases(1) [OF inv assms(5)] apply_vote_stopped_flag [OF vote] by simp
  ultimately show ?thesis using vote insert_recently_confirmed [of a' rq cr now] assms(11) by auto
qed

theorem quorum_vote_closes_election_witness:
  "\<exists>a a' results. aec_run demo_crypto {demo_block} a \<and> rc_get (ac_roots a) demo_root \<noteq> None \<and>
    ac_apply_vote demo_crypto demo_vote a = Some (a', results) \<and> results 5 = Some (Inr ()) \<and>
    rc_get (ac_roots a') demo_root = None \<and>
    ac_insert demo_crypto demo_request 0 a' = Some (a', Inl RecentlyConfirmed)"
proof -
  obtain a where a: "aec_run demo_crypto {demo_block} a" "ac_recently_confirmed a = new_recently_confirmed 1"
    "rc_get (ac_roots a) = [demo_root \<mapsto> demo_entry]" "rc_vote_router (ac_roots a) = [5 \<mapsto> demo_root]"
    by (rule demo_active)
  note vote = demo_vote_counts [OF a(2-4)]
  obtain e where e: "update_tallies demo_crypto (el_add_vote (en_election demo_entry) (vo_voter (av_the_vote demo_vote)) 5
      (vo_time (av_the_vote demo_vote)) (av_now demo_vote)) (av_rep_weights demo_vote)
      (qs_quorum_delta (av_quorum_specs demo_vote)) = Some e" "el_is_confirmed e"
    by (rule demo_vote_confirms)
  have s: "rc_vote_router (ac_roots a) 5 = Some demo_root" "rc_get (ac_roots a) demo_root = Some demo_entry"
    "\<not> el_is_confirmed (en_election demo_entry)" "0 < rcc_max_len (ac_recently_confirmed a)"
    "block_qualified_root (sv_block (rq_block demo_request)) = demo_root"
    using a by (simp_all add: demo_entry_def new_election_def el_is_confirmed_def state_is_confirmed_def
        new_recently_confirmed_def demo_request_def)
  show ?thesis
    using a(1) s(2) quorum_vote_closes_election [OF a(1) demo_collision_free vote(1) s(1-3) vote(2) e s(4,5), of 0] by auto
qed

section \<open>Order and capacity\<close>

text \<open>
  C22. Round robin: iterating over the active elections visits every election exactly once, in rounds
  over the buckets from the last to the first: first the head of every bucket, then the second entry of
  every bucket, and so on.
\<close>

theorem elections_visited_round_robin:
  assumes "aec_run cr B a" "collision_free cr B" "\<not> ac_stopped a"
  shows "rc_iter (ac_roots a) =
      map (\<lambda>b. the (rc_get (ac_roots a) (be_root b))) (concat (transpose (rev (rc_buckets (ac_roots a))))) \<and>
    distinct (map en_root (rc_iter (ac_roots a))) \<and> set (rc_iter (ac_roots a)) = ran (rc_get (ac_roots a))"
proof -
  have "rc_ok cr B (ac_roots a)" using aec_run_inv [OF assms(1,2)] assms(3) by (simp add: aec_inv_def)
  then show ?thesis using iteration_order by blast
qed

theorem elections_visited_round_robin_witness:
  "\<exists>a. aec_run demo_crypto {demo_block} a \<and> \<not> ac_stopped a \<and> set (rc_iter (ac_roots a)) = {demo_entry}"
proof -
  obtain a where a: "aec_run demo_crypto {demo_block} a" "\<not> ac_stopped a" "rc_get (ac_roots a) = [demo_root \<mapsto> demo_entry]"
    by (rule demo_active)
  have "set (rc_iter (ac_roots a)) = ran (rc_get (ac_roots a))"
    using elections_visited_round_robin [OF a(1) demo_collision_free a(2)] by blast
  then show ?thesis using a by (intro exI [of _ a]) simp
qed

text \<open>
  C20. The cache of recently confirmed elections, two maps and a list of hashes, implements a bounded
  queue of pairs of a root and a block: \<open>put\<close> appends a new pair and drops the oldest one when the queue is full,
  and refuses a known root or block; \<open>erase\<close> removes the pair of a block; the lookups are membership.
\<close>

theorem recently_confirmed_refines_queue:
  assumes "rcc_inv c"
  shows "(rcc_abs (fst (rcc_put c r h)), snd (rcc_put c r h)) = queue_put (rcc_max_len c) (rcc_abs c) r h \<and>
    rcc_inv (fst (rcc_put c r h)) \<and>
    rcc_abs (rcc_erase c h) = filter (\<lambda>(_, g). g \<noteq> h) (rcc_abs c) \<and> rcc_inv (rcc_erase c h) \<and>
    rcc_abs (rcc_clear c) = [] \<and> rcc_inv (rcc_clear c) \<and>
    (rcc_root_exists c r \<longleftrightarrow> r \<in> fst ` set (rcc_abs c)) \<and> (rcc_hash_exists c h \<longleftrightarrow> h \<in> snd ` set (rcc_abs c))"
proof (intro conjI)
  have links: "rcc_links c" using assms by (simp add: rcc_inv_def)
  show "rcc_root_exists c r \<longleftrightarrow> r \<in> fst ` set (rcc_abs c)" "rcc_hash_exists c h \<longleftrightarrow> h \<in> snd ` set (rcc_abs c)"
    by (rule rcc_exists_abs [OF links])+
qed (rule rcc_put_refines [OF assms] rcc_erase_refines [OF assms] rcc_clear_refines)+

theorem recently_confirmed_refines_queue_witness:
  "rcc_abs (fst (rcc_put (fst (rcc_put (new_recently_confirmed 1) (QualifiedRoot 1 2) 3)) (QualifiedRoot 4 5) 6)) =
    [(QualifiedRoot 4 5, 6)]"
proof -
  let ?c = "fst (rcc_put (new_recently_confirmed 1) (QualifiedRoot 1 2) 3)"
  have c: "rcc_inv ?c" "rcc_max_len ?c = rcc_max_len (new_recently_confirmed 1)"
    by (rule rcc_put_refines [OF new_recently_confirmed_inv])+
  have "rcc_abs ?c = [(QualifiedRoot 1 2, 3)]"
    by (simp add: rcc_put_def new_recently_confirmed_def rcc_hash_exists_def rcc_root_exists_def rcc_abs_def del: rcc_length_abs)
  then show ?thesis
    using recently_confirmed_refines_queue [OF c(1), of "QualifiedRoot 4 5" 6] unfolding c(2) by (simp add: queue_put_def new_recently_confirmed_def)
qed



section \<open>Clock\<close>

text \<open>
  C34. An election whose start lies in the future of the clock value given to the timer (up to an hour) expires at once,
  instead of being treated as just started: the negative difference wraps around to almost
  \<open>2 ^ 64\<close> nanoseconds.
\<close>

theorem future_start_expires_election:
  assumes "el_start e = now + k" "0 < k" "k \<le> 3600 * 10 ^ 9" "\<not> has_ended (el_state e)"
  shows "elapsed (el_start e) now = 2 ^ 64 - nat k \<and> el_state (el_transition_time e now) = ExpiredUnconfirmed"
proof -
  have "(- k) mod 2 ^ 64 = 2 ^ 64 - k"
    using assms(2,3) by (simp add: zmod_zminus1_eq_if)
  then have el: "elapsed (el_start e) now = 2 ^ 64 - nat k"
    using assms(1-3) by (simp add: elapsed_def i128_checked_def nat_diff_distrib)
  moreover have "time_to_live (el_behavior e) < 2 ^ 64 - nat k"
    using assms(2,3) by (cases "el_behavior e") (simp_all add: from_secs_def)
  ultimately show ?thesis
    using assms(4) unfolding el_transition_time_def el Let_def
    by (cases "el_state e") (simp_all add: has_ended_def)
qed

theorem future_start_expires_election_witness:
  "el_state (el_transition_time (new_election demo_crypto (stored_genesis demo_genesis) Priority 0 1) 0) = ExpiredUnconfirmed"
  using future_start_expires_election [of "new_election demo_crypto (stored_genesis demo_genesis) Priority 0 1" 0 1]
  by (simp add: new_election_def has_ended_def)

end
