(* ===== verification/Wire_Messages.thy ===== *)
theory Wire_Messages
  imports Blocks Votes
begin

text \<open>
  The messages of the peer protocol (\<open>messages/src\<close>): the common header, the payload of every type
  of message with its writer and its reader, and the extensions of the header in which a message announces its
  size and flags. \<open>None\<close> is a rejected payload, except where a panic is possible: there the outer
  \<open>None\<close> is the panic. The extensions (a \<open>BitArray<u16>\<close> in its default order) are a word whose bit
  \<open>i\<close> is the entry at index \<open>i\<close>.
\<close>

section \<open>Numbered enumerations\<close>

text \<open>An enumeration with its numbers; \<open>from_code\<close> is the derived \<open>FromPrimitive\<close>.\<close>

definition as_code :: "('e \<times> 'c) list \<Rightarrow> 'e \<Rightarrow> 'c" where
  "as_code codes e = the (map_of codes e)"

definition from_code :: "('e \<times> 'c) list \<Rightarrow> 'c \<Rightarrow> 'e option" where
  "from_code codes c = map_option fst (find (\<lambda>(_, d). d = c) codes)"

section \<open>Header\<close>

datatype networks = InvalidNetwork | NanoDevNetwork | NanoBetaNetwork | NanoLiveNetwork | NanoTestNetwork

definition network_codes :: "(networks \<times> u16) list" where
  "network_codes = [(InvalidNetwork, 0), (NanoDevNetwork, 0x4241), (NanoBetaNetwork, 0x4242),
    (NanoLiveNetwork, 0x4258), (NanoTestNetwork, 0x4243)]"

record protocol_info =
  version_using :: u8
  version_max :: u8
  version_min :: u8
  pi_network :: networks

datatype message_type =
    MT_Invalid | MT_NotAType | MT_Keepalive | MT_Publish | MT_ConfirmReq | MT_ConfirmAck | MT_BulkPull
  | MT_BulkPush | MT_FrontierReq | MT_NodeIdHandshake | MT_BulkPullAccount | MT_TelemetryReq
  | MT_TelemetryAck | MT_AscPullReq | MT_AscPullAck

definition message_type_codes :: "(message_type \<times> u8) list" where
  "message_type_codes = [(MT_Invalid, 0x0), (MT_NotAType, 0x1), (MT_Keepalive, 0x2), (MT_Publish, 0x3),
    (MT_ConfirmReq, 0x4), (MT_ConfirmAck, 0x5), (MT_BulkPull, 0x6), (MT_BulkPush, 0x7), (MT_FrontierReq, 0x8),
    (MT_NodeIdHandshake, 0x0a), (MT_BulkPullAccount, 0x0b), (MT_TelemetryReq, 0x0c), (MT_TelemetryAck, 0x0d),
    (MT_AscPullReq, 0x0e), (MT_AscPullAck, 0x0f)]"

record message_header =
  mh_message_type :: message_type
  mh_protocol :: protocol_info
  mh_extensions :: u16

definition header_size :: nat where
  "header_size = 8"

definition header_serialize :: "message_header \<Rightarrow> bytes" where
  "header_serialize h =
    be_bytes 2 (as_code network_codes (pi_network (mh_protocol h))) @
    [version_max (mh_protocol h), version_using (mh_protocol h), version_min (mh_protocol h),
     as_code message_type_codes (mh_message_type h)] @
    le_bytes 2 (mh_extensions h)"

definition header_deserialize :: "message_header reader" where
  "header_deserialize bs = do {
    (net, bs) \<leftarrow> read_be 2 bs;
    net \<leftarrow> from_code network_codes net;
    (vmax, bs) \<leftarrow> read_u8 bs;
    (vusing, bs) \<leftarrow> read_u8 bs;
    (vmin, bs) \<leftarrow> read_u8 bs;
    (mt, bs) \<leftarrow> read_u8 bs;
    mt \<leftarrow> from_code message_type_codes mt;
    (ext, bs) \<leftarrow> read_le 2 bs;
    Some (\<lparr> mh_message_type = mt,
      mh_protocol = \<lparr> version_using = vusing, version_max = vmax, version_min = vmin, pi_network = net \<rparr>,
      mh_extensions = ext \<rparr>, bs) }"

lemma network_roundtrip [codec_simps]: "from_code network_codes (as_code network_codes n) = Some n"
  by (cases n) (simp_all add: from_code_def as_code_def network_codes_def)

lemma message_type_roundtrip [codec_simps]: "from_code message_type_codes (as_code message_type_codes t) = Some t"
  by (cases t) (simp_all add: from_code_def as_code_def message_type_codes_def)

interpretation header_codec: fixed_codec header_serialize header_deserialize header_size
  by unfold_locales
    (auto simp: header_serialize_def header_deserialize_def header_size_def codec_simps bind_eq_Some_conv
      dest!: reader_length)

text \<open>\<open>BitArray::set\<close>.\<close>

definition set_extension :: "nat \<Rightarrow> bool \<Rightarrow> u16 \<Rightarrow> u16" where
  "set_extension i b ext = (if b then set_bit i ext else unset_bit i ext)"

lemma bit_set_extension [simp]: "i < 16 \<Longrightarrow> bit (set_extension i b ext) j = (if j = i then b else bit ext j)"
  by (auto simp: set_extension_def bit_simps)

section \<open>Keepalive\<close>

text \<open>\<open>SocketAddrV6\<close>; the array of a keepalive message has eight of them.\<close>

record socket_addr =
  sa_ip :: u128
  sa_port :: u16
  sa_flowinfo :: u32
  sa_scope_id :: u32

record keepalive =
  ka_peers :: "socket_addr list"

definition keepalive_serialize :: "keepalive \<Rightarrow> bytes" where
  "keepalive_serialize k = concat (map (\<lambda>peer. be_bytes 16 (sa_ip peer) @ le_bytes 2 (sa_port peer)) (ka_peers k))"

fun read_peers :: "nat \<Rightarrow> socket_addr list reader" where
  "read_peers 0 bs = Some ([], bs)"
| "read_peers (Suc n) bs = do {
    (ip, bs) \<leftarrow> read_be 16 bs;
    (port, bs) \<leftarrow> read_le 2 bs;
    (peers, bs) \<leftarrow> read_peers n bs;
    Some (\<lparr> sa_ip = ip, sa_port = port, sa_flowinfo = 0, sa_scope_id = 0 \<rparr> # peers, bs) }"

definition keepalive_deserialize :: "keepalive reader" where
  "keepalive_deserialize bs = do { (peers, bs) \<leftarrow> read_peers 8 bs; Some (\<lparr> ka_peers = peers \<rparr>, bs) }"

section \<open>Publish\<close>

record publish =
  pb_block :: block
  pb_digest :: u128
  pb_is_originator :: bool

definition publish_block_type :: "u16 \<Rightarrow> block_type" where
  "publish_block_type ext =
    (case block_type_from_u8 (ucast (drop_bit 8 (ext AND 0x0f00))) of Some t \<Rightarrow> t | None \<Rightarrow> BT_Invalid)"

definition publish_deserialize :: "u16 \<Rightarrow> u128 \<Rightarrow> publish reader" where
  "publish_deserialize ext digest bs = do {
    (b, bs) \<leftarrow> deserialize_block_type (publish_block_type ext) bs;
    Some (\<lparr> pb_block = b, pb_digest = digest, pb_is_originator = (0 < ext AND push_bit 2 1) \<rparr>, bs) }"

definition publish_extensions :: "publish \<Rightarrow> u16" where
  "publish_extensions p =
    (let flags = push_bit 8 (ucast (block_type_as_u8 (block_type_of (pb_block p))))
     in if pb_is_originator p then flags OR push_bit 2 1 else flags)"

section \<open>Confirmation requests\<close>

record confirm_req =
  roots_hashes :: "(block_hash \<times> root) list"

text \<open>\<open>None\<close> is the panic for too many hashes.\<close>

definition new_confirm_req :: "(block_hash \<times> root) list \<Rightarrow> confirm_req option" where
  "new_confirm_req rh = (if 255 < length rh then None else Some \<lparr> roots_hashes = rh \<rparr>)"

definition cq_count :: "u16 \<Rightarrow> u8" where
  "cq_count ext =
    (let left = drop_bit 12 (ext AND 0xf000); right = drop_bit 4 (ext AND 0x00f0) in
     if ext AND 1 = 1 then ucast (push_bit 4 left OR right) else ucast left)"

definition cq_count_bits :: "u8 \<Rightarrow> u16" where
  "cq_count_bits count =
    (if count < 16 then push_bit 12 (ucast count)
     else (let left = drop_bit 4 count AND 0xf; right = count AND 0xf
           in 1 OR push_bit 12 (ucast left) OR push_bit 4 (ucast right)))"

definition cq_block_type :: "u16 \<Rightarrow> block_type" where
  "cq_block_type ext =
    (case block_type_from_u8 (ucast (drop_bit 8 (ext AND 0x0f00))) of Some t \<Rightarrow> t | None \<Rightarrow> BT_Invalid)"

definition cq_serialized_size :: "u16 \<Rightarrow> nat" where
  "cq_serialized_size ext =
    (let t = cq_block_type ext in
     if t \<noteq> BT_Invalid \<and> t \<noteq> BT_NotABlock then serialized_block_size t
     else if t = BT_NotABlock then unat (cq_count ext) * (32 + 32) else 0)"

definition cq_serialize :: "confirm_req \<Rightarrow> bytes" where
  "cq_serialize r = concat (map (\<lambda>(hash, root). be_bytes 32 hash @ be_bytes 32 root) (roots_hashes r))"

fun read_roots :: "nat \<Rightarrow> (block_hash \<times> root) list reader" where
  "read_roots 0 bs = Some ([], bs)"
| "read_roots (Suc n) bs = do {
    (hash, bs) \<leftarrow> read_be 32 bs;
    (root, bs) \<leftarrow> read_be 32 bs;
    (rh, bs) \<leftarrow> read_roots n bs;
    Some (if hash \<noteq> 0 \<or> root \<noteq> 0 then (hash, root) # rh else rh, bs) }"

definition cq_deserialize :: "u16 \<Rightarrow> bytes \<Rightarrow> confirm_req option option" where
  "cq_deserialize ext bs =
    (let count = unat (cq_count ext) in
     case read_roots count bs of
       None \<Rightarrow> Some None
     | Some (rh, _) \<Rightarrow> if rh = [] \<or> length rh \<noteq> count then Some None else map_option Some (new_confirm_req rh))"

definition cq_extensions :: "confirm_req \<Rightarrow> u16" where
  "cq_extensions r =
    cq_count_bits (of_nat (length (roots_hashes r))) OR push_bit 8 (ucast (block_type_as_u8 BT_NotABlock))"

section \<open>Confirmations\<close>

record confirm_ack =
  ca_vote :: vote
  ca_is_rebroadcasted :: bool
  ca_digest :: u128

text \<open>Both constructors assert that there are not too many hashes.\<close>

definition new_confirm_ack :: "vote \<Rightarrow> bool \<Rightarrow> confirm_ack option" where
  "new_confirm_ack v rebroadcasted =
    (if length (vo_hashes v) \<le> 255
     then Some \<lparr> ca_vote = v, ca_is_rebroadcasted = rebroadcasted, ca_digest = 0 \<rparr> else None)"

definition ca_deserialize :: "u16 \<Rightarrow> u128 \<Rightarrow> bytes \<Rightarrow> confirm_ack option option" where
  "ca_deserialize ext digest bs =
    (case vote_deserialize bs of
      None \<Rightarrow> Some None
    | Some (v, _) \<Rightarrow> map_option (\<lambda>ack. Some (ack\<lparr> ca_digest := digest \<rparr>)) (new_confirm_ack v (bit ext 2)))"

definition ca_extensions :: "confirm_ack \<Rightarrow> u16" where
  "ca_extensions a =
    set_extension 2 (ca_is_rebroadcasted a) (cq_count_bits (of_nat (length (vo_hashes (ca_vote a)))))"

section \<open>Legacy bootstrap requests\<close>

record frontier_req =
  fr_start :: account
  fr_age :: u32
  fr_count :: u32
  fr_only_confirmed :: bool

definition fr_serialize :: "frontier_req \<Rightarrow> bytes" where
  "fr_serialize r = be_bytes 32 (fr_start r) @ le_bytes 4 (fr_age r) @ le_bytes 4 (fr_count r)"

definition fr_deserialize :: "u16 \<Rightarrow> frontier_req reader" where
  "fr_deserialize ext bs = do {
    (start, bs) \<leftarrow> read_be 32 bs;
    (age, bs) \<leftarrow> read_le 4 bs;
    (count, bs) \<leftarrow> read_le 4 bs;
    Some (\<lparr> fr_start = start, fr_age = age, fr_count = count, fr_only_confirmed = bit ext 1 \<rparr>, bs) }"

record bulk_pull =
  bp_start :: u256
  bp_end :: block_hash
  bp_count :: u32
  bp_ascending :: bool

definition bp_serialize :: "bulk_pull \<Rightarrow> bytes" where
  "bp_serialize r = be_bytes 32 (bp_start r) @ be_bytes 32 (bp_end r) @
    (if 0 < bp_count r then 0 # le_bytes 4 (bp_count r) @ [0, 0, 0] else [])"

definition bp_deserialize :: "u16 \<Rightarrow> bulk_pull reader" where
  "bp_deserialize ext bs = do {
    (start, bs) \<leftarrow> read_be 32 bs;
    (end_hash, bs) \<leftarrow> read_be 32 bs;
    (count, bs) \<leftarrow>
      (if bit ext 0
       then do {
         (buf, bs) \<leftarrow> read_bytes 8 bs;
         if buf ! 0 \<noteq> 0 then None else Some (of_le_bytes (take 4 (drop 1 buf)), bs) }
       else Some (0, bs));
    Some (\<lparr> bp_start = start, bp_end = end_hash, bp_count = count, bp_ascending = bit ext 1 \<rparr>, bs) }"

datatype bulk_pull_account_flags = PendingHashAndAmount | PendingAddressOnly | PendingHashAmountAndAddress

definition bulk_pull_account_flag_codes :: "(bulk_pull_account_flags \<times> u8) list" where
  "bulk_pull_account_flag_codes =
    [(PendingHashAndAmount, 0), (PendingAddressOnly, 1), (PendingHashAmountAndAddress, 2)]"

record bulk_pull_account =
  ba_account :: account
  ba_minimum_amount :: amount
  ba_flags :: bulk_pull_account_flags

definition ba_serialize :: "bulk_pull_account \<Rightarrow> bytes" where
  "ba_serialize r = be_bytes 32 (ba_account r) @ be_bytes 16 (ba_minimum_amount r) @
    [as_code bulk_pull_account_flag_codes (ba_flags r)]"

definition ba_deserialize :: "bulk_pull_account reader" where
  "ba_deserialize bs = do {
    (acc, bs) \<leftarrow> read_be 32 bs;
    (minimum, bs) \<leftarrow> read_be 16 bs;
    (flags, bs) \<leftarrow> read_u8 bs;
    flags \<leftarrow> from_code bulk_pull_account_flag_codes flags;
    Some (\<lparr> ba_account = acc, ba_minimum_amount = minimum, ba_flags = flags \<rparr>, bs) }"

section \<open>Ascending bootstrap\<close>

datatype hash_type = HT_Account | HT_Block

definition hash_type_codes :: "(hash_type \<times> u8) list" where
  "hash_type_codes = [(HT_Account, 0), (HT_Block, 1)]"

datatype asc_pull_req_type =
    BlocksReq (br_start_type: hash_type) (br_start: u256) (br_count: u8)
  | AccountInfoReq (ar_target: u256) (ar_target_type: hash_type)
  | FrontiersReq (fq_start: account) (fq_count: u16)

record asc_pull_req =
  aq_id :: u64
  aq_req_type :: asc_pull_req_type

fun asc_pull_req_type_serialize :: "asc_pull_req_type \<Rightarrow> bytes" where
  "asc_pull_req_type_serialize (BlocksReq t start count) = be_bytes 32 start @ [count, as_code hash_type_codes t]"
| "asc_pull_req_type_serialize (AccountInfoReq target t) = be_bytes 32 target @ [as_code hash_type_codes t]"
| "asc_pull_req_type_serialize (FrontiersReq start count) = be_bytes 32 start @ be_bytes 2 count"

definition asc_pull_req_serialize :: "asc_pull_req \<Rightarrow> bytes" where
  "asc_pull_req_serialize r =
    (case aq_req_type r of BlocksReq _ _ _ \<Rightarrow> 1 | AccountInfoReq _ _ \<Rightarrow> 2 | FrontiersReq _ _ \<Rightarrow> 3) #
    be_bytes 8 (aq_id r) @ asc_pull_req_type_serialize (aq_req_type r)"

definition asc_pull_req_deserialize :: "asc_pull_req reader" where
  "asc_pull_req_deserialize bs = do {
    (code, bs) \<leftarrow> read_u8 bs;
    if code \<notin> {1, 2, 3} then None
    else do {
      (i, bs) \<leftarrow> read_be 8 bs;
      (req, bs) \<leftarrow>
        (if code = 1 then do {
           (start, bs) \<leftarrow> read_be 32 bs;
           (count, bs) \<leftarrow> read_u8 bs;
           (t, bs) \<leftarrow> read_u8 bs;
           t \<leftarrow> from_code hash_type_codes t;
           Some (BlocksReq t start count, bs) }
         else if code = 2 then do {
           (target, bs) \<leftarrow> read_be 32 bs;
           (t, bs) \<leftarrow> read_u8 bs;
           t \<leftarrow> from_code hash_type_codes t;
           Some (AccountInfoReq target t, bs) }
         else do {
           (start, bs) \<leftarrow> read_be 32 bs;
           (count, bs) \<leftarrow> read_be 2 bs;
           Some (FrontiersReq start count, bs) });
      Some (\<lparr> aq_id = i, aq_req_type = req \<rparr>, bs) } }"

type_synonym frontier = "account \<times> block_hash"

record account_info_ack =
  aa_account :: account
  aa_account_open :: block_hash
  aa_account_head :: block_hash
  aa_account_block_count :: u64
  aa_account_conf_frontier :: block_hash
  aa_account_conf_height :: u64

datatype asc_pull_ack_type = BlocksAck "block list" | AccountInfoAck account_info_ack | FrontiersAck "frontier list"

record asc_pull_ack =
  ak_id :: u64
  ak_pull_type :: asc_pull_ack_type

definition max_frontiers :: nat where
  "max_frontiers = 1000"

definition max_ack_blocks :: nat where
  "max_ack_blocks = 128"

definition frontier_serialize :: "frontier \<Rightarrow> bytes" where
  "frontier_serialize = (\<lambda>(acc, hash). be_bytes 32 acc @ be_bytes 32 hash)"

text \<open>Blocks end with the number of \<open>NotABlock\<close>, frontiers with the default frontier.\<close>

fun serialize_pull_type :: "asc_pull_ack_type \<Rightarrow> bytes" where
  "serialize_pull_type (BlocksAck blocks) = concat (map serialize_block blocks) @ [block_type_as_u8 BT_NotABlock]"
| "serialize_pull_type (AccountInfoAck a) =
    be_bytes 32 (aa_account a) @ be_bytes 32 (aa_account_open a) @ be_bytes 32 (aa_account_head a) @
    be_bytes 8 (aa_account_block_count a) @ be_bytes 32 (aa_account_conf_frontier a) @
    be_bytes 8 (aa_account_conf_height a)"
| "serialize_pull_type (FrontiersAck frontiers) = concat (map frontier_serialize frontiers) @ frontier_serialize (0, 0)"

definition asc_pull_ack_serialize :: "asc_pull_ack \<Rightarrow> bytes" where
  "asc_pull_ack_serialize a =
    (case ak_pull_type a of BlocksAck _ \<Rightarrow> 1 | AccountInfoAck _ \<Rightarrow> 2 | FrontiersAck _ \<Rightarrow> 3) #
    be_bytes 8 (ak_id a) @ serialize_pull_type (ak_pull_type a)"

text \<open>Blocks are read until one cannot be read; the argument counts how many more are allowed.\<close>

fun read_ack_blocks :: "nat \<Rightarrow> bytes \<Rightarrow> block list option" where
  "read_ack_blocks n bs =
    (case deserialize_block bs of
      None \<Rightarrow> Some []
    | Some (b, bs) \<Rightarrow>
        (case n of 0 \<Rightarrow> None | Suc m \<Rightarrow> do { blocks \<leftarrow> read_ack_blocks m bs; Some (b # blocks) }))"

fun read_frontiers :: "nat \<Rightarrow> bytes \<Rightarrow> frontier list option" where
  "read_frontiers n bs = do {
    (acc, bs) \<leftarrow> read_be 32 bs;
    (hash, bs) \<leftarrow> read_be 32 bs;
    if (acc, hash) = (0, 0) then Some []
    else (case n of 0 \<Rightarrow> Some [] | Suc m \<Rightarrow> do { frontiers \<leftarrow> read_frontiers m bs; Some ((acc, hash) # frontiers) }) }"

definition account_info_ack_deserialize :: "account_info_ack reader" where
  "account_info_ack_deserialize bs = do {
    (acc, bs) \<leftarrow> read_be 32 bs;
    (opn, bs) \<leftarrow> read_be 32 bs;
    (hd, bs) \<leftarrow> read_be 32 bs;
    (count, bs) \<leftarrow> read_be 8 bs;
    (front, bs) \<leftarrow> read_be 32 bs;
    (height, bs) \<leftarrow> read_be 8 bs;
    Some (\<lparr> aa_account = acc, aa_account_open = opn, aa_account_head = hd, aa_account_block_count = count,
      aa_account_conf_frontier = front, aa_account_conf_height = height \<rparr>, bs) }"

definition asc_pull_ack_deserialize :: "bytes \<Rightarrow> asc_pull_ack option" where
  "asc_pull_ack_deserialize bs = do {
    (code, bs) \<leftarrow> read_u8 bs;
    if code \<notin> {1, 2, 3} then None
    else do {
      (i, bs) \<leftarrow> read_be 8 bs;
      t \<leftarrow>
        (if code = 1 then map_option BlocksAck (read_ack_blocks max_ack_blocks bs)
         else if code = 2 then map_option (\<lambda>(a, _). AccountInfoAck a) (account_info_ack_deserialize bs)
         else map_option FrontiersAck (read_frontiers max_frontiers bs));
      Some \<lparr> ak_id = i, ak_pull_type = t \<rparr> } }"

declare read_ack_blocks.simps [simp del] read_frontiers.simps [simp del]

section \<open>Handshake\<close>

text \<open>Cookies and salts are 32 bytes, represented like the other 32 byte values.\<close>

record v2_payload =
  v2_salt :: u256
  v2_genesis :: block_hash

record handshake_response =
  hr_node_id :: public_key
  hr_signature :: signature
  hr_v2 :: "v2_payload option"

record node_id_handshake =
  hs_query :: "u256 option"
  hs_response :: "handshake_response option"
  hs_is_v2 :: bool

definition data_to_sign :: "handshake_response \<Rightarrow> u256 \<Rightarrow> bytes" where
  "data_to_sign r cookie =
    (case hr_v2 r of
      Some v2 \<Rightarrow> be_bytes 32 cookie @ be_bytes 32 (v2_salt v2) @ be_bytes 32 (v2_genesis v2)
    | None \<Rightarrow> be_bytes 32 cookie)"

definition handshake_validate :: "crypto \<Rightarrow> handshake_response \<Rightarrow> u256 \<Rightarrow> bool" where
  "handshake_validate cr r cookie = ed25519_verify cr (hr_node_id r) (data_to_sign r cookie) (hr_signature r)"

definition response_serialize :: "handshake_response \<Rightarrow> bytes" where
  "response_serialize r =
    (case hr_v2 r of
      Some v2 \<Rightarrow>
        be_bytes 32 (hr_node_id r) @ be_bytes 32 (v2_salt v2) @ be_bytes 32 (v2_genesis v2) @ be_bytes 64 (hr_signature r)
    | None \<Rightarrow> be_bytes 32 (hr_node_id r) @ be_bytes 64 (hr_signature r))"

definition response_deserialize :: "u16 \<Rightarrow> handshake_response reader" where
  "response_deserialize ext bs =
    (if bit ext 2 then do {
       (node_id, bs) \<leftarrow> read_be 32 bs;
       (salt, bs) \<leftarrow> read_be 32 bs;
       (genesis, bs) \<leftarrow> read_be 32 bs;
       (sig, bs) \<leftarrow> read_be 64 bs;
       Some (\<lparr> hr_node_id = node_id, hr_signature = sig, hr_v2 = Some \<lparr> v2_salt = salt, v2_genesis = genesis \<rparr> \<rparr>, bs) }
     else do {
       (node_id, bs) \<leftarrow> read_be 32 bs;
       (sig, bs) \<leftarrow> read_be 64 bs;
       Some (\<lparr> hr_node_id = node_id, hr_signature = sig, hr_v2 = None \<rparr>, bs) })"

definition handshake_serialize :: "node_id_handshake \<Rightarrow> bytes" where
  "handshake_serialize h =
    (case hs_query h of Some cookie \<Rightarrow> be_bytes 32 cookie | None \<Rightarrow> []) @
    (case hs_response h of Some r \<Rightarrow> response_serialize r | None \<Rightarrow> [])"

definition handshake_deserialize :: "u16 \<Rightarrow> node_id_handshake reader" where
  "handshake_deserialize ext bs = do {
    (query, bs) \<leftarrow> (if bit ext 0 then map_option (\<lambda>(cookie, bs). (Some cookie, bs)) (read_be 32 bs) else Some (None, bs));
    (response, bs) \<leftarrow>
      (if bit ext 1 then map_option (\<lambda>(r, bs). (Some r, bs)) (response_deserialize ext bs) else Some (None, bs));
    Some (\<lparr> hs_query = query, hs_response = response, hs_is_v2 = bit ext 2 \<rparr>, bs) }"

definition handshake_extensions :: "node_id_handshake \<Rightarrow> u16" where
  "handshake_extensions h =
    set_extension 2 (hs_is_v2 h) (set_extension 1 (hs_response h \<noteq> None) (set_extension 0 (hs_query h \<noteq> None) 0))"

section \<open>Telemetry\<close>

text \<open>The time stamp is in nanoseconds since the Unix epoch; sending a time before it panics.\<close>

record telemetry_data =
  td_signature :: signature
  td_node_id :: public_key
  td_block_count :: u64
  td_cemented_count :: u64
  td_unchecked_count :: u64
  td_account_count :: u64
  td_bandwidth_cap :: u64
  td_uptime :: u64
  td_peer_count :: u32
  td_protocol_version :: u8
  td_genesis_block :: block_hash
  td_major_version :: u8
  td_minor_version :: u8
  td_patch_version :: u8
  td_pre_release_version :: u8
  td_maker :: u8
  td_timestamp :: nat
  td_active_difficulty :: u64
  td_unknown_data :: bytes

definition telemetry_known_size :: nat where
  "telemetry_known_size = 64 + 32 + 8 + 8 + 8 + 8 + 8 + 4 + 1 + 8 + 32 + 1 + 1 + 1 + 1 + 1 + 8 + 8"

definition serialize_without_signature :: "telemetry_data \<Rightarrow> bytes" where
  "serialize_without_signature d =
    be_bytes 32 (td_node_id d) @ be_bytes 8 (td_block_count d) @ be_bytes 8 (td_cemented_count d) @
    be_bytes 8 (td_unchecked_count d) @ be_bytes 8 (td_account_count d) @ be_bytes 8 (td_bandwidth_cap d) @
    be_bytes 4 (td_peer_count d) @ [td_protocol_version d] @ be_bytes 8 (td_uptime d) @
    be_bytes 32 (td_genesis_block d) @
    [td_major_version d, td_minor_version d, td_patch_version d, td_pre_release_version d, td_maker d] @
    be_bytes 8 (of_nat (td_timestamp d div 1000000) :: u64) @ be_bytes 8 (td_active_difficulty d) @ td_unknown_data d"

definition telemetry_deserialize :: "nat \<Rightarrow> telemetry_data reader" where
  "telemetry_deserialize payload_len bs = do {
    (sig, bs) \<leftarrow> read_be 64 bs;
    (node_id, bs) \<leftarrow> read_be 32 bs;
    (block_count, bs) \<leftarrow> read_be 8 bs;
    (cemented_count, bs) \<leftarrow> read_be 8 bs;
    (unchecked_count, bs) \<leftarrow> read_be 8 bs;
    (account_count, bs) \<leftarrow> read_be 8 bs;
    (bandwidth_cap, bs) \<leftarrow> read_be 8 bs;
    (peer_count, bs) \<leftarrow> read_be 4 bs;
    (protocol_version, bs) \<leftarrow> read_u8 bs;
    (uptime, bs) \<leftarrow> read_be 8 bs;
    (genesis_block, bs) \<leftarrow> read_be 32 bs;
    (major, bs) \<leftarrow> read_u8 bs;
    (minor, bs) \<leftarrow> read_u8 bs;
    (patch, bs) \<leftarrow> read_u8 bs;
    (pre_release, bs) \<leftarrow> read_u8 bs;
    (maker, bs) \<leftarrow> read_u8 bs;
    (timestamp_ms :: u64, bs) \<leftarrow> read_be 8 bs;
    (active_difficulty, bs) \<leftarrow> read_be 8 bs;
    (unknown, bs) \<leftarrow>
      (if telemetry_known_size < payload_len then read_bytes (payload_len - telemetry_known_size) bs else Some ([], bs));
    Some (\<lparr> td_signature = sig, td_node_id = node_id, td_block_count = block_count, td_cemented_count = cemented_count,
      td_unchecked_count = unchecked_count, td_account_count = account_count, td_bandwidth_cap = bandwidth_cap,
      td_uptime = uptime, td_peer_count = peer_count, td_protocol_version = protocol_version,
      td_genesis_block = genesis_block, td_major_version = major, td_minor_version = minor,
      td_patch_version = patch, td_pre_release_version = pre_release, td_maker = maker,
      td_timestamp = unat timestamp_ms * 1000000, td_active_difficulty = active_difficulty,
      td_unknown_data = unknown \<rparr>, bs) }"

definition telemetry_validate_signature :: "crypto \<Rightarrow> telemetry_data \<Rightarrow> bool" where
  "telemetry_validate_signature cr d = ed25519_verify cr (td_node_id d) (serialize_without_signature d) (td_signature d)"

definition telemetry_ack_size :: "u16 \<Rightarrow> nat" where
  "telemetry_ack_size ext = unat (ext AND 0x3ff)"

definition telemetry_ack_deserialize :: "u16 \<Rightarrow> bytes \<Rightarrow> telemetry_data option option" where
  "telemetry_ack_deserialize ext bs =
    (if telemetry_ack_size ext = 0 then Some None
     else map_option (\<lambda>(d, _). Some d) (telemetry_deserialize (telemetry_ack_size ext) bs))"

section \<open>Messages\<close>

datatype message =
    Keepalive keepalive
  | Publish publish
  | AscPullAck asc_pull_ack
  | AscPullReq asc_pull_req
  | BulkPull bulk_pull
  | BulkPullAccount bulk_pull_account
  | BulkPush
  | ConfirmAck confirm_ack
  | ConfirmReq confirm_req
  | FrontierReq frontier_req
  | NodeIdHandshake node_id_handshake
  | TelemetryAck "telemetry_data option"
  | TelemetryReq

fun message_type_of :: "message \<Rightarrow> message_type" where
  "message_type_of (Keepalive _) = MT_Keepalive"
| "message_type_of (Publish _) = MT_Publish"
| "message_type_of (AscPullAck _) = MT_AscPullAck"
| "message_type_of (AscPullReq _) = MT_AscPullReq"
| "message_type_of (BulkPull _) = MT_BulkPull"
| "message_type_of (BulkPullAccount _) = MT_BulkPullAccount"
| "message_type_of BulkPush = MT_BulkPush"
| "message_type_of (ConfirmAck _) = MT_ConfirmAck"
| "message_type_of (ConfirmReq _) = MT_ConfirmReq"
| "message_type_of (FrontierReq _) = MT_FrontierReq"
| "message_type_of (NodeIdHandshake _) = MT_NodeIdHandshake"
| "message_type_of (TelemetryAck _) = MT_TelemetryAck"
| "message_type_of TelemetryReq = MT_TelemetryReq"

fun message_serialize :: "message \<Rightarrow> bytes" where
  "message_serialize (Keepalive k) = keepalive_serialize k"
| "message_serialize (Publish p) = serialize_without_block_type (pb_block p)"
| "message_serialize (AscPullAck a) = asc_pull_ack_serialize a"
| "message_serialize (AscPullReq r) = asc_pull_req_serialize r"
| "message_serialize (BulkPull r) = bp_serialize r"
| "message_serialize (BulkPullAccount r) = ba_serialize r"
| "message_serialize BulkPush = []"
| "message_serialize (ConfirmAck a) = vote_serialize (ca_vote a)"
| "message_serialize (ConfirmReq r) = cq_serialize r"
| "message_serialize (FrontierReq r) = fr_serialize r"
| "message_serialize (NodeIdHandshake h) = handshake_serialize h"
| "message_serialize (TelemetryAck d) =
    (case d of Some d \<Rightarrow> be_bytes 64 (td_signature d) @ serialize_without_signature d | None \<Rightarrow> [])"
| "message_serialize TelemetryReq = []"

text \<open>The subtraction is in \<open>u16\<close>.\<close>

fun header_extensions :: "message \<Rightarrow> u16 \<Rightarrow> u16" where
  "header_extensions (Publish p) _ = publish_extensions p"
| "header_extensions (AscPullAck _) payload_len = payload_len - 1 - 8"
| "header_extensions (AscPullReq _) payload_len = payload_len - 1 - 8"
| "header_extensions (BulkPull r) _ = set_extension 1 (bp_ascending r) (set_extension 0 (0 < bp_count r) 0)"
| "header_extensions (ConfirmAck a) _ = ca_extensions a"
| "header_extensions (ConfirmReq r) _ = cq_extensions r"
| "header_extensions (FrontierReq r) _ = set_extension 1 (fr_only_confirmed r) 0"
| "header_extensions (NodeIdHandshake h) _ = handshake_extensions h"
| "header_extensions (TelemetryAck d) _ =
    (case d of Some d \<Rightarrow> of_nat telemetry_known_size + of_nat (length (td_unknown_data d)) | None \<Rightarrow> 0)"
| "header_extensions _ _ = 0"

text \<open>The outer \<open>None\<close> is a panic, the inner one a rejected payload.\<close>

definition message_deserialize :: "bytes \<Rightarrow> message_header \<Rightarrow> u128 \<Rightarrow> message option option" where
  "message_deserialize bs h digest =
    (let ext = mh_extensions h in
     case mh_message_type h of
       MT_Keepalive \<Rightarrow> Some (map_option (\<lambda>(k, _). Keepalive k) (keepalive_deserialize bs))
     | MT_Publish \<Rightarrow> Some (map_option (\<lambda>(p, _). Publish p) (publish_deserialize ext digest bs))
     | MT_AscPullAck \<Rightarrow> Some (map_option AscPullAck (asc_pull_ack_deserialize bs))
     | MT_AscPullReq \<Rightarrow> Some (map_option (\<lambda>(r, _). AscPullReq r) (asc_pull_req_deserialize bs))
     | MT_BulkPull \<Rightarrow> Some (map_option (\<lambda>(r, _). BulkPull r) (bp_deserialize ext bs))
     | MT_BulkPullAccount \<Rightarrow> Some (map_option (\<lambda>(r, _). BulkPullAccount r) (ba_deserialize bs))
     | MT_BulkPush \<Rightarrow> Some (Some BulkPush)
     | MT_ConfirmAck \<Rightarrow> map_option (map_option ConfirmAck) (ca_deserialize ext digest bs)
     | MT_ConfirmReq \<Rightarrow> map_option (map_option ConfirmReq) (cq_deserialize ext bs)
     | MT_FrontierReq \<Rightarrow> Some (map_option (\<lambda>(r, _). FrontierReq r) (fr_deserialize ext bs))
     | MT_NodeIdHandshake \<Rightarrow> Some (map_option (\<lambda>(x, _). NodeIdHandshake x) (handshake_deserialize ext bs))
     | MT_TelemetryAck \<Rightarrow> Some (map_option TelemetryAck (telemetry_ack_deserialize ext bs))
     | MT_TelemetryReq \<Rightarrow> Some (Some TelemetryReq)
     | MT_Invalid \<Rightarrow> Some None
     | MT_NotAType \<Rightarrow> Some None)"

end
