(* ===== verification/Message_Stream.thy ===== *)
theory Message_Stream
  imports Wire_Messages
begin

text \<open>
  Framing of messages on a connection (\<open>messages/src\<close>): the length that a header announces, the
  validation of headers, the serializer, the filter of duplicate messages and the incremental
  deserializer. A panic is \<open>None\<close>; the hash function of the filter is a parameter.
\<close>

section \<open>Announced length\<close>

fun payload_length :: "message_header \<Rightarrow> nat" where
  "payload_length h =
    (let ext = mh_extensions h in
     case mh_message_type h of
       MT_Keepalive \<Rightarrow> 8 * (16 + 2)
     | MT_Publish \<Rightarrow> serialized_block_size (publish_block_type ext)
     | MT_ConfirmReq \<Rightarrow> cq_serialized_size ext
     | MT_ConfirmAck \<Rightarrow> vote_serialized_size (unat (cq_count ext))
     | MT_BulkPull \<Rightarrow> 32 + 32 + (if bit ext 0 then 8 else 0)
     | MT_BulkPush \<Rightarrow> 0
     | MT_TelemetryReq \<Rightarrow> 0
     | MT_FrontierReq \<Rightarrow> 32 + 4 + 4
     | MT_NodeIdHandshake \<Rightarrow>
         (if bit ext 0 then 32 else 0) + (if bit ext 1 then (if bit ext 2 then 32 + 32 + 32 + 64 else 32 + 64) else 0)
     | MT_BulkPullAccount \<Rightarrow> 32 + 16 + 1
     | MT_TelemetryAck \<Rightarrow> telemetry_ack_size ext
     | MT_AscPullReq \<Rightarrow> 1 + 8 + unat ext
     | MT_AscPullAck \<Rightarrow> 1 + 8 + unat ext
     | MT_Invalid \<Rightarrow> 0
     | MT_NotAType \<Rightarrow> 0)"

declare payload_length.simps [simp del]

datatype parse_message_error =
    ParseOther string | InvalidHeader | InvalidMessageType | InvalidMessage message_type | InvalidNetworkError
  | OutdatedVersion | DuplicatePublishMessage | DuplicateConfirmAckMessage | MessageSizeTooBig | ParseStopped

definition max_message_size :: nat where
  "max_message_size = 1024 * 65"

definition is_valid_message_type :: "message_header \<Rightarrow> bool" where
  "is_valid_message_type h \<longleftrightarrow> mh_message_type h \<notin> {MT_Invalid, MT_NotAType}"

definition validate_header :: "message_header \<Rightarrow> protocol_info \<Rightarrow> parse_message_error + unit" where
  "validate_header h expected =
    (if pi_network (mh_protocol h) \<noteq> pi_network expected then Inl InvalidNetworkError
     else if version_using (mh_protocol h) < version_min expected then Inl OutdatedVersion
     else if \<not> is_valid_message_type h then Inl InvalidHeader
     else if payload_length h > max_message_size then Inl MessageSizeTooBig
     else Inr ())"

section \<open>Serializer\<close>

text \<open>Writing past the end of the buffer panics.\<close>

definition message_wire :: "protocol_info \<Rightarrow> message \<Rightarrow> bytes option" where
  "message_wire p m =
    (let payload = message_serialize m in
     if length payload > max_message_size then None
     else Some (header_serialize \<lparr> mh_message_type = message_type_of m, mh_protocol = p,
         mh_extensions = header_extensions m (of_nat (length payload)) \<rparr> @ payload))"

section \<open>Duplicate filter\<close>

record filter_entry =
  fe_digest :: u128
  fe_epoch :: u64

record network_filter =
  nf_items :: "filter_entry list"
  nf_age_cutoff :: u64
  nf_current_epoch :: u64

definition default_filter_entry :: filter_entry where
  "default_filter_entry = \<lparr> fe_digest = 0, fe_epoch = 0 \<rparr>"

definition new_network_filter :: "nat \<Rightarrow> network_filter" where
  "new_network_filter n = \<lparr> nf_items = replicate n default_filter_entry, nf_age_cutoff = 0, nf_current_epoch = 0 \<rparr>"

definition nf_update :: "u64 \<Rightarrow> network_filter \<Rightarrow> network_filter" where
  "nf_update inc f = f\<lparr> nf_current_epoch := nf_current_epoch f + inc \<rparr>"

definition nf_compare :: "network_filter \<Rightarrow> filter_entry \<Rightarrow> u128 \<Rightarrow> bool" where
  "nf_compare f e digest \<longleftrightarrow> fe_digest e = digest \<and> nf_current_epoch f \<le> fe_epoch e + nf_age_cutoff f"

text \<open>The remainder by an empty table panics.\<close>

definition nf_index :: "network_filter \<Rightarrow> u128 \<Rightarrow> nat option" where
  "nf_index f digest = (if nf_items f = [] then None else Some (unat digest mod length (nf_items f)))"

definition nf_apply_digest :: "u128 \<Rightarrow> network_filter \<Rightarrow> (network_filter \<times> bool) option" where
  "nf_apply_digest digest f = do {
    i \<leftarrow> nf_index f digest;
    let existed = nf_compare f (nf_items f ! i) digest;
    Some (if existed then f
          else f\<lparr> nf_items := (nf_items f)[i := \<lparr> fe_digest = digest, fe_epoch = nf_current_epoch f \<rparr>] \<rparr>, existed) }"

definition nf_check :: "u128 \<Rightarrow> network_filter \<Rightarrow> bool option" where
  "nf_check digest f = do { i \<leftarrow> nf_index f digest; Some (nf_compare f (nf_items f ! i) digest) }"

definition nf_clear :: "u128 \<Rightarrow> network_filter \<Rightarrow> network_filter option" where
  "nf_clear digest f = do {
    i \<leftarrow> nf_index f digest;
    Some (if nf_compare f (nf_items f ! i) digest then f\<lparr> nf_items := (nf_items f)[i := default_filter_entry] \<rparr> else f) }"

section \<open>Incremental deserializer\<close>

record message_deserializer =
  md_buffer :: bytes
  md_current_header :: "message_header option"
  md_network_filter :: "network_filter option"
  md_protocol :: protocol_info

definition new_message_deserializer :: "protocol_info \<Rightarrow> network_filter option \<Rightarrow> message_deserializer" where
  "new_message_deserializer p f =
    \<lparr> md_buffer = [], md_current_header = None, md_network_filter = f, md_protocol = p \<rparr>"

definition md_push :: "bytes \<Rightarrow> message_deserializer \<Rightarrow> message_deserializer" where
  "md_push bs d = d\<lparr> md_buffer := md_buffer d @ bs \<rparr>"

type_synonym parse_result = "parse_message_error + message \<times> protocol_info"

definition filter_duplicate_messages ::
  "(bytes \<Rightarrow> u128) \<Rightarrow> message_type \<Rightarrow> bytes \<Rightarrow> message_deserializer \<Rightarrow>
    (message_deserializer \<times> (parse_message_error + u128)) option" where
  "filter_duplicate_messages siphash mt payload d =
    (if mt = MT_Publish \<or> mt = MT_ConfirmAck then
      (case md_network_filter d of
        Some f \<Rightarrow> do {
          (f, existed) \<leftarrow> nf_apply_digest (siphash payload) f;
          Some (d\<lparr> md_network_filter := Some f \<rparr>,
            if existed then Inl (if mt = MT_ConfirmAck then DuplicateConfirmAckMessage else DuplicatePublishMessage)
            else Inr (siphash payload)) }
      | None \<Rightarrow> Some (d, Inr 0))
     else Some (d, Inr 0))"

definition deserialize_payload_for ::
  "(bytes \<Rightarrow> u128) \<Rightarrow> message_header \<Rightarrow> message_deserializer \<Rightarrow> (message_deserializer \<times> parse_result) option" where
  "deserialize_payload_for siphash h d =
    (let n = payload_length h in
     if n > length (md_buffer d) then None
     else do {
       let payload = take n (md_buffer d);
       (d, digest) \<leftarrow> filter_duplicate_messages siphash (mh_message_type h) payload (d\<lparr> md_buffer := drop n (md_buffer d) \<rparr>);
       (case digest of
         Inl err \<Rightarrow> Some (d, Inl err)
       | Inr digest \<Rightarrow> do {
           m \<leftarrow> message_deserialize payload h digest;
           Some (d, case m of None \<Rightarrow> Inl (InvalidMessage (mh_message_type h)) | Some m \<Rightarrow> Inr (m, mh_protocol h)) }) })"

definition try_deserialize_payload_for ::
  "(bytes \<Rightarrow> u128) \<Rightarrow> message_header \<Rightarrow> message_deserializer \<Rightarrow> (message_deserializer \<times> parse_result option) option" where
  "try_deserialize_payload_for siphash h d =
    (if payload_length h > 0 \<and> length (md_buffer d) < payload_length h then Some (d, None)
     else do {
       (d, r) \<leftarrow> deserialize_payload_for siphash h (d\<lparr> md_current_header := None \<rparr>);
       Some (d, Some r) })"

definition deserialize_header_and_payload ::
  "(bytes \<Rightarrow> u128) \<Rightarrow> message_deserializer \<Rightarrow> (message_deserializer \<times> parse_result option) option" where
  "deserialize_header_and_payload siphash d =
    (if length (md_buffer d) < header_size then Some (d, None)
     else
       (let header_bytes = take header_size (md_buffer d); d = d\<lparr> md_buffer := drop header_size (md_buffer d) \<rparr> in
        case header_deserialize header_bytes of
          None \<Rightarrow> Some (d, Some (Inl InvalidHeader))
        | Some (h, _) \<Rightarrow>
            (case validate_header h (md_protocol d) of
              Inl err \<Rightarrow> Some (d, Some (Inl err))
            | Inr _ \<Rightarrow> try_deserialize_payload_for siphash h (d\<lparr> md_current_header := Some h \<rparr>))))"

definition try_deserialize ::
  "(bytes \<Rightarrow> u128) \<Rightarrow> message_deserializer \<Rightarrow> (message_deserializer \<times> parse_result option) option" where
  "try_deserialize siphash d =
    (case md_current_header d of
      Some h \<Rightarrow> try_deserialize_payload_for siphash h d
    | None \<Rightarrow> deserialize_header_and_payload siphash d)"

end
