(* ===== verification/Message_Correct.thy ===== *)
theory Message_Correct
  imports Message_Stream
begin

text \<open>
  Correctness of the peer protocol: a message is read back as it was written, the announced length is
  the length of the payload, and the deserializer never panics, however the bytes arrive.
\<close>

section \<open>Extensions\<close>

lemma ext_masks: "(0xf000 :: u16) = push_bit 12 (mask 4)" "(0x00f0 :: u16) = push_bit 4 (mask 4)"
  "(0x0f00 :: u16) = push_bit 8 (mask 4)" "(0xf :: u8) = mask 4"
  by (simp_all add: mask_eq_exp_minus_1)

lemma flag_bit: "ext AND 1 = 1 \<longleftrightarrow> bit (ext :: u16) 0"
  by (simp add: bit_0 and_one_eq odd_iff_mod_2_eq_one)

lemma cq_count_split:
  "cq_count ext = (if bit ext 0 then ucast (push_bit 4 (take_bit 4 (drop_bit 12 ext)) OR take_bit 4 (drop_bit 4 ext))
    else ucast (take_bit 4 (drop_bit 12 ext)))"
proof -
  have "drop_bit 12 (ext AND 0xf000) = take_bit 4 (drop_bit 12 ext)"
    "drop_bit 4 (ext AND 0x00f0) = take_bit 4 (drop_bit 4 ext)"
    unfolding ext_masks by (intro bit_word_eqI; auto simp: bit_simps)+
  then show ?thesis by (simp add: cq_count_def flag_bit Let_def)
qed

lemma cq_count_cong:
  assumes same: "\<And>i. i = 0 \<or> 4 \<le> i \<and> i < 8 \<or> 12 \<le> i \<Longrightarrow> bit ext i = bit ext' i"
  shows "cq_count ext = cq_count ext'"
proof -
  have "bit ext (12 + n) = bit ext' (12 + n)" "n < 4 \<Longrightarrow> bit ext (4 + n) = bit ext' (4 + n)" for n
    using same by simp_all
  then have "take_bit 4 (drop_bit 12 ext) = take_bit 4 (drop_bit 12 ext')"
    "take_bit 4 (drop_bit 4 ext) = take_bit 4 (drop_bit 4 ext')"
    by (intro bit_word_eqI; auto simp: bit_simps)+
  then show ?thesis using same [of 0] by (simp add: cq_count_split)
qed

lemma cq_count_bits_roundtrip: "cq_count (cq_count_bits c) = c"
proof (cases "c < 16")
  case True
  then have "take_bit 4 c = c" using less_mask_eq [of c 4] by (simp add: take_bit_eq_mask)
  then have "bit c n \<Longrightarrow> n < 4" for n by (metis bit_take_bit_iff)
  then show ?thesis using True unfolding cq_count_split cq_count_bits_def
    by (intro bit_word_eqI) (auto simp: bit_simps)
next
  case False
  then have bits: "cq_count_bits c = 1 OR push_bit 12 (ucast (drop_bit 4 c AND mask 4)) OR push_bit 4 (ucast (c AND mask 4))"
    unfolding cq_count_bits_def ext_masks by (simp add: Let_def)
  have small: "bit c (4 + n) \<Longrightarrow> n < 4" for n using bit_imp_le_length [of c "4 + n"] by simp
  have "take_bit 4 (drop_bit 12 (cq_count_bits c)) = ucast (drop_bit 4 c)"
    "take_bit 4 (drop_bit 4 (cq_count_bits c)) = ucast (take_bit 4 c)"
    unfolding bits by (intro bit_word_eqI; auto simp: bit_simps dest: small)+
  moreover have "bit (cq_count_bits c) 0" unfolding bits by (simp add: bit_simps)
  ultimately show ?thesis unfolding cq_count_split
    by (intro bit_word_eqI) (auto simp: bit_simps)
qed

lemma publish_block_type_roundtrip:
  "publish_block_type (publish_extensions p) = block_type_of (pb_block p)"
  "0 < publish_extensions p AND 4 \<longleftrightarrow> pb_is_originator p"
proof -
  let ?t = "block_type_of (pb_block p)"
  have "publish_block_type (publish_extensions p) = ?t \<and> (0 < publish_extensions p AND 4 \<longleftrightarrow> pb_is_originator p)"
    unfolding publish_block_type_def publish_extensions_def Let_def
    by (cases ?t; cases "pb_is_originator p") (simp_all add: block_type_from_u8_def)
  then show "publish_block_type (publish_extensions p) = ?t" "0 < publish_extensions p AND 4 \<longleftrightarrow> pb_is_originator p"
    by simp_all
qed

section \<open>Lists\<close>

lemma read_whole [codec_simps]:
  fixes x :: "'a::len word"
  shows "LENGTH('a) \<le> 8 * n \<Longrightarrow> read_be n (be_bytes n x) = Some (x, [])"
    "LENGTH('a) \<le> 8 * n \<Longrightarrow> read_le n (le_bytes n x) = Some (x, [])"
  using read_be_be_bytes [of n x "[]"] read_le_le_bytes [of n x "[]"] by simp_all

lemma read_peers_written:
  "\<forall>p \<in> set ps. sa_flowinfo p = 0 \<and> sa_scope_id p = 0 \<Longrightarrow>
    read_peers (length ps) (concat (map (\<lambda>p. be_bytes 16 (sa_ip p) @ le_bytes 2 (sa_port p)) ps)) = Some (ps, [])"
  by (induction ps) (simp_all add: codec_simps)

lemma read_roots_written:
  "(0, 0) \<notin> set rh \<Longrightarrow>
    read_roots (length rh) (concat (map (\<lambda>(hash, root). be_bytes 32 hash @ be_bytes 32 root) rh)) = Some (rh, [])"
  by (induction rh) (auto simp: codec_simps split: if_splits)

lemma read_roots_count: "read_roots n bs = Some (rh, rest) \<Longrightarrow> length rh \<le> n"
  by (induction n arbitrary: bs rh rest) (fastforce simp: bind_eq_Some_conv split: if_splits)+

lemma read_ack_blocks_written:
  "length blocks \<le> n \<Longrightarrow>
    read_ack_blocks n (concat (map serialize_block blocks) @ [block_type_as_u8 BT_NotABlock]) = Some blocks"
proof (induction blocks arbitrary: n)
  case Nil
  then show ?case
    by (subst read_ack_blocks.simps) (simp add: deserialize_block_def block_type_from_u8_def)
next
  case (Cons b blocks)
  then obtain m where "n = Suc m" by (cases n) simp_all
  with Cons show ?case by (subst read_ack_blocks.simps) (simp add: block_codec.dec_enc)
qed

lemma read_frontiers_written:
  "length fs \<le> n \<Longrightarrow> (0, 0) \<notin> set fs \<Longrightarrow>
    read_frontiers n (concat (map frontier_serialize fs) @ frontier_serialize (0, 0)) = Some fs"
proof (induction fs arbitrary: n)
  case Nil
  then show ?case by (subst read_frontiers.simps) (simp add: frontier_serialize_def codec_simps)
next
  case (Cons f fs)
  obtain acc hash where f: "f = (acc, hash)" by (cases f)
  from Cons obtain m where "n = Suc m" by (cases n) simp_all
  with Cons f show ?case by (subst read_frontiers.simps) (auto simp: frontier_serialize_def codec_simps)
qed

section \<open>Well-formed messages\<close>

text \<open>
  What the types and the constructors of the code ensure, and what the format can express: times in milliseconds,
  socket addresses without flow and scope, no entry that the format uses as a terminator.
\<close>

fun message_ok :: "message \<Rightarrow> bool" where
  "message_ok (Keepalive k) \<longleftrightarrow> length (ka_peers k) = 8 \<and> (\<forall>p \<in> set (ka_peers k). sa_flowinfo p = 0 \<and> sa_scope_id p = 0)"
| "message_ok (AscPullAck a) \<longleftrightarrow>
    (case ak_pull_type a of
      BlocksAck blocks \<Rightarrow> length blocks \<le> max_ack_blocks
    | AccountInfoAck _ \<Rightarrow> True
    | FrontiersAck fs \<Rightarrow> length fs \<le> max_frontiers \<and> (0, 0) \<notin> set fs)"
| "message_ok (ConfirmAck a) \<longleftrightarrow> length (vo_hashes (ca_vote a)) \<le> 255"
| "message_ok (ConfirmReq r) \<longleftrightarrow> roots_hashes r \<noteq> [] \<and> length (roots_hashes r) \<le> 255 \<and> (0, 0) \<notin> set (roots_hashes r)"
| "message_ok (NodeIdHandshake h) \<longleftrightarrow> (case hs_response h of Some r \<Rightarrow> hs_is_v2 h = (hr_v2 r \<noteq> None) | None \<Rightarrow> True)"
| "message_ok (TelemetryAck d) \<longleftrightarrow>
    (case d of
      Some d \<Rightarrow> length (td_unknown_data d) \<le> 1023 - telemetry_known_size \<and>
        (\<exists>ms < 2 ^ 64. td_timestamp d = ms * 1000000)
    | None \<Rightarrow> True)"
| "message_ok _ \<longleftrightarrow> True"

text \<open>The receiver sets the digest of the filter.\<close>

fun with_digest :: "u128 \<Rightarrow> message \<Rightarrow> message" where
  "with_digest digest (Publish p) = Publish (p\<lparr> pb_digest := digest \<rparr>)"
| "with_digest digest (ConfirmAck a) = ConfirmAck (a\<lparr> ca_digest := digest \<rparr>)"
| "with_digest digest m = m"

abbreviation header_of :: "protocol_info \<Rightarrow> message \<Rightarrow> message_header" where
  "header_of p m \<equiv> \<lparr> mh_message_type = message_type_of m, mh_protocol = p,
    mh_extensions = header_extensions m (of_nat (length (message_serialize m))) \<rparr>"

definition reads_back :: "protocol_info \<Rightarrow> u128 \<Rightarrow> message \<Rightarrow> bool" where
  "reads_back p digest m \<longleftrightarrow>
    message_deserialize (message_serialize m) (header_of p m) digest = Some (Some (with_digest digest m)) \<and>
    payload_length (header_of p m) = length (message_serialize m) \<and> length (message_serialize m) \<le> max_message_size"

lemma keepalive_reads_back: "message_ok (Keepalive k) \<Longrightarrow> reads_back p digest (Keepalive k)"
  using read_peers_written [of "ka_peers k"]
  by (simp add: reads_back_def message_deserialize_def payload_length.simps keepalive_serialize_def keepalive_deserialize_def
      length_concat comp_def sum_list_triv max_message_size_def)

lemma publish_reads_back: "reads_back p digest (Publish b)"
proof -
  have "serialized_block_size t \<le> max_message_size" for t by (cases t) (simp_all add: max_message_size_def)
  then show ?thesis
    using deserialize_without_block_type [of "pb_block b" "[]"]
    by (cases b) (simp add: reads_back_def message_deserialize_def payload_length.simps publish_deserialize_def
        publish_block_type_roundtrip)
qed

lemma asc_pull_req_reads_back: "reads_back p digest (AscPullReq r)"
proof -
  have hash_type: "from_code hash_type_codes (as_code hash_type_codes t) = Some t" for t
    by (cases t) (simp_all add: from_code_def as_code_def hash_type_codes_def)
  show ?thesis
    by (cases r; cases "aq_req_type r")
      (simp_all add: reads_back_def message_deserialize_def payload_length.simps asc_pull_req_serialize_def
        asc_pull_req_deserialize_def hash_type codec_simps max_message_size_def)
qed

lemma frontier_req_reads_back: "reads_back p digest (FrontierReq r)"
  by (cases r) (simp add: reads_back_def message_deserialize_def payload_length.simps fr_serialize_def fr_deserialize_def
      codec_simps max_message_size_def)

lemma bulk_pull_account_reads_back: "reads_back p digest (BulkPullAccount r)"
proof -
  have "from_code bulk_pull_account_flag_codes (as_code bulk_pull_account_flag_codes t) = Some t" for t
    by (cases t) (simp_all add: from_code_def as_code_def bulk_pull_account_flag_codes_def)
  then show ?thesis
    by (cases r) (simp add: reads_back_def message_deserialize_def payload_length.simps ba_serialize_def ba_deserialize_def
        codec_simps max_message_size_def)
qed

lemma bulk_pull_reads_back: "reads_back p digest (BulkPull r)"
proof (cases "0 < bp_count r")
  case True
  have "of_le_bytes (take 4 (le_bytes 4 (bp_count r) @ [0, 0, 0])) = bp_count r" by (simp add: codec_simps)
  then show ?thesis using True
    by (cases r) (simp add: reads_back_def message_deserialize_def payload_length.simps bp_serialize_def bp_deserialize_def
        codec_simps max_message_size_def read_bytes_def)
next
  case False
  then have "bp_count r = 0" by (simp add: word_gt_0)
  then show ?thesis
    by (cases r) (simp add: reads_back_def message_deserialize_def payload_length.simps bp_serialize_def bp_deserialize_def
        codec_simps max_message_size_def)
qed

lemma confirm_req_reads_back:
  assumes "message_ok (ConfirmReq r)"
  shows "reads_back p digest (ConfirmReq r)"
proof -
  let ?n = "length (roots_hashes r)" and ?ext = "cq_extensions r"
  have n: "?n \<le> 255" using assms by simp
  have ext: "?ext = cq_count_bits (of_nat ?n) OR push_bit 8 1" by (simp add: cq_extensions_def)
  have b: "bit (256 :: int) i \<longleftrightarrow> i = 8" for i using bit_exp_iff [of 8 i, where 'a = int] by simp
  have "cq_count ?ext = cq_count (cq_count_bits (of_nat ?n))"
    by (rule cq_count_cong) (auto simp: ext bit_simps b)
  then have count: "unat (cq_count ?ext) = ?n"
    using n by (simp add: cq_count_bits_roundtrip unat_of_nat)
  have "drop_bit 8 (?ext AND 0x0f00) = 1"
    unfolding ext ext_masks cq_count_bits_def Let_def
    by (rule bit_word_eqI) (auto simp: bit_simps b)
  then have t: "cq_block_type ?ext = BT_NotABlock" by (simp add: cq_block_type_def block_type_from_u8_def)
  have "length (cq_serialize r) = ?n * 64"
    by (simp add: cq_serialize_def length_concat comp_def case_prod_beta sum_list_triv)
  moreover have "cq_deserialize ?ext (cq_serialize r) = Some (Some r)"
    using assms read_roots_written [of "roots_hashes r"] n
    by (simp add: cq_deserialize_def Let_def count cq_serialize_def new_confirm_req_def)
  ultimately show ?thesis
    using n by (simp add: reads_back_def message_deserialize_def payload_length.simps cq_serialized_size_def t count
        max_message_size_def)
qed

lemma confirm_ack_reads_back:
  assumes "message_ok (ConfirmAck a)"
  shows "reads_back p digest (ConfirmAck a)"
proof -
  let ?n = "length (vo_hashes (ca_vote a))" and ?ext = "ca_extensions a"
  have n: "?n \<le> 255" using assms by simp
  have "cq_count ?ext = cq_count (cq_count_bits (of_nat ?n))"
    by (rule cq_count_cong) (auto simp: ca_extensions_def)
  then have count: "unat (cq_count ?ext) = ?n"
    using n by (simp add: cq_count_bits_roundtrip unat_of_nat)
  have "bit ?ext 2 = ca_is_rebroadcasted a" by (simp add: ca_extensions_def)
  then have "ca_deserialize ?ext digest (vote_serialize (ca_vote a)) = Some (Some (a\<lparr> ca_digest := digest \<rparr>))"
    using n vote_roundtrip [of "ca_vote a"] by (simp add: ca_deserialize_def new_confirm_ack_def max_hashes_def)
  then show ?thesis
    using n by (simp add: reads_back_def message_deserialize_def payload_length.simps count vote_serialized_length
        vote_serialized_size_def max_message_size_def)
qed

lemma handshake_extension_bits [simp]:
  "bit (handshake_extensions h) 0 = (hs_query h \<noteq> None)" "bit (handshake_extensions h) (Suc 0) = (hs_response h \<noteq> None)"
  "bit (handshake_extensions h) 2 = hs_is_v2 h"
  by (simp_all add: handshake_extensions_def)

lemma handshake_reads_back:
  assumes "message_ok (NodeIdHandshake h)"
  shows "reads_back p digest (NodeIdHandshake h)"
proof -
  let ?ext = "handshake_extensions h"
  have r: "response_deserialize ?ext (response_serialize r) = Some (r, [])" if "hs_response h = Some r" for r
    using that assms by (cases r) (auto simp: response_deserialize_def response_serialize_def codec_simps split: option.splits)
  have len: "length (response_serialize r) = (if bit ?ext 2 then 160 else 96)" if "hs_response h = Some r" for r
    using that assms by (auto simp: response_serialize_def split: option.splits)
  have "handshake_deserialize ?ext (handshake_serialize h) = Some (h, [])"
    using r by (cases h) (auto simp: handshake_deserialize_def handshake_serialize_def codec_simps split: option.splits)
  then show ?thesis
    using len by (auto simp: reads_back_def message_deserialize_def payload_length.simps handshake_serialize_def Let_def
        max_message_size_def split: option.splits)
qed

lemma length_serialize_block: "length (serialize_block b) \<le> 217"
  by (cases b) (simp_all add: serialize_block_def)

lemma asc_pull_ack_reads_back:
  assumes ok: "message_ok (AscPullAck a)"
  shows "reads_back p digest (AscPullAck a)"
proof -
  let ?len = "length (serialize_pull_type (ak_pull_type a))"
  have len: "?len < 65000"
  proof (cases "ak_pull_type a")
    case (BlocksAck blocks)
    have "length (concat (map serialize_block blocks)) \<le> 217 * length blocks"
      unfolding length_concat map_map comp_def
      using sum_list_mono [of blocks "\<lambda>b. length (serialize_block b)" "\<lambda>_. 217"] length_serialize_block
      by (simp add: sum_list_triv mult.commute)
    then show ?thesis using ok BlocksAck by (simp add: max_ack_blocks_def)
  next
    case (FrontiersAck fs)
    then show ?thesis using ok
      by (simp add: max_frontiers_def frontier_serialize_def length_concat comp_def case_prod_beta sum_list_triv)
  qed simp
  have "unat (of_nat (?len + 9) - 1 - 8 :: u16) = ?len"
    using len by (simp add: unat_of_nat)
  moreover have "length (asc_pull_ack_serialize a) = ?len + 9" by (simp add: asc_pull_ack_serialize_def)
  moreover have "asc_pull_ack_deserialize (asc_pull_ack_serialize a) = Some a"
    using ok read_ack_blocks_written read_frontiers_written
    by (cases a; cases "ak_pull_type a")
      (simp_all add: asc_pull_ack_serialize_def asc_pull_ack_deserialize_def account_info_ack_deserialize_def codec_simps)
  ultimately show ?thesis
    using len by (simp add: reads_back_def message_deserialize_def payload_length.simps max_message_size_def)
qed

lemma telemetry_reads_back:
  assumes ok: "message_ok (TelemetryAck (Some d))"
  shows "reads_back p digest (TelemetryAck (Some d))"
proof -
  let ?n = "length (td_unknown_data d)" and ?ext = "of_nat telemetry_known_size + of_nat (length (td_unknown_data d)) :: u16"
  obtain ms where ms: "td_timestamp d = ms * 1000000" "ms < 2 ^ 64" using ok by auto
  have n: "?n \<le> 821" using ok by (simp add: telemetry_known_size_def)
  have "?ext = of_nat (telemetry_known_size + ?n)" by simp
  then have "unat ?ext = telemetry_known_size + ?n" using n by (simp only: unat_of_nat) (simp add: telemetry_known_size_def)
  moreover have "?ext AND 0x3ff = take_bit 10 ?ext" by (simp add: take_bit_eq_mask mask_eq_exp_minus_1)
  ultimately have size: "telemetry_ack_size ?ext = telemetry_known_size + ?n"
    using n by (simp add: telemetry_ack_size_def unsigned_take_bit_eq take_bit_nat_def telemetry_known_size_def)
  have "telemetry_deserialize (telemetry_known_size + ?n)
      (be_bytes 64 (td_signature d) @ serialize_without_signature d) = Some (d, [])"
    using ms by (cases d)
      (simp add: telemetry_deserialize_def serialize_without_signature_def codec_simps read_bytes_def unat_of_nat)
  then show ?thesis
    using n by (simp add: reads_back_def message_deserialize_def payload_length.simps telemetry_ack_deserialize_def size)
      (simp add: serialize_without_signature_def telemetry_known_size_def max_message_size_def)
qed

lemma empty_reads_back:
  "reads_back p digest BulkPush" "reads_back p digest TelemetryReq" "reads_back p digest (TelemetryAck None)"
  by (simp_all add: reads_back_def message_deserialize_def payload_length.simps telemetry_ack_deserialize_def
      telemetry_ack_size_def max_message_size_def)

lemma message_reads_back:
  assumes "message_ok m"
  shows "reads_back p digest m"
proof (cases m)
  case (TelemetryAck d)
  then show ?thesis using assms telemetry_reads_back empty_reads_back by (cases d) simp_all
qed (use assms in \<open>simp_all add: keepalive_reads_back publish_reads_back asc_pull_req_reads_back frontier_req_reads_back
    bulk_pull_account_reads_back bulk_pull_reads_back confirm_req_reads_back confirm_ack_reads_back
    handshake_reads_back asc_pull_ack_reads_back empty_reads_back del: message_ok.simps\<close>)

end
