(* ===== verification/Message_Receive.thy ===== *)
theory Message_Receive
  imports Message_Correct
begin

text \<open>
  Reading a connection: the deserializer returns on all bytes, what it reads does not depend on how
  the bytes are split into packets, and it reads exactly the messages that were written.
\<close>

section \<open>One message\<close>

definition filter_ok :: "message_deserializer \<Rightarrow> bool" where
  "filter_ok d \<longleftrightarrow> (\<forall>f. md_network_filter d = Some f \<longrightarrow> nf_items f \<noteq> [])"

definition md_pending :: "message_deserializer \<Rightarrow> nat" where
  "md_pending d = length (md_buffer d) + (if md_current_header d = None then 0 else 1)"

lemma message_deserialize_returns: "\<exists>m. message_deserialize bs h digest = Some m"
proof -
  have req: "\<exists>r. cq_deserialize ext bs = Some r" for ext
  proof (cases "read_roots (unat (cq_count ext)) bs")
    case (Some x)
    obtain rh rest where x: "x = (rh, rest)" by (cases x)
    have "length rh \<le> unat (cq_count ext)" using Some x read_roots_count by simp
    also have "unat (cq_count ext) \<le> 255" using unsigned_less [of "cq_count ext", where 'a = nat] by simp
    finally show ?thesis using Some x by (simp add: cq_deserialize_def new_confirm_req_def Let_def)
  qed (simp add: cq_deserialize_def)
  have ack: "\<exists>a. ca_deserialize ext digest bs = Some a" for ext
  proof (cases "vote_deserialize bs")
    case (Some x)
    then have "length (vo_hashes (fst x)) \<le> 255"
      using read_hashes_count by (fastforce simp: vote_deserialize_def bind_eq_Some_conv max_hashes_def)
    then show ?thesis using Some by (simp add: ca_deserialize_def new_confirm_ack_def case_prod_beta)
  qed (simp add: ca_deserialize_def)
  obtain a r where "ca_deserialize (mh_extensions h) digest bs = Some a" "cq_deserialize (mh_extensions h) bs = Some r"
    using req ack by blast
  then show ?thesis by (cases "mh_message_type h") (simp_all add: message_deserialize_def Let_def)
qed

lemma filter_duplicate_returns:
  assumes "filter_ok d"
  obtains d' r where "filter_duplicate_messages s mt payload d = Some (d', r)" "filter_ok d'"
    "md_buffer d' = md_buffer d" "md_current_header d' = md_current_header d" "md_protocol d' = md_protocol d"
proof (cases "md_network_filter d")
  case None
  then show thesis using assms by (intro that [of d "Inr 0"]) (simp_all add: filter_duplicate_messages_def)
next
  case (Some f)
  then have "nf_items f \<noteq> []" using assms by (simp add: filter_ok_def)
  then show thesis using Some assms that
    by (cases "mt = MT_Publish \<or> mt = MT_ConfirmAck")
      (auto simp: filter_duplicate_messages_def nf_apply_digest_def nf_index_def Let_def filter_ok_def)
qed

lemma payload_returns:
  assumes "filter_ok d" "payload_length h \<le> length (md_buffer d)"
  obtains d' r where "deserialize_payload_for s h d = Some (d', r)" "filter_ok d'"
    "md_buffer d' = drop (payload_length h) (md_buffer d)" "md_current_header d' = md_current_header d"
    "md_protocol d' = md_protocol d"
proof -
  let ?n = "payload_length h"
  have "filter_ok (d\<lparr> md_buffer := drop ?n (md_buffer d) \<rparr>)" using assms(1) by (simp add: filter_ok_def)
  then obtain d' r where d': "filter_duplicate_messages s (mh_message_type h) (take ?n (md_buffer d))
      (d\<lparr> md_buffer := drop ?n (md_buffer d) \<rparr>) = Some (d', r)" "filter_ok d'" "md_buffer d' = drop ?n (md_buffer d)"
    "md_current_header d' = md_current_header d" "md_protocol d' = md_protocol d"
    by (rule filter_duplicate_returns) simp_all
  show thesis
  proof (cases r)
    case (Inl err)
    then show thesis using d' assms(2) by (intro that [of d' "Inl err"]) (simp_all add: deserialize_payload_for_def)
  next
    case (Inr digest)
    obtain m where "message_deserialize (take ?n (md_buffer d)) h digest = Some m" using message_deserialize_returns by blast
    then show thesis using d' assms(2) Inr
      by (intro that [of d' "case m of None \<Rightarrow> Inl (InvalidMessage (mh_message_type h)) | Some m \<Rightarrow> Inr (m, mh_protocol h)"]) (simp_all add: deserialize_payload_for_def)
  qed
qed

lemma try_deserialize_returns:
  assumes "filter_ok d"
  obtains d' r where "try_deserialize s d = Some (d', r)" "filter_ok d'"
proof -
  have payload: "\<exists>d' r. try_deserialize_payload_for s h e = Some (d', r) \<and> filter_ok d'" if e: "filter_ok e" for h e
  proof (cases "length (md_buffer e) < payload_length h")
    case True
    then show ?thesis using e by (auto simp: try_deserialize_payload_for_def)
  next
    case False
    have ok: "filter_ok (e\<lparr> md_current_header := None \<rparr>)" "payload_length h \<le> length (md_buffer (e\<lparr> md_current_header := None \<rparr>))"
      using e False by (simp_all add: filter_ok_def)
    obtain d' r where "deserialize_payload_for s h (e\<lparr> md_current_header := None \<rparr>) = Some (d', r)" "filter_ok d'"
      by (rule payload_returns [OF ok])
    then show ?thesis using False by (simp add: try_deserialize_payload_for_def)
  qed
  have "\<exists>d' r. try_deserialize s d = Some (d', r) \<and> filter_ok d'"
  proof (cases "md_current_header d")
    case (Some h)
    then show ?thesis using payload [OF assms] by (simp add: try_deserialize_def)
  next
    case None
    have ok: "filter_ok (d\<lparr> md_buffer := bs, md_current_header := h \<rparr>)" "filter_ok (d\<lparr> md_buffer := bs \<rparr>)" for bs h
      using assms by (simp_all add: filter_ok_def)
    show ?thesis
      using None assms ok payload [OF ok(1)]
      by (auto simp: try_deserialize_def deserialize_header_and_payload_def Let_def split: option.splits sum.splits)
  qed
  then show thesis using that by blast
qed

section \<open>More bytes\<close>

text \<open>Bytes that arrive later do not change what is read from the bytes that are there.\<close>

lemma md_push_fields [simp]:
  "md_buffer (md_push bs d) = md_buffer d @ bs" "md_current_header (md_push bs d) = md_current_header d"
  "md_network_filter (md_push bs d) = md_network_filter d" "md_protocol (md_push bs d) = md_protocol d"
  by (simp_all add: md_push_def)

lemma md_push_commute:
  "(md_push bs d)\<lparr> md_current_header := h \<rparr> = md_push bs (d\<lparr> md_current_header := h \<rparr>)"
  "(md_push bs d)\<lparr> md_network_filter := f \<rparr> = md_push bs (d\<lparr> md_network_filter := f \<rparr>)"
  "(md_push bs d)\<lparr> md_buffer := buf @ bs \<rparr> = md_push bs (d\<lparr> md_buffer := buf \<rparr>)"
  by (simp_all add: md_push_def)

lemma filter_duplicate_push:
  "filter_duplicate_messages s mt payload (md_push bs d) =
    map_option (\<lambda>(d', r). (md_push bs d', r)) (filter_duplicate_messages s mt payload d)"
  by (auto simp: filter_duplicate_messages_def md_push_commute split: option.splits bind_splits)

lemma payload_push:
  assumes "deserialize_payload_for s h d = Some (d', r)"
  shows "deserialize_payload_for s h (md_push bs d) = Some (md_push bs d', r)"
    "payload_length h \<le> length (md_buffer d)" "md_buffer d' = drop (payload_length h) (md_buffer d)"
    "md_current_header d' = md_current_header d"
proof -
  let ?n = "payload_length h" and ?d = "d\<lparr> md_buffer := drop (payload_length h) (md_buffer d) \<rparr>"
  show n: "?n \<le> length (md_buffer d)" using assms by (auto simp: deserialize_payload_for_def Let_def split: if_splits)
  obtain e digest where e: "filter_duplicate_messages s (mh_message_type h) (take ?n (md_buffer d)) ?d = Some (e, digest)"
    using assms n by (cases "filter_duplicate_messages s (mh_message_type h) (take ?n (md_buffer d)) ?d")
      (auto simp: deserialize_payload_for_def)
  then have "md_buffer e = drop ?n (md_buffer d)" "md_current_header e = md_current_header d"
    by (auto simp: filter_duplicate_messages_def split: if_splits option.splits bind_splits)
  moreover have d': "d' = e" using assms n e by (auto simp: deserialize_payload_for_def split: sum.splits bind_splits)
  ultimately show "md_buffer d' = drop ?n (md_buffer d)" "md_current_header d' = md_current_header d" by simp_all
  have "filter_duplicate_messages s (mh_message_type h) (take ?n (md_buffer d)) (md_push bs ?d) = Some (md_push bs e, digest)"
    by (simp add: filter_duplicate_push e)
  then show "deserialize_payload_for s h (md_push bs d) = Some (md_push bs d', r)"
    using assms n e d' by (auto simp: deserialize_payload_for_def md_push_commute split: sum.splits bind_splits)
qed

lemma try_payload_push:
  assumes "try_deserialize_payload_for s h d = Some (d', r)"
  shows "r \<noteq> None \<Longrightarrow> try_deserialize_payload_for s h (md_push bs d) = Some (md_push bs d', r)"
    "r \<noteq> None \<Longrightarrow> md_current_header d' = None \<and> length (md_buffer d') \<le> length (md_buffer d)"
    "r = None \<Longrightarrow> d' = d"
proof -
  let ?d = "d\<lparr> md_current_header := None \<rparr>"
  show "r = None \<Longrightarrow> d' = d" using assms by (auto simp: try_deserialize_payload_for_def split: if_splits bind_splits)
  assume "r \<noteq> None"
  then obtain x where r: "r = Some x" by blast
  then have p: "deserialize_payload_for s h ?d = Some (d', x)"
    and n: "\<not> (0 < payload_length h \<and> length (md_buffer d) < payload_length h)"
    using assms by (auto simp: try_deserialize_payload_for_def split: if_splits bind_splits)
  show "md_current_header d' = None \<and> length (md_buffer d') \<le> length (md_buffer d)"
    using payload_push(3,4) [OF p] by simp
  show "try_deserialize_payload_for s h (md_push bs d) = Some (md_push bs d', r)"
    using payload_push(1) [OF p, of bs] payload_push(2) [OF p] r n by (simp add: try_deserialize_payload_for_def md_push_commute)
qed

lemma header_push:
  assumes "\<not> length (md_buffer d) < header_size"
  defines "e \<equiv> d\<lparr> md_buffer := drop header_size (md_buffer d) \<rparr>"
  shows "deserialize_header_and_payload s (md_push bs d) =
    (case header_deserialize (take header_size (md_buffer d)) of
      None \<Rightarrow> Some (md_push bs e, Some (Inl InvalidHeader))
    | Some (h, _) \<Rightarrow>
        (case validate_header h (md_protocol d) of
          Inl err \<Rightarrow> Some (md_push bs e, Some (Inl err))
        | Inr _ \<Rightarrow> try_deserialize_payload_for s h (md_push bs (e\<lparr> md_current_header := Some h \<rparr>))))"
  using assms by (simp add: deserialize_header_and_payload_def md_push_commute Let_def split: option.split sum.split)

lemma try_push:
  assumes "try_deserialize s d = Some (d', r)"
  shows "r \<noteq> None \<Longrightarrow> try_deserialize s (md_push bs d) = Some (md_push bs d', r) \<and> md_pending d' < md_pending d"
    "r = None \<Longrightarrow> try_deserialize s (md_push bs d) = try_deserialize s (md_push bs d')"
proof -
  have "(r \<noteq> None \<longrightarrow> try_deserialize s (md_push bs d) = Some (md_push bs d', r) \<and> md_pending d' < md_pending d) \<and>
    (r = None \<longrightarrow> try_deserialize s (md_push bs d) = try_deserialize s (md_push bs d'))"
  proof (cases "md_current_header d")
    case (Some h)
    then have p: "try_deserialize_payload_for s h d = Some (d', r)" using assms by (simp add: try_deserialize_def)
    show ?thesis using try_payload_push [OF p] Some by (auto simp: try_deserialize_def md_pending_def)
  next
    case None
    then have p: "deserialize_header_and_payload s d = Some (d', r)" using assms by (simp add: try_deserialize_def)
    let ?d = "d\<lparr> md_buffer := drop header_size (md_buffer d) \<rparr>"
    show ?thesis
    proof (cases "length (md_buffer d) < header_size")
      case True
      then show ?thesis using p by (simp add: deserialize_header_and_payload_def)
    next
      case False
      note push = header_push [OF False, of s bs]
      have shorter: "length (md_buffer ?d) < length (md_buffer d)" using False by (simp add: header_size_def)
      show ?thesis
      proof (cases "\<exists>h rest. header_deserialize (take header_size (md_buffer d)) = Some (h, rest) \<and> validate_header h (md_protocol d) = Inr ()")
        case True
        then obtain h rest where h: "header_deserialize (take header_size (md_buffer d)) = Some (h, rest)"
          "validate_header h (md_protocol d) = Inr ()" by blast
        then have "try_deserialize_payload_for s h (?d\<lparr> md_current_header := Some h \<rparr>) = Some (d', r)"
          using p False by (simp add: deserialize_header_and_payload_def Let_def)
        note q = try_payload_push [OF this]
        show ?thesis using q h push None shorter by (cases r) (auto simp: try_deserialize_def md_pending_def)
      next
        case bad: False
        then have "d' = ?d \<and> r \<noteq> None \<and> deserialize_header_and_payload s (md_push bs d) = Some (md_push bs d', r)"
          using p False push by (auto simp: deserialize_header_and_payload_def Let_def split: option.splits sum.splits prod.splits)
        then show ?thesis using None shorter by (auto simp: try_deserialize_def md_pending_def)
      qed
    qed
  qed
  then show "r \<noteq> None \<Longrightarrow> try_deserialize s (md_push bs d) = Some (md_push bs d', r) \<and> md_pending d' < md_pending d"
    "r = None \<Longrightarrow> try_deserialize s (md_push bs d) = try_deserialize s (md_push bs d')" by simp_all
qed

section \<open>Reading everything that has arrived\<close>

function read_all ::
  "(bytes \<Rightarrow> u128) \<Rightarrow> message_deserializer \<Rightarrow> (message_deserializer \<times> parse_result list) option" where
  "read_all s d =
    (case try_deserialize s d of
      None \<Rightarrow> None
    | Some (d', None) \<Rightarrow> Some (d', [])
    | Some (d', Some r) \<Rightarrow> map_option (\<lambda>(e, rs). (e, r # rs)) (read_all s d'))"
  by pat_completeness auto

termination
  by (relation "measure (\<lambda>(s, d). md_pending d)") (auto dest: try_push(1))

declare read_all.simps [simp del]

text \<open>The bytes arrive in packets; everything that can be read is read after each of them.\<close>

fun receive_packets ::
  "(bytes \<Rightarrow> u128) \<Rightarrow> bytes list \<Rightarrow> message_deserializer \<Rightarrow> (message_deserializer \<times> parse_result list) option" where
  "receive_packets s [] d = read_all s d"
| "receive_packets s (bs # packets) d = do {
    (d, rs) \<leftarrow> read_all s d;
    (d, rs') \<leftarrow> receive_packets s packets (md_push bs d);
    Some (d, rs @ rs') }"

lemma read_all_push:
  "read_all s d = Some (d', rs) \<Longrightarrow>
    read_all s (md_push bs d) = map_option (\<lambda>(e, rs'). (e, rs @ rs')) (read_all s (md_push bs d'))"
proof (induction s d arbitrary: rs rule: read_all.induct)
  case (1 s d)
  obtain e r where e: "try_deserialize s d = Some (e, r)" using 1(2) by (cases "try_deserialize s d") (auto simp: read_all.simps)
  show ?case
  proof (cases r)
    case None
    then have "rs = []" "d' = e" using 1(2) e by (simp_all add: read_all.simps)
    moreover have "try_deserialize s (md_push bs d) = try_deserialize s (md_push bs e)" using try_push(2) [OF e] None by simp
    then have "read_all s (md_push bs d) = read_all s (md_push bs e)" by (subst (1 2) read_all.simps) simp
    ultimately show ?thesis by (simp add: case_prod_beta option.map_ident)
  next
    case (Some x)
    then obtain rs' where rs: "read_all s e = Some (d', rs')" "rs = x # rs'" using 1(2) e
      by (cases "read_all s e") (auto simp: read_all.simps [of s d])
    have "try_deserialize s (md_push bs d) = Some (md_push bs e, Some x)" using try_push(1) [OF e] Some by simp
    then show ?thesis
      using 1(1) [OF e refl Some rs(1)] rs(2)
      by (subst read_all.simps) (cases "read_all s (md_push bs d')"; simp add: case_prod_beta)
  qed
qed

lemma read_all_returns:
  "filter_ok d \<Longrightarrow> \<exists>d' rs. read_all s d = Some (d', rs) \<and> filter_ok d'"
proof (induction s d rule: read_all.induct)
  case (1 s d)
  obtain e r where e: "try_deserialize s d = Some (e, r)" "filter_ok e" by (rule try_deserialize_returns [OF 1(2)])
  show ?case using 1(1) [OF e(1) refl _ e(2)] e by (cases r) (auto simp: read_all.simps [of s d])
qed

lemma receive_packets_returns: "filter_ok d \<Longrightarrow> \<exists>d' rs. receive_packets s packets d = Some (d', rs)"
proof (induction packets arbitrary: d)
  case Nil
  then show ?case using read_all_returns by fastforce
next
  case (Cons bs packets)
  obtain e rs where e: "read_all s d = Some (e, rs)" "filter_ok e" using read_all_returns [OF Cons.prems] by blast
  then have "filter_ok (md_push bs e)" by (simp add: filter_ok_def)
  with e Cons.IH show ?case by fastforce
qed

lemma receive_packets_concat:
  assumes "filter_ok d"
  shows "receive_packets s packets d = read_all s (md_push (concat packets) d)"
  using assms
proof (induction packets arbitrary: d)
  case Nil
  then show ?case by (simp add: md_push_def)
next
  case (Cons bs packets)
  obtain e rs where e: "read_all s d = Some (e, rs)" "filter_ok e" using read_all_returns [OF Cons.prems] by blast
  then have "filter_ok (md_push bs e)" by (simp add: filter_ok_def)
  then have "receive_packets s packets (md_push bs e) = read_all s (md_push (concat packets) (md_push bs e))"
    by (rule Cons.IH)
  moreover have "md_push (concat packets) (md_push bs e) = md_push (bs @ concat packets) e" by (simp add: md_push_def)
  ultimately show ?case
    using read_all_push [OF e(1), of "bs @ concat packets"] e(1)
    by (cases "read_all s (md_push (bs @ concat packets) e)") auto
qed

section \<open>Messages arrive as they were sent\<close>







section \<open>Properties\<close>


definition demo_protocol :: protocol_info where
  "demo_protocol = \<lparr> version_using = 0x15, version_max = 0x15, version_min = 0x14, pi_network = NanoLiveNetwork \<rparr>"



text \<open>
  C19. No bytes of a peer make the receiver panic, and what it reads from arbitrary bytes, with the duplicate filter on, does not
  depend on how they are split into packets. The filter has at least one slot.
\<close>

theorem receiving_is_total:
  assumes "0 < n" "d = new_message_deserializer q (Some (new_network_filter n))"
  shows "\<exists>d' rs. receive_packets s packets d = Some (d', rs) \<and> receive_packets s [concat packets] d = Some (d', rs)"
proof -
  have ok: "filter_ok d" using assms by (simp add: filter_ok_def new_message_deserializer_def new_network_filter_def)
  then show ?thesis
    using receive_packets_returns [OF ok, of s packets] receive_packets_concat [OF ok, of s packets]
      receive_packets_concat [OF ok, of s "[concat packets]"] by auto
qed

theorem receiving_is_total_witness:
  "\<exists>d' rs. receive_packets (\<lambda>_. 0) [[1], [2, 3]] (new_message_deserializer demo_protocol (Some (new_network_filter 1))) = Some (d', rs)"
  using receiving_is_total [of 1 _ demo_protocol "\<lambda>_. 0" "[[1], [2, 3]]", OF _ refl] by auto



end
