(* ===== verification/Spec2Isabelle.thy ===== *)
theory Spec2Isabelle
  imports Epoch_Mint Rollback_Roundtrip Active_Properties Message_Receive
begin

text \<open>
  A verification of the consensus core of the node: the ledger, the votes and the elections, and of the
  messages its peers exchange.

  \<^bold>\<open>The program.\<close> A ledger stores blocks in one chain per account. Blocks arrive from peers, are validated
  against the ledger and inserted in batches; a block that turns out to be a fork is rolled back in
  favour of its competitor. Elections count the votes of representatives, weighted by the balances
  delegated to them; when the final votes for a block reach the quorum, the block is cemented with
  everything it depends on and can no longer be rolled back.

  \<^bold>\<open>Conventions.\<close> Machine integers are words of their width, amounts wrap around at 128 bits as in
  the code. A panic (\<open>unwrap\<close>, \<open>expect\<close>, an index out of range) is \<open>None\<close>, an error value is
  \<open>Inl\<close>. A database table is a map from keys to the bytes the code writes. A \<open>HashMap\<close> that is
  iterated is an association list whose order stands for the order of iteration, others are maps, a
  \<open>BTreeSet\<close> is a sorted list. The hash function and the signature check are a parameter (the record
  \<open>crypto\<close>), clocks are arguments, other writers between two database transactions are functions
  (\<open>refresh\<close>, \<open>env\<close>) with stated hypotheses.

  \<^bold>\<open>Theories and the code they model.\<close>
  \<^item> \<open>Prelude\<close>: byte codecs (locales \<open>codec\<close>, \<open>fixed_codec\<close>), tables (locale \<open>map_store\<close>), sums over maps.
  \<^item> \<open>Core_Types\<close>, \<open>Blocks\<close> (\<open>core/src\<close>): amounts, epochs, account, pending and confirmation height
    records, the five kinds of blocks with their hashes, wire and database encodings, sidebands.
  \<^item> \<open>Ledger_Store\<close> (\<open>store_lmdb\<close>, \<open>ledger/src/ledger_sets\<close>): the tables and queries; \<open>Work\<close> (\<open>work\<close>):
    proof of work thresholds.
  \<^item> \<open>Block_Validation\<close>, \<open>Block_Insertion\<close> (\<open>ledger/src/block_insertion\<close>, \<open>rep_weights_updater.rs\<close>):
    the validation rules in their order, the instructions they produce and their execution;
    \<open>Ledger_Processing\<close>, \<open>Genesis\<close>: batches and the start of a ledger.
  \<^item> \<open>Ledger_Invariant\<close>, \<open>Insertion_Effects\<close>, \<open>Insertion_Correct\<close>, \<open>Account_Chain\<close>, \<open>Epoch_Mint\<close>,
    \<open>Dependencies\<close>: the invariant of the ledger (chains, pending entries, supply, weights, counters,
    confirmation heights) and that insertion keeps it.
  \<^item> \<open>Rollback\<close>, \<open>Rollback_Correct\<close>, \<open>Rollback_Roundtrip\<close> (\<open>ledger/src/block_rollback\<close>): planning and
    execution of rollbacks, safety of confirmed blocks, the round trip.
  \<^item> \<open>Cementing\<close>, \<open>Cementing_Live\<close> (\<open>ledger/src/block_cementer.rs\<close>): the cementing loop, its invariant
    and that it returns; \<open>Voting\<close> (\<open>vote_verifier.rs\<close>, \<open>dependent_blocks_finder.rs\<close>): which votes a
    node may cast; \<open>Ledger_Run\<close>: ledgers reachable by batches and cementing.
  \<^item> \<open>Votes\<close> (\<open>core/src/vote.rs\<close>, \<open>vote_timestamp.rs\<close>, \<open>nullables/clock\<close>), \<open>Elections\<close> and
    \<open>Election_Correct\<close> (\<open>node/src/consensus/election\<close>): votes and one election; \<open>Quorum\<close>: weighted
    quorums intersect (locale \<open>weighted_quorum\<close>).
  \<^item> \<open>Election_Containers\<close>, \<open>Active_Elections\<close> (\<open>node/src/consensus/active_elections\<close>,
    \<open>election_schedulers/priority/bucketing.rs\<close>): all running elections. \<open>Active_Roots\<close>,
    \<open>Active_Correct\<close>, \<open>Active_Votes\<close>: their invariant and that every operation returns and keeps it;
    \<open>Active_Run\<close>: all states reached by any sequence of operations, and the order of iteration.
  \<^item> \<open>Wire_Messages\<close>, \<open>Message_Stream\<close> (\<open>messages/src\<close>): the messages of the peer protocol, their
    headers and formats, the duplicate filter, and the incremental deserializer of a connection.
    \<open>Message_Correct\<close>, \<open>Message_Receive\<close>: every message is read back, and reading is total and
    independent of how the bytes arrive.
  \<^item> \<open>Example_Ledger\<close>: a small network on which the properties are exercised. \<open>Consensus_Properties\<close>,
    \<open>Active_Properties\<close> and this theory hold the properties that span components.

  \<^bold>\<open>Loops.\<close> Loops that may run forever (search for a representative, rollback, cementing) are
  \<open>partial_function (option)\<close>; that they return is proved where the code relies on it
  (\<open>representative_search\<close>, \<open>cementing_completes\<close>, \<open>rollback_restores\<close>). All other loops are total.

  \<^bold>\<open>Not modelled.\<close> Sockets, threads and their schedules, LMDB itself, configuration files, command line,
  RPC and websocket servers, wallets, work generation, and statistics are input and output or glue around the
  modelled parts. Bootstrapping (the synchronisation with peers) and the network layer are not modelled.
\<close>

section \<open>The ledger\<close>

subsection \<open>Supply, weights and chains\<close>







text \<open>
  C8. No forks: in the ledger of a running node two stored blocks with the same qualified root (the same
  account and predecessor) are the same block.
\<close>

theorem no_stored_forks:
  assumes "genesis_ok cr c" "ledger_run cr c mw L" "block_get L h = Some b" "block_get L h' = Some b'"
    and "block_qualified_root (sv_block b) = block_qualified_root (sv_block b')"
  shows "h = h' \<and> b = b'"
  using root_unique [OF ledger_run_ledger_inv [OF assms(2,1)] assms(3-5)] assms(3,4) by simp

theorem no_stored_forks_witness:
  "\<exists>L. ledger_run demo_crypto demo_constants 0 L \<and>
    {h. \<exists>b. block_get L h = Some b \<and> block_qualified_root (sv_block b) = block_qualified_root demo_send} = {11}"
proof -
  obtain L L' sv where L: "reachable demo_crypto demo_constants 0 L'" "block_get L' = (block_get L)(11 \<mapsto> sv)"
    "sv_block sv = demo_send"
    by (rule demo_sent)
  then have b: "block_get L' 11 = Some sv" by simp
  have only: "h = 11" if "block_get L' h = Some x" "block_qualified_root (sv_block x) = block_qualified_root demo_send" for h x
    using no_stored_forks [OF demo_genesis_ok reachable_run [OF L(1)] that(1) b] that(2) L(3) by simp
  have "{h. \<exists>x. block_get L' h = Some x \<and> block_qualified_root (sv_block x) = block_qualified_root demo_send} = {11}"
    (is "?S = _")
  proof (rule subset_antisym)
    show "?S \<subseteq> {11}" using only by (simp only: subset_iff mem_Collect_eq singleton_iff) blast
    have "11 \<in> ?S"
      by (intro CollectI exI [of _ sv] conjI) (rule b, simp only: L(3))
    then show "{11} \<subseteq> ?S" by (simp only: insert_subset empty_subsetI simp_thms)
  qed
  with reachable_run [OF L(1)] show ?thesis by blast
qed

text \<open>
  C23. Fork rejection: a block whose qualified root is already taken by a stored block is rejected by
  the validation, whatever it contains.
\<close>

theorem fork_rejected:
  assumes "ledger_inv cr mw L" "block_get L h = Some b"
    and "block_qualified_root b' = block_qualified_root (sv_block b)"
  shows "\<exists>e. validate_block cr c L b' now = Inl e"
  by (rule stored_root_rejected [OF assms])

theorem fork_rejected_witness:
  "\<exists>L e. ledger_inv demo_crypto 0 L \<and> block_get L 11 \<noteq> None \<and>
    validate_block demo_crypto demo_constants L
      (State \<lparr> st_account = 7, st_previous = 5, st_representative = 12, st_balance = 0,
        st_link = 30, st_signature = 0, st_work = 0 \<rparr>) 0 = Inl e"
proof -
  obtain L L' sv where L: "ledger_inv demo_crypto 0 L'" "block_get L' = (block_get L)(11 \<mapsto> sv)"
    "sv_block sv = demo_send"
    by (rule demo_sent)
  then have b: "block_get L' 11 = Some sv" by simp
  have "block_qualified_root (State \<lparr> st_account = 7, st_previous = 5, st_representative = 12, st_balance = 0,
        st_link = 30, st_signature = 0, st_work = 0 \<rparr>) = block_qualified_root (sv_block sv)"
    using L by (simp add: block_qualified_root_def demo_send_def)
  from fork_rejected [OF L(1) b this] L(1) b show ?thesis by blast
qed

text \<open>
  C24. The blocks of an account form one chain: their heights run through \<open>1\<close> to the account's block
  count, each height occurring exactly once.
\<close>

theorem account_chain_heights:
  assumes "genesis_ok cr c" "ledger_run cr c mw L" "account_get L a = Some i"
  shows "bij_betw (\<lambda>h. unat (sv_height (the (block_get L h)))) (account_blocks L a) {1..unat (ai_block_count i)}"
  by (rule account_blocks_heights [OF ledger_run_ledger_inv [OF assms(2,1)] assms(3)])

theorem account_chain_heights_witness:
  "\<exists>L i. ledger_run demo_crypto demo_constants 0 L \<and> account_get L 7 = Some i \<and>
    bij_betw (\<lambda>h. unat (sv_height (the (block_get L h)))) (account_blocks L 7) {1..unat (ai_block_count i)}"
proof -
  obtain L where L: "reachable demo_crypto demo_constants 0 L"
    "account_get L = [7 \<mapsto> genesis_info demo_crypto demo_genesis]"
    by (rule demo_start)
  then have "account_get L 7 = Some (genesis_info demo_crypto demo_genesis)" by simp
  with account_chain_heights [OF demo_genesis_ok reachable_run [OF L(1)] this] reachable_run [OF L(1)] show ?thesis by blast
qed

text \<open>
  C27. The search for the representative block of an account's head returns (the loop ends), and the
  block it finds names the representative recorded in the account info.
\<close>

theorem representative_search:
  assumes "genesis_ok cr c" "ledger_run cr c mw L" "account_get L a = Some i"
  shows "\<exists>rh rb. find_rep_block cr L (ai_head i) = Some rh \<and> block_get L rh = Some rb \<and>
    representative_field (sv_block rb) = Some (ai_representative i)"
proof -
  note inv = ledger_run_ledger_inv [OF assms(2,1)]
  have "has_rep (block_get L) (ai_head i) (ai_representative i)"
    using inv_account [OF inv assms(3)] by (simp add: account_ok_def)
  from find_rep_block_returns [OF this inv] show ?thesis by blast
qed

theorem representative_search_witness:
  "\<exists>L i rh. account_get L 7 = Some i \<and> find_rep_block demo_crypto L (ai_head i) = Some rh"
proof -
  obtain L where L: "reachable demo_crypto demo_constants 0 L"
    "account_get L = [7 \<mapsto> genesis_info demo_crypto demo_genesis]"
    by (rule demo_start)
  then have "account_get L 7 = Some (genesis_info demo_crypto demo_genesis)" by simp
  with representative_search [OF demo_genesis_ok reachable_run [OF L(1)] this] show ?thesis by blast
qed

subsection \<open>Processing blocks\<close>







text \<open>
  C29. Within one batch every account gets at most one new block: the accounts of the saved blocks
  are pairwise distinct, later blocks of the same account are answered with \<open>Conflict\<close>.
\<close>

theorem one_block_per_account_and_batch:
  assumes "ledger_inv cr mw L" "batch_ok cr c L batch"
  shows "\<exists>L' out. process_batch cr c mw L batch = Some (L', out) \<and> distinct (map sv_account (saved_blocks out))"
  by (rule process_batch_accounts [OF assms])

theorem one_block_per_account_and_batch_witness:
  "\<exists>L L' out. ledger_inv demo_crypto 0 L \<and>
    process_batch demo_crypto demo_constants 0 L [(demo_send, 0)] = Some (L', out) \<and>
    distinct (map sv_account (saved_blocks out))"
proof -
  obtain L where L: "ledger_inv demo_crypto 0 L" "batch_ok demo_crypto demo_constants L [(demo_send, 0)]"
    by (rule demo_sent)
  with one_block_per_account_and_batch [OF L] show ?thesis by blast
qed

text \<open>
  C35. The exception to the conservation of money: a valid state block with an epoch link and a
  balance above that of its predecessor is accepted and creates the difference out of nothing,
  because it counts neither as a receive (epoch link) nor as an epoch block (changed balance).
\<close>

theorem epoch_link_creates_money:
  assumes "ledger_inv cr mw L" "validate_block cr c L b now = Inr ins" "epoch_link_increase c L b"
    and "block_hash_of cr b \<noteq> 0" "lg_next_id L < - 1"
  shows "\<exists>L' sv. process_one cr c mw L b now = Some (L', Inr sv) \<and> sv_block sv = b \<and>
    total_supply L' = total_supply L + unat (sv_balance sv) -
      unat (case account_get L (in_account ins) of None \<Rightarrow> 0 | Some i \<Rightarrow> ai_balance i) \<and>
    total_supply L < total_supply L'"
  by (rule epoch_link_increase_mints [OF assms(2,1,3,4,5)])

theorem epoch_link_creates_money_witness:
  "\<exists>L L' sv. total_supply L = unat amount_max \<and>
    process_one demo_crypto demo_constants 0 L demo_mint 0 = Some (L', Inr sv) \<and> total_supply L < total_supply L'"
proof -
  obtain L where L: "ledger_inv demo_crypto 0 L" "block_get L = [5 \<mapsto> stored_genesis demo_genesis]"
    "account_get L = [7 \<mapsto> genesis_info demo_crypto demo_genesis]" "pending_get L = Map.empty" "lg_next_id L = 1"
    by (rule demo_start)
  obtain ins where v: "validate_block demo_crypto demo_constants L demo_mint 0 = Inr ins"
    using demo_mint_valid [of L] L by auto
  have room: "lg_next_id L < - 1"
    by (simp add: L(5) word_less_nat_alt unsigned_minus_1_eq_mask mask_eq_exp_minus_1)
  show ?thesis
    using epoch_link_creates_money [OF L(1) v demo_mint_increase _ room] L(1)
    by (auto simp: demo_mint_def ledger_inv_def supply_inv_def unat_amount_max)
qed

subsection \<open>Rolling back\<close>



text \<open>
  C36. The exception to the round trip: a legacy send of amount zero is accepted and adds a pending
  entry, but its rollback plans it as a change block and leaves the entry behind. The entry then
  refers to a block that no longer exists, so the ledger invariant is broken.
\<close>

theorem zero_send_rollback_leaves_pending:
  assumes "ledger_inv cr mw L" "batch_ok cr c L [(LegacySend s, now)]" "validate_block cr c L (LegacySend s) now = Inr ins"
    and "ai_balance (in_set_account_info ins) = ai_balance (in_old_account_info ins)"
  shows "\<exists>L' L'' sv. process_one cr c mw L (LegacySend s) now = Some (L', Inr sv) \<and>
    roll_back cr c mw clock L' (block_hash_of cr (LegacySend s)) = Some (L'', Inr 1) \<and>
    block_get L'' (block_hash_of cr (LegacySend s)) = None \<and>
    pending_get L'' (PendingKey (snd_destination s) (block_hash_of cr (LegacySend s))) \<noteq> None \<and>
    \<not> ledger_inv cr mw L''"
proof -
  let ?b = "LegacySend s" and ?k = "PendingKey (snd_destination s) (block_hash_of cr (LegacySend s))"
  have ins: "insertable cr L ?b ins"
    using assms(2) by (intro validated_insertable [OF assms(3,1)]) (simp_all add: batch_ok_def)
  obtain L' L'' sv where one: "process_one cr c mw L ?b now = Some (L', Inr sv)" and eff: "inserted cr L ?b ins L'"
    and rb: "roll_back cr c mw clock L' (block_hash_of cr ?b) = Some (L'', Inr 1)"
    and res: "restored_but_pending (in_account ins) (clock 0) L L''" and pend: "pending_get L'' = pending_get L'"
    by (rule process_then_roll_back [OF assms(1-3), where Q = pending_get])
      (rule plan_ignores_zero_send [OF refl assms(4)])
  have "fst (the (in_insert_pending ins)) = ?k" "in_insert_pending ins \<noteq> None"
    using assms(3) by (auto simp: validate_block_def validate_Inr create_instructions_def new_pending_info_def
        create_validator_def Let_def)
  then have "pending_get L'' ?k \<noteq> None"
    using eff pend by (auto simp: inserted_def pending_after_def Let_def split: option.splits)
  moreover have gone: "block_get L'' (block_hash_of cr ?b) = None"
    using res insertable_basic(3) [OF ins] by (simp add: restored_but_pending_def)
  moreover have "\<not> ledger_inv cr mw L''"
    using calculation pending_fresh [of L'' ?k] by (auto simp: ledger_inv_def)
  ultimately show ?thesis using one rb by blast
qed

theorem zero_send_rollback_leaves_pending_witness:
  "\<exists>L L' L'' sv. ledger_inv demo_crypto 0 L \<and>
    process_one demo_crypto demo_constants 0 L demo_zero_send 0 = Some (L', Inr sv) \<and>
    roll_back demo_crypto demo_constants 0 (\<lambda>_. 0) L' 21 = Some (L'', Inr 1) \<and>
    pending_get L'' (PendingKey 21 21) \<noteq> None \<and> \<not> ledger_inv demo_crypto 0 L''"
proof -
  obtain L where L: "ledger_inv demo_crypto 0 L" "block_get L = [5 \<mapsto> stored_genesis demo_genesis]"
    "account_get L = [7 \<mapsto> genesis_info demo_crypto demo_genesis]" "pending_get L = Map.empty" "lg_next_id L = 1"
    by (rule demo_start)
  obtain ins where v: "validate_block demo_crypto demo_constants L demo_zero_send 0 = Inr ins"
    "ai_balance (in_set_account_info ins) = ai_balance (in_old_account_info ins)"
    using demo_zero_send_valid [OF L(2,3,4,1)] by blast
  from zero_send_rollback_leaves_pending [OF L(1) demo_zero_send_batch_ok [OF L(5), of 0, unfolded demo_zero_send_def]
      v [unfolded demo_zero_send_def], of "\<lambda>_. 0"] L(1)
  show ?thesis by (simp add: demo_zero_send_def) blast
qed

text \<open>
  C4. Confirmed blocks survive every rollback: whatever targets are rolled back and whatever errors
  occur on the way, a block that was confirmed before is still stored and confirmed afterwards, and
  the rollback only ever removes blocks.
\<close>

theorem confirmed_blocks_survive_rollback:
  assumes "ledger_inv cr mw L" "roll_back_batch cr c mw' clock L targets max_rollbacks can = Some (L', results)"
  shows "(\<forall>h. confirmed_get_block L h \<noteq> None \<longrightarrow> confirmed_get_block L' h = confirmed_get_block L h) \<and>
    block_get L' \<subseteq>\<^sub>m block_get L"
proof -
  have "keyed_by_hash cr L"
    using assms(1) inv_block [OF assms(1)] by (auto simp: keyed_by_hash_def ledger_inv_def block_ok_def)
  from roll_back_batch_keeps_confirmed [OF this assms(2) [unfolded roll_back_batch_def]] show ?thesis
    by (auto simp: confirmed_kept_def)
qed

theorem confirmed_blocks_survive_rollback_witness:
  "\<exists>L L' results. roll_back_batch demo_crypto demo_constants 0 (\<lambda>_ _. 3) L [11] (2 ^ 64 - 1) (\<lambda>_. True) = Some (L', results) \<and>
    block_get L 11 \<noteq> None \<and> block_get L' 11 = None \<and> confirmed_get_block L' 5 = Some (stored_genesis demo_genesis)"
proof -
  obtain L where L: "ledger_inv demo_crypto 0 L" "block_get L = [5 \<mapsto> stored_genesis demo_genesis]"
    "account_get L = [7 \<mapsto> genesis_info demo_crypto demo_genesis]" "pending_get L = Map.empty" "lg_next_id L = 1"
    "conf_height_get L = [7 \<mapsto> \<lparr> ch_height = 1, ch_frontier = 5 \<rparr>]"
    by (rule demo_start)
  note ok = demo_batch_ok [OF L(2,5), of 0]
  obtain ins where v: "validate_block demo_crypto demo_constants L demo_send 0 = Inr ins"
    "in_insert_pending ins = Some (PendingKey 20 11, \<lparr> pi_source = 7, pi_amount = 10, pi_epoch = Epoch0 \<rparr>)"
    using demo_send_valid [OF L(2,3,4,1)] by blast
  have ins: "insertable demo_crypto L demo_send ins"
    using ok by (intro validated_insertable [OF v(1) L(1)]) (simp_all add: batch_ok_def)
  from insertable_delta(3) [OF this v(2)] have mv: "moves_amount ins" by (auto simp: moves_amount_def)
  have hash: "block_hash_of demo_crypto demo_send = 11" by (simp add: demo_send_def)
  obtain L' L'' sv where one: "process_one demo_crypto demo_constants 0 L demo_send 0 = Some (L', Inr sv)"
    and eff: "inserted demo_crypto L demo_send ins L'" and res: "restored_but_pending (in_account ins) 3 L L''"
    and rb: "roll_back demo_crypto demo_constants 0 (\<lambda>_. 3) L' 11 = Some (L'', Inr 1)"
    by (rule process_then_roll_back [OF L(1) ok v(1), where Q = "\<lambda>_. pending_get L" and clock = "\<lambda>_. 3", unfolded hash])
      (rule plan_reverses_pending [OF L(1) v(1) ins _ mv])
  then obtain results where "roll_back_batch demo_crypto demo_constants 0 (\<lambda>_ _. 3) L' [11] (2 ^ 64 - 1) (\<lambda>_. True) = Some (L'', results)"
    by (fastforce simp: roll_back_def bind_eq_Some_conv neq_Nil_conv split: list.splits)
  note rbb = this
  have inv': "ledger_inv demo_crypto 0 L'"
    using process_one_accepted [OF L(1) ok v(1)] one by auto
  have "confirmed_get_block L' 5 = Some (stored_genesis demo_genesis)"
    using eff L(2,6) hash
    by (simp add: confirmed_get_block_def inserted_def stored_genesis_def new_saved_block_def sv_account_def sv_height_def
        genesis_sideband_def demo_genesis_def)
  with confirmed_blocks_survive_rollback [OF inv' rbb] have "confirmed_get_block L'' 5 = Some (stored_genesis demo_genesis)"
    by simp
  with rbb eff res L(2) hash show ?thesis
    by (intro exI [of _ L'] exI [of _ L''] exI [of _ results]) (simp add: inserted_def restored_but_pending_def)
qed

subsection \<open>Cementing\<close>

text \<open>
  C13. In the ledger of a running node the dependencies of every cemented block (its predecessor and
  the block it receives) are cemented, and every dependency chain is finite and stored.
\<close>

theorem cemented_dependencies:
  assumes "genesis_ok cr c" "ledger_run cr c mw L" "block_get L h = Some b"
  shows "grounded c (block_get L) h \<and>
    (is_confirmed L h \<longrightarrow> (\<forall>d \<in> set (dependents_iter (find_dependent_blocks c b)). is_confirmed L d))"
  using ledger_run_inv [OF assms(2,1)] assms(3)
  by (auto simp: cement_inv_def deps_inv_def deps_closed_def find_dependent_blocks_def)

theorem cemented_dependencies_witness:
  "\<exists>L. ledger_run demo_crypto demo_constants 0 L \<and> grounded demo_constants (block_get L) 11"
proof -
  obtain L L' sv where L: "reachable demo_crypto demo_constants 0 L'" "block_get L' = (block_get L)(11 \<mapsto> sv)"
    by (rule demo_sent)
  then have "block_get L' 11 = Some sv" by simp
  with cemented_dependencies [OF demo_genesis_ok reachable_run [OF L(1)]] reachable_run [OF L(1)] show ?thesis
    by blast
qed





subsection \<open>Voting\<close>

text \<open>
  C28. The dependencies that are computed for a block before it is stored (from the ledger) agree
  with those computed from the stored block (from its sideband).
\<close>

theorem dependencies_survive_saving:
  assumes "ledger_inv cr mw L" "validate_block cr c L b now = Inr ins" "block_hash_of cr b \<noteq> 0"
  shows "find_dependent_blocks c (new_saved_block b (in_set_sideband ins)) =
    find_dependent_blocks_for_unsaved_block c L b"
  by (rule saved_dependencies [OF assms(2,1,3)])

theorem dependencies_survive_saving_witness:
  "\<exists>L ins. validate_block demo_crypto demo_constants L demo_send 0 = Inr ins \<and>
    find_dependent_blocks demo_constants (new_saved_block demo_send (in_set_sideband ins)) =
    find_dependent_blocks_for_unsaved_block demo_constants L demo_send"
proof -
  obtain L where L: "ledger_inv demo_crypto 0 L" "block_get L = [5 \<mapsto> stored_genesis demo_genesis]"
    "account_get L = [7 \<mapsto> genesis_info demo_crypto demo_genesis]" "pending_get L = Map.empty"
    by (rule demo_start)
  obtain ins where v: "validate_block demo_crypto demo_constants L demo_send 0 = Inr ins"
    using demo_send_valid [OF L(2,3,4,1)] by blast
  have "block_hash_of demo_crypto demo_send \<noteq> 0" by (simp add: demo_send_def)
  from dependencies_survive_saving [OF L(1) v this] v show ?thesis by blast
qed

end
